(* ===== verification/Prelude.thy ===== *)
theory Prelude
  imports Main "HOL-Library.Word"
begin

text \<open>
  Shared vocabulary of the development: the collections the component proofs draw on, the
  characters the C++ sources compare against, and generic lemmas on lists and maps.
  Machine integers are kept as follows. A \<^verbatim>\<open>std::size_t\<close> or \<^verbatim>\<open>std::uint64_t\<close> that can wrap is a
  \<open>64 word\<close>; an \<^verbatim>\<open>int\<close> or a \<^verbatim>\<open>long long\<close> is an \<open>int\<close>, and where a narrowing conversion or a
  saturation is reachable it is written out (\<open>to_int32\<close>, \<open>int64_max\<close>).
\<close>

named_theorems text_simps "evaluation of character classes and of string scanning"
named_theorems os_simps "effects of operating-system calls on the fields of a state"
named_theorems ladder_simps "effects of the clock and of a probe on the device ladder"

section \<open>Characters\<close>

abbreviation dquote :: char where "dquote \<equiv> CHR 0x22"
abbreviation bslash :: char where "bslash \<equiv> CHR 0x5C"
abbreviation newline :: char where "newline \<equiv> CHR 0x0A"
abbreviation creturn :: char where "creturn \<equiv> CHR 0x0D"
abbreviation htab :: char where "htab \<equiv> CHR 0x09"

section \<open>Integer widths\<close>

type_synonym size_t = "64 word"
type_synonym byte = "8 word"

abbreviation int64_max :: int where "int64_max \<equiv> 9223372036854775807"
abbreviation int64_min :: int where "int64_min \<equiv> - 9223372036854775808"
abbreviation int32_max :: int where "int32_max \<equiv> 2147483647"
abbreviation int32_min :: int where "int32_min \<equiv> - 2147483648"

definition in_int64 :: "int \<Rightarrow> bool" where
  "in_int64 i \<longleftrightarrow> int64_min \<le> i \<and> i \<le> int64_max"

definition in_int32 :: "int \<Rightarrow> bool" where
  "in_int32 i \<longleftrightarrow> int32_min \<le> i \<and> i \<le> int32_max"

text \<open>\<^verbatim>\<open>static_cast<int>\<close> of a wider integer: two's complement truncation.\<close>

definition to_int32 :: "int \<Rightarrow> int" where
  "to_int32 i = (i + 2147483648) mod 4294967296 - 2147483648"

lemma to_int32_range: "in_int32 (to_int32 i)"
  using pos_mod_bound [of 4294967296 "i + 2147483648"] pos_mod_sign [of 4294967296 "i + 2147483648"]
  unfolding in_int32_def to_int32_def by linarith

lemma to_int32_id: "in_int32 i \<Longrightarrow> to_int32 i = i"
  by (simp add: in_int32_def to_int32_def)

section \<open>Lists and maps\<close>

fun strip_prefix :: "'a list \<Rightarrow> 'a list \<Rightarrow> 'a list option" where
  "strip_prefix [] ys = Some ys"
| "strip_prefix (x # xs) [] = None"
| "strip_prefix (x # xs) (y # ys) = (if x = y then strip_prefix xs ys else None)"

lemma strip_prefix_append [simp]: "strip_prefix xs (xs @ ys) = Some ys"
  by (induction xs) auto

lemma strip_prefix_Some: "strip_prefix xs ys = Some zs \<longleftrightarrow> ys = xs @ zs"
  by (induction xs ys rule: strip_prefix.induct) auto

lemma takeWhile_stop:
  assumes "\<forall>x \<in> set xs. P x" and "ys = [] \<or> \<not> P (hd ys)"
  shows "takeWhile P (xs @ ys) = xs" and "dropWhile P (xs @ ys) = ys"
  using assms by (induction xs) (cases ys; auto)+

lemma ran_upd_subset: "ran (m(k \<mapsto> v)) \<subseteq> insert v (ran m)"
  by (auto simp: ran_def)

lemma ran_upd_None_subset: "ran (m(k := None)) \<subseteq> ran m"
  by (auto simp: ran_def)

end
