(* ===== verification/Text_Util.thy ===== *)
theory Text_Util
  imports Prelude
begin

text \<open>
  The parts of \<^verbatim>\<open>std::string\<close>, \<^verbatim>\<open>std::to_string\<close> and the \<^verbatim>\<open>strtoll\<close> family the sources use.
  A \<^verbatim>\<open>std::string\<close> is a \<open>string\<close> (a list of bytes), \<^verbatim>\<open>std::string::npos\<close> is \<open>None\<close>. These are
  models of the standard library, shared by every component; nothing here is a component of its own.
\<close>

section \<open>Character classes\<close>

definition is_digit :: "char \<Rightarrow> bool" where
  "is_digit c \<longleftrightarrow> 48 \<le> (of_char c :: nat) \<and> (of_char c :: nat) \<le> 57"

definition digit_val :: "char \<Rightarrow> nat" where
  "digit_val c = of_char c - 48"

definition digit_char :: "nat \<Rightarrow> char" where
  "digit_char d = ''0123456789'' ! d"

text \<open>\<^verbatim>\<open>isspace\<close> in the C locale, also \<^verbatim>\<open>\s\<close> of \<^verbatim>\<open>std::regex\<close>.\<close>

definition is_space :: "char \<Rightarrow> bool" where
  "is_space c \<longleftrightarrow> c \<in> {CHR 0x20, CHR 0x09, CHR 0x0A, CHR 0x0B, CHR 0x0C, CHR 0x0D}"

lemma digit_char_of: "d < 10 \<Longrightarrow> of_char (digit_char d) = 48 + d"
proof -
  assume "d < 10"
  then have "d \<in> {0, 1, 2, 3, 4, 5, 6, 7, 8, 9}" by auto
  then show ?thesis by (auto simp: digit_char_def)
qed

lemma is_digit_digit_char [simp]: "d < 10 \<Longrightarrow> is_digit (digit_char d)"
  by (simp add: is_digit_def digit_char_of)

lemma digit_val_digit_char [simp]: "d < 10 \<Longrightarrow> digit_val (digit_char d) = d"
  by (simp add: digit_val_def digit_char_of)

lemma digit_not_space: "is_digit c \<Longrightarrow> \<not> is_space c"
  by (auto simp: is_digit_def is_space_def)

lemma digit_neq [simp]:
  "is_digit c \<Longrightarrow> c \<noteq> dquote" "is_digit c \<Longrightarrow> c \<noteq> bslash" "is_digit c \<Longrightarrow> c \<noteq> CHR ''-''"
  "is_digit c \<Longrightarrow> c \<noteq> CHR '':''" "is_digit c \<Longrightarrow> c \<noteq> newline" "is_digit c \<Longrightarrow> c \<noteq> CHR ''+''"
  by (auto simp: is_digit_def)

section \<open>Printing integers\<close>

fun nat_str :: "nat \<Rightarrow> string" where
  "nat_str n = (if n \<le> 9 then [digit_char n] else nat_str (n div 10) @ [digit_char (n mod 10)])"

declare nat_str.simps [simp del]

definition int_str :: "int \<Rightarrow> string" where
  "int_str i = (if 0 \<le> i then nat_str (nat i) else CHR ''-'' # nat_str (nat (- i)))"

definition word_str :: "'a::len word \<Rightarrow> string" where
  "word_str w = nat_str (unat w)"

text \<open>The value of a run of digits, most significant first.\<close>

definition dec_val :: "string \<Rightarrow> nat" where
  "dec_val = foldl (\<lambda>a c. 10 * a + digit_val c) 0"

lemma dec_val_Nil [simp]: "dec_val [] = 0"
  by (simp add: dec_val_def)

lemma dec_val_snoc [simp]: "dec_val (cs @ [c]) = 10 * dec_val cs + digit_val c"
  by (simp add: dec_val_def)

lemma nat_str_not_Nil [simp]: "nat_str n \<noteq> []"
  by (subst nat_str.simps) simp

lemma nat_str_digits: "\<forall>c \<in> set (nat_str n). is_digit c"
proof (induction n rule: nat_str.induct)
  case (1 n)
  then show ?case by (subst nat_str.simps) auto
qed

lemma dec_val_nat_str [simp]: "dec_val (nat_str n) = n"
proof (induction n rule: nat_str.induct)
  case (1 n)
  show ?case
  proof (cases "n \<le> 9")
    case True
    then show ?thesis by (simp add: nat_str.simps [of n] dec_val_def)
  next
    case False
    with 1 show ?thesis by (simp add: nat_str.simps [of n])
  qed
qed

lemma nat_str_inj: "nat_str m = nat_str n \<longleftrightarrow> m = n"
  by (metis dec_val_nat_str)

lemma nat_str_hd_digit: "is_digit (hd (nat_str n))"
  using nat_str_digits [of n] by (cases "nat_str n") auto

lemma int_str_inj: "int_str i = int_str j \<longleftrightarrow> i = j"
proof -
  have "nat_str m \<noteq> CHR ''-'' # nat_str n" for m n
    using nat_str_digits [of m] by (cases "nat_str m") auto
  then show ?thesis
    by (auto simp: int_str_def nat_str_inj split: if_splits) (metis)+
qed

lemma nat_str_no_space: "c \<in> set (nat_str n) \<Longrightarrow> \<not> is_space c"
  using nat_str_digits digit_not_space by blast

section \<open>Scanning\<close>

text \<open>\<^verbatim>\<open>s.find(c)\<close> and \<^verbatim>\<open>s.find(needle)\<close>: the position of the first occurrence.\<close>

fun find_char :: "char \<Rightarrow> string \<Rightarrow> nat option" where
  "find_char c [] = None"
| "find_char c (x # xs) = (if x = c then Some 0 else map_option Suc (find_char c xs))"

fun find_sub :: "string \<Rightarrow> string \<Rightarrow> nat option" where
  "find_sub n [] = (if n = [] then Some 0 else None)"
| "find_sub n (x # xs) =
     (if strip_prefix n (x # xs) \<noteq> None then Some 0 else map_option Suc (find_sub n xs))"

text \<open>\<^verbatim>\<open>s.rfind(prefix, 0) == 0\<close>: whether the string starts with the prefix.\<close>

definition starts_with :: "string \<Rightarrow> string \<Rightarrow> bool" where
  "starts_with p s \<longleftrightarrow> strip_prefix p s \<noteq> None"

text \<open>The text after the first occurrence of a needle.\<close>

fun after_sub :: "string \<Rightarrow> string \<Rightarrow> string option" where
  "after_sub n [] = (if n = [] then Some [] else None)"
| "after_sub n (x # xs) =
     (case strip_prefix n (x # xs) of Some r \<Rightarrow> Some r | None \<Rightarrow> after_sub n xs)"

lemma after_sub_find_sub:
  "after_sub n s = map_option (\<lambda>i. drop (i + length n) s) (find_sub n s)"
proof (induction s)
  case Nil
  then show ?case by simp
next
  case (Cons x xs)
  show ?case
  proof (cases "strip_prefix n (x # xs)")
    case None
    with Cons show ?thesis by (simp add: option.map_comp comp_def)
  next
    case (Some r)
    then have "drop (length n) (x # xs) = r" by (metis append_eq_conv_conj strip_prefix_Some)
    with Some show ?thesis by simp
  qed
qed

lemma find_sub_at: "find_sub n s = Some k \<Longrightarrow> drop k s = n @ drop (k + length n) s"
proof (induction s arbitrary: k)
  case Nil
  then show ?case by (auto split: if_splits)
next
  case (Cons x xs)
  show ?case
  proof (cases "strip_prefix n (x # xs)")
    case None
    with Cons show ?thesis by auto
  next
    case (Some r)
    then have "x # xs = n @ r" by (simp add: strip_prefix_Some)
    with Some Cons.prems show ?thesis by (metis append_eq_conv_conj drop0 add_0 find_sub.simps(2)
          option.discI option.inject)
  qed
qed

lemma find_char_Some: "find_char c s = Some i \<Longrightarrow> i < length s \<and> s ! i = c \<and> c \<notin> set (take i s)"
proof (induction s arbitrary: i)
  case Nil
  then show ?case by simp
next
  case (Cons x xs)
  then show ?case by (cases "x = c") auto
qed

lemma find_char_None: "find_char c s = None \<longleftrightarrow> c \<notin> set s"
  by (induction s) auto

lemma find_char_append: "c \<notin> set p \<Longrightarrow> find_char c (p @ c # s) = Some (length p)"
  by (induction p) auto

lemma drop_find_char:
  "map_option (\<lambda>i. drop i s) (find_char c s) =
     (case dropWhile (\<lambda>x. x \<noteq> c) s of [] \<Rightarrow> None | y # ys \<Rightarrow> Some (y # ys))"
  by (induction s) (auto simp: option.map_comp comp_def)

text \<open>\<^verbatim>\<open>std::getline\<close> with a delimiter: every piece but an empty last one.\<close>

fun getlines :: "char \<Rightarrow> string \<Rightarrow> string \<Rightarrow> string list" where
  "getlines d acc [] = (if acc = [] then [] else [rev acc])"
| "getlines d acc (c # cs) =
     (if c = d then rev acc # getlines d [] cs else getlines d (c # acc) cs)"

definition split_lines :: "char \<Rightarrow> string \<Rightarrow> string list" where
  "split_lines d s = getlines d [] s"

lemma getlines_line:
  "d \<notin> set p \<Longrightarrow> getlines d acc (p @ d # s) = (rev acc @ p) # getlines d [] s"
  by (induction p arbitrary: acc) auto

lemma split_lines_line [simp]: "d \<notin> set p \<Longrightarrow> split_lines d (p @ d # s) = p # split_lines d s"
  by (simp add: split_lines_def getlines_line)

lemma split_lines_Nil [simp]: "split_lines d [] = []"
  by (simp add: split_lines_def)

section \<open>Reading integers\<close>

datatype num_error = InvalidArgument | OutOfRange

text \<open>
  The shared front of \<^verbatim>\<open>strtol\<close>, \<^verbatim>\<open>strtoll\<close> and \<^verbatim>\<open>strtoull\<close> in base 10: leading space, one
  optional sign, and the longest run of digits. \<open>None\<close> is "no conversion" (\<^verbatim>\<open>end == start\<close>).
\<close>

fun scan_sign :: "string \<Rightarrow> bool \<times> string" where
  "scan_sign (c # cs) =
     (if c = CHR ''-'' then (True, cs) else if c = CHR ''+'' then (False, cs) else (False, c # cs))"
| "scan_sign [] = (False, [])"

definition scan_int :: "string \<Rightarrow> (bool \<times> nat) option" where
  "scan_int s =
     (let (neg, r) = scan_sign (dropWhile is_space s); ds = takeWhile is_digit r
      in if ds = [] then None else Some (neg, dec_val ds))"

definition signed_val :: "bool \<times> nat \<Rightarrow> int" where
  "signed_val nv = (if fst nv then - int (snd nv) else int (snd nv))"

text \<open>\<^verbatim>\<open>strtoll\<close> saturates on overflow.\<close>

definition strtoll :: "string \<Rightarrow> int option" where
  "strtoll s = map_option (\<lambda>nv. max int64_min (min int64_max (signed_val nv))) (scan_int s)"

definition sto_range :: "int \<Rightarrow> int \<Rightarrow> string \<Rightarrow> num_error + int" where
  "sto_range lo hi s =
     (case scan_int s of
        None \<Rightarrow> Inl InvalidArgument
      | Some nv \<Rightarrow>
          if lo \<le> signed_val nv \<and> signed_val nv \<le> hi then Inr (signed_val nv) else Inl OutOfRange)"

definition stoi :: "string \<Rightarrow> num_error + int" where
  "stoi = sto_range int32_min int32_max"

definition stoll :: "string \<Rightarrow> num_error + int" where
  "stoll = sto_range int64_min int64_max"

text \<open>\<^verbatim>\<open>stoull\<close> bounds the magnitude and negates modulo \<open>2 ^ 64\<close> after a minus sign.\<close>

definition stoull :: "string \<Rightarrow> num_error + size_t" where
  "stoull s =
     (case scan_int s of
        None \<Rightarrow> Inl InvalidArgument
      | Some (neg, n) \<Rightarrow>
          if 18446744073709551615 < n then Inl OutOfRange
          else Inr (if neg then - of_nat n else of_nat n))"

text \<open>\<^verbatim>\<open>strtoull\<close> itself: 0 without digits, saturating, negating after a minus sign.\<close>

definition strtoull :: "string \<Rightarrow> size_t" where
  "strtoull s =
     (case scan_int s of
        None \<Rightarrow> 0
      | Some (neg, n) \<Rightarrow>
          if 18446744073709551615 < n then - 1
          else if neg then - of_nat n else of_nat n)"

lemma scan_int_nat_str: "r = [] \<or> \<not> is_digit (hd r) \<Longrightarrow> scan_int (nat_str n @ r) = Some (False, n)"
proof -
  assume r: "r = [] \<or> \<not> is_digit (hd r)"
  obtain c cs where n: "nat_str n = c # cs" by (cases "nat_str n") auto
  then have c: "is_digit c" using nat_str_digits [of n] by auto
  have "dropWhile is_space (nat_str n @ r) = nat_str n @ r"
    using n c digit_not_space by simp
  moreover have "scan_sign (nat_str n @ r) = (False, nat_str n @ r)"
    using n c by simp
  moreover have "takeWhile is_digit (nat_str n @ r) = nat_str n"
    using nat_str_digits r by (intro takeWhile_stop) auto
  ultimately show ?thesis by (simp add: scan_int_def)
qed

lemma scan_int_int_str:
  assumes "r = [] \<or> \<not> is_digit (hd r)"
  shows "map_option signed_val (scan_int (int_str i @ r)) = Some i"
proof (cases "0 \<le> i")
  case True
  with assms show ?thesis by (simp add: int_str_def scan_int_nat_str signed_val_def)
next
  case False
  have "takeWhile is_digit (nat_str m @ r) = nat_str m" for m
    using nat_str_digits assms by (intro takeWhile_stop) auto
  then have "scan_int (CHR ''-'' # nat_str m @ r) = Some (True, m)" for m
    by (simp add: scan_int_def is_space_def)
  with False show ?thesis by (simp add: int_str_def signed_val_def)
qed

lemma strtoll_int_str:
  assumes "in_int64 i" and "r = [] \<or> \<not> is_digit (hd r)"
  shows "strtoll (int_str i @ r) = Some i"
proof -
  obtain nv where "scan_int (int_str i @ r) = Some nv" and "signed_val nv = i"
    using scan_int_int_str [OF assms(2), of i] by auto
  with assms(1) show ?thesis by (simp add: strtoll_def in_int64_def)
qed

lemma sto_range_int_str: "lo \<le> i \<Longrightarrow> i \<le> hi \<Longrightarrow> sto_range lo hi (int_str i) = Inr i"
  using scan_int_int_str [of "[]" i] by (auto simp: sto_range_def)

lemma stoi_int_str: "in_int32 i \<Longrightarrow> stoi (int_str i) = Inr i"
  by (simp add: stoi_def in_int32_def sto_range_int_str)

lemma stoull_word_str [simp]: "stoull (word_str w) = Inr (w :: size_t)"
proof -
  have "unat w \<le> 18446744073709551615"
    using unsigned_less [of w, where 'a = nat] by simp
  then show ?thesis
    using scan_int_nat_str [of "[]" "unat w"] by (simp add: stoull_def word_str_def)
qed

lemma strtoull_word_str [simp]: "strtoull (word_str w) = w"
proof -
  have "unat w \<le> 18446744073709551615"
    using unsigned_less [of w, where 'a = nat] by simp
  then show ?thesis
    using scan_int_nat_str [of "[]" "unat w"] by (simp add: strtoull_def word_str_def)
qed

lemma strtoll_range: "strtoll s = Some i \<Longrightarrow> in_int64 i"
  by (auto simp: strtoll_def in_int64_def)

lemma stoi_range: "stoi s = Inr i \<Longrightarrow> in_int32 i"
  by (auto simp: stoi_def sto_range_def in_int32_def split: option.splits if_splits)

end
