(* ===== verification/Json_Text.thy ===== *)
theory Json_Text
  imports Text_Util
begin

text \<open>
  The JSON conventions of the C++ side. Every emitter builds its text by concatenation and escapes
  strings by hand; every parser runs a \<^verbatim>\<open>std::regex_search\<close> for one key. This theory models the
  shared escape function, the three shapes of regular expression the parsers use, and the facts that
  make a field survive the trip: an escaped string is one string literal, and a search for a key
  walks over literals that merely contain the key.
\<close>

section \<open>Escaping\<close>

definition json_escape_char :: "char \<Rightarrow> string" where
  "json_escape_char c =
     (if c = bslash then [bslash, bslash]
      else if c = dquote then [bslash, dquote]
      else if c = newline then [bslash, CHR ''n'']
      else if c = creturn then [bslash, CHR ''r'']
      else if c = htab then [bslash, CHR ''t'']
      else [c])"

definition json_escape :: "string \<Rightarrow> string" where
  "json_escape s = concat (map json_escape_char s)"

lemma json_escape_Nil [simp]: "json_escape [] = []"
  by (simp add: json_escape_def)

lemma json_escape_Cons [simp]: "json_escape (c # cs) = json_escape_char c @ json_escape cs"
  by (simp add: json_escape_def)

lemma json_escape_append: "json_escape (s @ t) = json_escape s @ json_escape t"
  by (simp add: json_escape_def)

text \<open>The text that escaping leaves alone.\<close>

definition needs_no_escape :: "string \<Rightarrow> bool" where
  "needs_no_escape s \<longleftrightarrow> list_all (\<lambda>c. c \<notin> {bslash, dquote, newline, creturn, htab}) s"

lemma length_json_escape: "length s \<le> length (json_escape s)"
  by (induction s) (auto simp: json_escape_char_def)

lemma json_escape_id_iff: "json_escape s = s \<longleftrightarrow> needs_no_escape s"
proof (induction s)
  case Nil
  then show ?case by (simp add: needs_no_escape_def)
next
  case (Cons c cs)
  show ?case
  proof (cases "json_escape_char c = [c]")
    case True
    then show ?thesis using Cons by (auto simp: json_escape_char_def needs_no_escape_def split: if_splits)
  next
    case False
    then have "length (json_escape_char c) = 2" and "\<not> needs_no_escape (c # cs)"
      by (auto simp: json_escape_char_def needs_no_escape_def split: if_splits)
    then have "length (json_escape (c # cs)) \<noteq> length (c # cs)"
      using length_json_escape [of cs] by simp
    with \<open>\<not> needs_no_escape (c # cs)\<close> show ?thesis by metis
  qed
qed

section \<open>String literals: the regular expression \<^verbatim>\<open>"((?:\\.|[^"\\])*)"\<close>\<close>

text \<open>
  In the ECMAScript grammar of \<^verbatim>\<open>std::regex\<close> a dot matches any byte but a line terminator. The two
  alternatives start with different bytes, so a literal body has one parse and the greedy match
  needs no backtracking; \<open>match_body_iff\<close> below says so.
\<close>

fun str_body :: "string \<Rightarrow> bool" where
  "str_body [] = True"
| "str_body (c # cs) =
     (if c = bslash
      then (case cs of [] \<Rightarrow> False | d # ds \<Rightarrow> d \<noteq> newline \<and> d \<noteq> creturn \<and> str_body ds)
      else c \<noteq> dquote \<and> str_body cs)"

fun match_body :: "string \<Rightarrow> (string \<times> string) option" where
  "match_body [] = None"
| "match_body (c # cs) =
     (if c = dquote then Some ([], cs)
      else if c = bslash
      then (case cs of
              [] \<Rightarrow> None
            | d # ds \<Rightarrow>
                if d = newline \<or> d = creturn then None
                else map_option (\<lambda>(b, r). (c # d # b, r)) (match_body ds))
      else map_option (\<lambda>(b, r). (c # b, r)) (match_body cs))"

lemma str_body_append: "str_body s \<Longrightarrow> str_body t \<Longrightarrow> str_body (s @ t)"
proof (induction s rule: str_body.induct)
  case (2 c cs)
  then show ?case by (cases cs) (simp_all split: if_splits)
qed simp

lemma str_body_json_escape [simp, intro]: "str_body (json_escape s)"
  by (induction s) (auto simp: json_escape_char_def)

lemma match_body_complete: "str_body b \<Longrightarrow> match_body (b @ dquote # r) = Some (b, r)"
proof (induction b rule: str_body.induct)
  case (2 c cs)
  then show ?case by (cases cs) (simp_all split: if_splits)
qed simp

lemma match_body_sound: "match_body s = Some (b, r) \<Longrightarrow> s = b @ dquote # r \<and> str_body b"
proof (induction s arbitrary: b rule: match_body.induct)
  case (2 c cs)
  then show ?case by (cases cs) (auto split: if_splits)
qed simp

lemma match_body_iff: "match_body s = Some (b, r) \<longleftrightarrow> s = b @ dquote # r \<and> str_body b"
  using match_body_complete match_body_sound by blast

section \<open>Searching for a key: \<^verbatim>\<open>"key"\s*:\s*value\<close>\<close>

text \<open>\<^verbatim>\<open>regex_search\<close> reports the match that starts leftmost.\<close>

fun re_search :: "(string \<Rightarrow> 'a option) \<Rightarrow> string \<Rightarrow> 'a option" where
  "re_search m [] = m []"
| "re_search m (c # cs) = (case m (c # cs) of Some v \<Rightarrow> Some v | None \<Rightarrow> re_search m cs)"

declare re_search.simps(2) [simp del]

definition match_key :: "string \<Rightarrow> string \<Rightarrow> string option" where
  "match_key key s =
     (case strip_prefix (dquote # key @ [dquote]) s of
        None \<Rightarrow> None
      | Some r \<Rightarrow>
          (case dropWhile is_space r of
             [] \<Rightarrow> None
           | c # r' \<Rightarrow> if c = CHR '':'' then Some (dropWhile is_space r') else None))"

definition match_field :: "string \<Rightarrow> (string \<Rightarrow> 'a option) \<Rightarrow> string \<Rightarrow> 'a option" where
  "match_field key val s = (case match_key key s of None \<Rightarrow> None | Some r \<Rightarrow> val r)"

definition val_string :: "string \<Rightarrow> string option" where
  "val_string s =
     (case s of [] \<Rightarrow> None | c # r \<Rightarrow> if c = dquote then map_option fst (match_body r) else None)"

definition val_digits :: "string \<Rightarrow> string option" where
  "val_digits s = (let ds = takeWhile is_digit s in if ds = [] then None else Some ds)"

text \<open>The match of \<^verbatim>\<open>-?[0-9]+\<close>.\<close>

definition val_int_text :: "string \<Rightarrow> string option" where
  "val_int_text s =
     (case s of
        [] \<Rightarrow> None
      | c # r \<Rightarrow> if c = CHR ''-'' then map_option ((#) c) (val_digits r) else val_digits (c # r))"

definition val_bool :: "string \<Rightarrow> bool option" where
  "val_bool s =
     (if starts_with ''true'' s then Some True
      else if starts_with ''false'' s then Some False else None)"

text \<open>The four extractors, before any unescaping.\<close>

definition find_string :: "string \<Rightarrow> string \<Rightarrow> string option" where
  "find_string key json = re_search (match_field key val_string) json"

definition find_digits :: "string \<Rightarrow> string \<Rightarrow> string option" where
  "find_digits key json = re_search (match_field key val_digits) json"

definition find_int_text :: "string \<Rightarrow> string \<Rightarrow> string option" where
  "find_int_text key json = re_search (match_field key val_int_text) json"

definition find_bool :: "string \<Rightarrow> string \<Rightarrow> bool option" where
  "find_bool key json = re_search (match_field key val_bool) json"

lemmas find_defs = find_string_def find_digits_def find_int_text_def find_bool_def

subsection \<open>Walking over text that holds no key\<close>

lemma re_search_hit: "m (c # cs) = Some v \<Longrightarrow> re_search m (c # cs) = Some v"
  by (simp add: re_search.simps)

lemma re_search_miss: "m (c # cs) = None \<Longrightarrow> re_search m (c # cs) = re_search m cs"
  by (simp add: re_search.simps)

lemma match_field_no_quote [simp]: "c \<noteq> dquote \<Longrightarrow> match_field key v (c # cs) = None"
  by (simp add: match_field_def match_key_def)

lemma match_field_Nil [simp]: "match_field key v [] = None"
  by (simp add: match_field_def match_key_def)

lemma re_search_no_quote [simp]:
  "c \<noteq> dquote \<Longrightarrow> re_search (match_field key v) (c # cs) = re_search (match_field key v) cs"
  by (simp add: re_search_miss)

lemma re_search_plain:
  "dquote \<notin> set p \<Longrightarrow> re_search (match_field key v) (p @ s) = re_search (match_field key v) s"
  by (induction p) auto

lemma re_search_nat_str [simp]:
  "re_search (match_field key v) (nat_str n @ s) = re_search (match_field key v) s"
  using nat_str_digits [of n] digit_neq(1) by (intro re_search_plain) blast

lemma re_search_word_str [simp]:
  "re_search (match_field key v) (word_str w @ s) = re_search (match_field key v) s"
  by (simp add: word_str_def)

lemma re_search_int_str [simp]:
  "re_search (match_field key v) (int_str i @ s) = re_search (match_field key v) s"
  by (simp add: int_str_def)

text \<open>
  A key is a plain word; what follows the literal does not start with the key nor, after space,
  with a colon.
\<close>

definition plain_key :: "string \<Rightarrow> bool" where
  "plain_key key \<longleftrightarrow> key \<noteq> [] \<and> dquote \<notin> set key \<and> bslash \<notin> set key"

lemma plain_key_body: "plain_key key \<Longrightarrow> str_body key"
  unfolding plain_key_def
proof (elim conjE)
  assume "dquote \<notin> set key" "bslash \<notin> set key"
  then show "str_body key" by (induction key) auto
qed

definition closes_value :: "string \<Rightarrow> string \<Rightarrow> bool" where
  "closes_value key r \<longleftrightarrow>
     (case r of [] \<Rightarrow> True
      | c # _ \<Rightarrow> \<not> is_space c \<and> c \<noteq> CHR '':'' \<and> c \<noteq> dquote \<and> c \<noteq> hd key)"

lemma match_key_at_quote:
  assumes "plain_key key" and "str_body b" and "closes_value key r"
  shows "match_field key v (dquote # b @ dquote # r) = None"
proof (rule ccontr)
  assume "match_field key v (dquote # b @ dquote # r) \<noteq> None"
  then obtain r' where r': "b @ dquote # r = key @ dquote # r'"
    and nx: "match_key key (dquote # b @ dquote # r) \<noteq> None"
    by (auto simp: match_field_def match_key_def strip_prefix_Some split: option.splits)
  have "str_body key" using assms(1) by (rule plain_key_body)
  then have "match_body (b @ dquote # r) = Some (key, r')"
    using r' match_body_complete by simp
  then have "b = key" "r = r'"
    using match_body_complete [OF assms(2), of r] by simp_all
  with nx assms(3) show False
    by (auto simp: match_key_def closes_value_def strip_prefix_Some split: option.splits list.splits)
qed

lemma match_key_after_close:
  assumes "plain_key key" and "closes_value key r"
  shows "match_field key v (dquote # r) = None"
proof -
  have "strip_prefix (key @ [dquote]) r = None"
    using assms by (cases key; cases r) (auto simp: plain_key_def closes_value_def)
  then show ?thesis by (simp add: match_field_def match_key_def)
qed

text \<open>Inside a literal the only quotes are escaped ones, and none of them opens the key.\<close>

lemma re_search_body:
  assumes "plain_key key" and "closes_value key r" and "str_body b"
  shows "re_search (match_field key v) (b @ dquote # r) = re_search (match_field key v) r"
  using assms(3)
proof (induction b rule: str_body.induct)
  case 1
  then show ?case using assms by (simp add: re_search_miss match_key_after_close)
next
  case (2 c cs)
  show ?case
  proof (cases "c = bslash")
    case False
    with 2 show ?thesis by simp
  next
    case True
    with 2(3) obtain d ds where cs: "cs = d # ds" "str_body ds" by (auto split: list.splits)
    with 2(1) True have "re_search (match_field key v) (ds @ dquote # r) =
        re_search (match_field key v) r" using 2(3) by auto
    moreover have "match_field key v (d # ds @ dquote # r) = None"
      using match_key_at_quote [OF assms(1) cs(2) assms(2)] by (cases "d = dquote") auto
    ultimately show ?thesis using True cs by (simp add: re_search_miss)
  qed
qed

lemma re_search_literal:
  assumes "plain_key key" and "closes_value key r" and "str_body b"
  shows "re_search (match_field key v) (dquote # b @ dquote # r) = re_search (match_field key v) r"
  using assms by (simp add: re_search_miss match_key_at_quote re_search_body)

text \<open>A quote that opens another key.\<close>

lemma re_search_other_key:
  "strip_prefix (key @ [dquote]) cs = None \<Longrightarrow>
   re_search (match_field key v) (dquote # cs) = re_search (match_field key v) cs"
  by (simp add: re_search_miss match_field_def match_key_def)

text \<open>The same walk for a plain \<^verbatim>\<open>find\<close> of a quoted word: it can only end at the literal's end.\<close>

lemma after_sub_body:
  assumes "plain_key key" and "str_body b" and "closes_value key r"
  shows "after_sub (dquote # key @ [dquote]) (b @ dquote # r) \<in>
           {Some r, after_sub (dquote # key @ [dquote]) r}"
  using assms(2)
proof (induction b rule: str_body.induct)
  case 1
  have "strip_prefix (key @ [dquote]) r = None"
    using assms by (cases key; cases r) (auto simp: plain_key_def closes_value_def)
  then show ?case by simp
next
  case (2 c cs)
  show ?case
  proof (cases "c = bslash")
    case False
    with 2(3) have "dquote \<noteq> c" by auto
    with False 2 show ?thesis by simp
  next
    case True
    with 2(3) obtain d ds where cs: "cs = d # ds" "str_body ds" by (auto split: list.splits)
    have IH: "after_sub (dquote # key @ [dquote]) (ds @ dquote # r) \<in>
        {Some r, after_sub (dquote # key @ [dquote]) r}"
      using 2 True cs by simp
    have "r' = r" if "ds @ dquote # r = key @ dquote # r'" for r'
    proof -
      have "str_body key" using assms(1) by (rule plain_key_body)
      with that match_body_complete [of key r'] match_body_complete [OF cs(2), of r]
      show ?thesis by simp
    qed
    then show ?thesis using IH True cs
      by (auto simp: strip_prefix_Some split: option.split)
  qed
qed

lemma after_sub_literal:
  assumes "plain_key key" and "str_body b" and "closes_value key r"
  shows "after_sub (dquote # key @ [dquote]) (dquote # b @ dquote # r) \<in>
           {Some r, after_sub (dquote # key @ [dquote]) r}"
proof -
  have "r' = r" if "b @ dquote # r = key @ dquote # r'" for r'
  proof -
    from plain_key_body [OF assms(1)] that match_body_complete [of key r']
      match_body_complete [OF assms(2), of r]
    show ?thesis by simp
  qed
  then show ?thesis using after_sub_body [OF assms]
    by (auto simp: strip_prefix_Some split: option.split)
qed

text \<open>Hitting the field itself.\<close>

lemma match_key_here:
  "\<not> is_space c \<Longrightarrow> match_key key (dquote # key @ dquote # CHR '':'' # c # r) = Some (c # r)"
proof -
  assume "\<not> is_space c"
  moreover have "strip_prefix (dquote # key @ [dquote]) (dquote # key @ dquote # CHR '':'' # c # r)
      = Some (CHR '':'' # c # r)"
    by (simp add: strip_prefix_Some)
  ultimately show ?thesis by (simp add: match_key_def is_space_def)
qed

lemma find_string_here:
  "str_body b \<Longrightarrow>
   re_search (match_field key val_string) (dquote # key @ dquote # CHR '':'' # dquote # b @ dquote # r)
     = Some b"
  by (rule re_search_hit)
     (simp add: match_field_def match_key_here is_space_def val_string_def match_body_complete)

lemma find_digits_here:
  assumes "r = [] \<or> \<not> is_digit (hd r)"
  shows "re_search (match_field key val_digits) (dquote # key @ dquote # CHR '':'' # nat_str n @ r)
     = Some (nat_str n)"
proof -
  obtain c cs where n: "nat_str n = c # cs" by (cases "nat_str n") auto
  then have c: "is_digit c" using nat_str_digits [of n] by auto
  have "takeWhile is_digit (nat_str n @ r) = nat_str n"
    using nat_str_digits assms by (intro takeWhile_stop) auto
  moreover have "\<not> is_space c" using digit_not_space [OF c] .
  ultimately show ?thesis using n
    by (intro re_search_hit) (simp add: match_field_def match_key_here val_digits_def)
qed

lemma find_bool_here:
  "re_search (match_field key val_bool) (dquote # key @ dquote # CHR '':'' # ''true'' @ r) = Some True"
  "re_search (match_field key val_bool) (dquote # key @ dquote # CHR '':'' # ''false'' @ r) = Some False"
  by (rule re_search_hit,
      simp add: match_field_def match_key_here is_space_def val_bool_def starts_with_def)+

section \<open>The contract of a string codec\<close>

text \<open>
  What a writer and a reader of string fields rely on: the escape yields one literal body, and the
  reader's unescape undoes it. The worker and the remote transport each bring their own pair.
\<close>

locale string_codec =
  fixes esc :: "string \<Rightarrow> string" and unesc :: "string \<Rightarrow> string"
  assumes esc_body: "str_body (esc s)"
    and unesc_esc: "unesc (esc s) = s"
begin

lemma esc_inj: "esc s = esc t \<Longrightarrow> s = t"
  by (metis unesc_esc)

lemma field_roundtrip:
  "map_option unesc (re_search (match_field key val_string)
     (dquote # key @ dquote # CHR '':'' # dquote # esc s @ dquote # r)) = Some s"
  by (simp add: find_string_here [OF esc_body] unesc_esc)

lemma skip_field:
  "plain_key key \<Longrightarrow> closes_value key r \<Longrightarrow>
   re_search (match_field key v) (dquote # esc s @ dquote # r) = re_search (match_field key v) r"
  by (rule re_search_literal [OF _ _ esc_body])

end

end
