(* ===== verification/Hardware_Report.thy ===== *)
theory Hardware_Report
  imports Json_Text
begin

text \<open>
  \<^verbatim>\<open>backend/hardware/hardwareReport.{h,cpp}\<close>: what a hardware probe found, how it travels from the
  probe child to the supervisor as one line of JSON, and how \<^verbatim>\<open>/proc/meminfo\<close> is read. The main facts
  are the round trip of a report up to the escaping of its strings, and that a parse is
  all-or-nothing.
\<close>

section \<open>Data\<close>

record GpuDevice =
  gpu_name :: string
  gpu_description :: string
  gpu_freeBytes :: size_t
  gpu_totalBytes :: size_t

record HostMemory =
  mem_totalBytes :: size_t
  mem_availableBytes :: size_t

record HardwareReport =
  rep_gpus :: "GpuDevice list"
  rep_ram :: HostMemory
  rep_note :: string
  rep_probeOk :: bool

definition emptyMemory :: HostMemory where
  "emptyMemory = \<lparr>mem_totalBytes = 0, mem_availableBytes = 0\<rparr>"

definition emptyReport :: HardwareReport where
  "emptyReport = \<lparr>rep_gpus = [], rep_ram = emptyMemory, rep_note = [], rep_probeOk = False\<rparr>"

definition emptyGpu :: GpuDevice where
  "emptyGpu = \<lparr>gpu_name = [], gpu_description = [], gpu_freeBytes = 0, gpu_totalBytes = 0\<rparr>"

section \<open>Text helpers of the file\<close>

definition hwEscapeChar :: "char \<Rightarrow> string" where
  "hwEscapeChar ch =
     (if ch = bslash then [bslash, bslash]
      else if ch = dquote then [bslash, dquote]
      else if ch = newline then [bslash, CHR ''n'']
      else if ch = creturn then [bslash, CHR ''r'']
      else if ch = htab then [bslash, CHR ''t'']
      else [ch])"

definition hwJsonEscape :: "string \<Rightarrow> string" where
  "hwJsonEscape input = concat (map hwEscapeChar input)"

lemma hwJsonEscape_eq [simp]: "hwJsonEscape = json_escape"
proof -
  have "hwEscapeChar = json_escape_char"
    by (rule ext) (simp add: hwEscapeChar_def json_escape_char_def)
  then show ?thesis by (intro ext) (simp add: hwJsonEscape_def json_escape_def)
qed

text \<open>The raw bytes between the quotes are returned: nothing undoes the escaping.\<close>

definition hwExtractString :: "string \<Rightarrow> string \<Rightarrow> string option" where
  "hwExtractString json key = find_string key json"

definition hwExtractUnsigned :: "string \<Rightarrow> string \<Rightarrow> size_t option" where
  "hwExtractUnsigned json key =
     (case find_digits key json of
        None \<Rightarrow> None
      | Some ds \<Rightarrow> (case stoull ds of Inl e \<Rightarrow> None | Inr n \<Rightarrow> Some n))"

definition hwExtractBool :: "string \<Rightarrow> string \<Rightarrow> bool option" where
  "hwExtractBool json key = find_bool key json"

text \<open>
  The two scanning loops. \<open>acc\<close> is the text since \<^verbatim>\<open>start\<close> (or \<^verbatim>\<open>open\<close>), reversed, so that
  \<open>rev acc\<close> is the \<^verbatim>\<open>substr\<close> the code takes; the extra \<^verbatim>\<open>++i\<close> after a backslash consumes two bytes.
\<close>

fun splitObjectsFrom :: "string \<Rightarrow> int \<Rightarrow> bool \<Rightarrow> string \<Rightarrow> string list" where
  "splitObjectsFrom [] depth inString acc = []"
| "splitObjectsFrom (ch # cs) depth inString acc =
     (if inString then
        (if ch = bslash then
           (case cs of [] \<Rightarrow> [] | e # es \<Rightarrow> splitObjectsFrom es depth True (e # ch # acc))
         else if ch = dquote then splitObjectsFrom cs depth False (ch # acc)
         else splitObjectsFrom cs depth True (ch # acc))
      else if ch = dquote then splitObjectsFrom cs depth True (ch # acc)
      else if ch = CHR ''{'' then
        splitObjectsFrom cs (depth + 1) False (if depth = 0 then [ch] else ch # acc)
      else if ch = CHR ''}'' then
        (if depth - 1 = 0 then rev (ch # acc) # splitObjectsFrom cs (depth - 1) False (ch # acc)
         else splitObjectsFrom cs (depth - 1) False (ch # acc))
      else splitObjectsFrom cs depth False (ch # acc))"

definition splitObjects :: "string \<Rightarrow> string list" where
  "splitObjects array = splitObjectsFrom array 0 False []"

fun sliceFrom :: "string \<Rightarrow> int \<Rightarrow> bool \<Rightarrow> string \<Rightarrow> string option" where
  "sliceFrom [] depth inString acc = None"
| "sliceFrom (ch # cs) depth inString acc =
     (if inString then
        (if ch = bslash then
           (case cs of [] \<Rightarrow> None | e # es \<Rightarrow> sliceFrom es depth True (e # ch # acc))
         else if ch = dquote then sliceFrom cs depth False (ch # acc)
         else sliceFrom cs depth True (ch # acc))
      else if ch = dquote then sliceFrom cs depth True (ch # acc)
      else if ch = CHR ''['' then sliceFrom cs (depth + 1) False (ch # acc)
      else if ch = CHR '']'' then
        (if depth - 1 = 0 then Some (rev (ch # acc)) else sliceFrom cs (depth - 1) False (ch # acc))
      else sliceFrom cs depth False (ch # acc))"

definition sliceGpuArray :: "string \<Rightarrow> string option" where
  \<open>sliceGpuArray json =
     (case find_sub ''"gpus"'' json of
        None \<Rightarrow> None
      | Some keyAt \<Rightarrow>
          (case find_char (CHR ''['') (drop keyAt json) of
             None \<Rightarrow> None
           | Some off \<Rightarrow> sliceFrom (drop (keyAt + off) json) 0 False []))\<close>

section \<open>Bytes and megabytes\<close>

definition mbToBytes :: "int \<Rightarrow> size_t" where
  "mbToBytes mb = (if mb \<le> 0 then 0 else word_of_int mb * 1024 * 1024)"

definition bytesToMb :: "size_t \<Rightarrow> int" where
  "bytesToMb bytes = uint (bytes div 1048576)"

lemma bytesToMb_bounds: "0 \<le> bytesToMb b \<and> bytesToMb b \<le> 17592186044415"
proof -
  have "uint b < 2 ^ 64" using unsigned_less [of b, where 'a = int] by simp
  then have "uint b div 1048576 \<le> 17592186044415" by simp
  moreover have "0 \<le> uint b div 1048576" by (simp add: pos_imp_zdiv_nonneg_iff)
  ultimately show ?thesis by (simp add: bytesToMb_def uint_div_distrib)
qed

lemma bytesToMb_uint: "bytesToMb b = uint b div 1048576"
  by (simp add: bytesToMb_def uint_div_distrib)

lemma bytesToMb_mono: "b \<le> c \<Longrightarrow> bytesToMb b \<le> bytesToMb c"
  by (simp add: bytesToMb_uint word_le_def zdiv_mono1)

section \<open>Printing and parsing a report\<close>

definition gpuToJson :: "GpuDevice \<Rightarrow> string" where
  \<open>gpuToJson gpu =
     ''{"name":"'' @ hwJsonEscape (gpu_name gpu) @ ''","description":"'' @
     hwJsonEscape (gpu_description gpu) @ ''","freeBytes":'' @ word_str (gpu_freeBytes gpu) @
     '',"totalBytes":'' @ word_str (gpu_totalBytes gpu) @ ''}''\<close>

text \<open>The comma goes before every element but the first.\<close>

fun commaJoin :: "string list \<Rightarrow> string" where
  "commaJoin [] = []"
| "commaJoin [x] = x"
| "commaJoin (x # y # ys) = x @ '','' @ commaJoin (y # ys)"

definition hardwareReportToJson :: "HardwareReport \<Rightarrow> string" where
  \<open>hardwareReportToJson report =
     ''{"probeOk":'' @ (if rep_probeOk report then ''true'' else ''false'') @
     '',"note":"'' @ hwJsonEscape (rep_note report) @ ''","ramTotalBytes":'' @
     word_str (mem_totalBytes (rep_ram report)) @ '',"ramAvailableBytes":'' @
     word_str (mem_availableBytes (rep_ram report)) @ '',"gpus":['' @
     commaJoin (map gpuToJson (rep_gpus report)) @ '']}''\<close>

definition orDefault :: "'a \<Rightarrow> 'a option \<Rightarrow> 'a" where
  "orDefault d x = (case x of None \<Rightarrow> d | Some y \<Rightarrow> y)"

definition parseGpu :: "string \<Rightarrow> GpuDevice option" where
  "parseGpu object =
     (case hwExtractUnsigned object ''freeBytes'' of
        None \<Rightarrow> None
      | Some free \<Rightarrow>
          (case hwExtractUnsigned object ''totalBytes'' of
             None \<Rightarrow> None
           | Some whole \<Rightarrow>
               Some \<lparr>gpu_name = orDefault [] (hwExtractString object ''name''),
                     gpu_description = orDefault [] (hwExtractString object ''description''),
                     gpu_freeBytes = free, gpu_totalBytes = whole\<rparr>))"

fun parseGpus :: "string list \<Rightarrow> GpuDevice list option" where
  "parseGpus [] = Some []"
| "parseGpus (obj # objs) =
     (case parseGpu obj of None \<Rightarrow> None | Some g \<Rightarrow> map_option ((#) g) (parseGpus objs))"

definition parseHardwareReport :: "string \<Rightarrow> HardwareReport option" where
  "parseHardwareReport json =
     (case hwExtractBool json ''probeOk'' of
        None \<Rightarrow> None
      | Some ok \<Rightarrow>
          (case sliceGpuArray json of
             None \<Rightarrow> None
           | Some gpuArray \<Rightarrow>
               (case parseGpus (splitObjects gpuArray) of
                  None \<Rightarrow> None
                | Some gs \<Rightarrow>
                    Some \<lparr>rep_gpus = gs,
                          rep_ram = \<lparr>mem_totalBytes = orDefault 0 (hwExtractUnsigned json ''ramTotalBytes''),
                                 mem_availableBytes = orDefault 0 (hwExtractUnsigned json ''ramAvailableBytes'')\<rparr>,
                          rep_note = orDefault [] (hwExtractString json ''note''),
                          rep_probeOk = ok\<rparr>)))"

section \<open>Host memory\<close>

text \<open>
  One match of \<^verbatim>\<open>^(MemTotal|MemAvailable):\s+([0-9]+)\s+kB\<close> on a line: which key (\<open>True\<close> is
  \<^verbatim>\<open>MemTotal\<close>) and the digits.
\<close>

definition matchMemField :: "string \<Rightarrow> string option" where
  "matchMemField r =
     (let r1 = dropWhile is_space r; ds = takeWhile is_digit r1; r2 = dropWhile is_digit r1
      in if r = r1 \<or> ds = [] \<or> dropWhile is_space r2 = r2 \<or>
            \<not> starts_with ''kB'' (dropWhile is_space r2) then None else Some ds)"

definition matchMeminfoLine :: "string \<Rightarrow> (bool \<times> string) option" where
  "matchMeminfoLine line =
     (case strip_prefix ''MemTotal:'' line of
        Some r \<Rightarrow> map_option (Pair True) (matchMemField r)
      | None \<Rightarrow>
          (case strip_prefix ''MemAvailable:'' line of
             Some r \<Rightarrow> map_option (Pair False) (matchMemField r)
           | None \<Rightarrow> None))"

definition readMeminfoLine :: "string \<Rightarrow> HostMemory \<Rightarrow> HostMemory" where
  "readMeminfoLine line memory =
     (case matchMeminfoLine line of
        None \<Rightarrow> memory
      | Some (isTotal, ds) \<Rightarrow>
          (case stoull ds of
             Inl e \<Rightarrow> memory
           | Inr kb \<Rightarrow>
               (if isTotal then memory\<lparr>mem_totalBytes := kb * 1024\<rparr>
                else memory\<lparr>mem_availableBytes := kb * 1024\<rparr>)))"

text \<open>\<open>None\<close> is a file that does not open.\<close>

definition readHostMemory :: "string option \<Rightarrow> HostMemory" where
  "readHostMemory contents =
     (case contents of
        None \<Rightarrow> emptyMemory
      | Some text \<Rightarrow> fold readMeminfoLine (split_lines newline text) emptyMemory)"

section \<open>The round trip\<close>

lemma sliceFrom_body:
  "str_body b \<Longrightarrow> sliceFrom (b @ dquote # r) d True acc = sliceFrom r d False (dquote # rev b @ acc)"
proof (induction b arbitrary: acc rule: str_body.induct)
  case (2 c cs)
  then show ?case by (cases cs) (simp_all split: if_splits)
qed simp

lemma splitObjectsFrom_body:
  "str_body b \<Longrightarrow>
   splitObjectsFrom (b @ dquote # r) d True acc = splitObjectsFrom r d False (dquote # rev b @ acc)"
proof (induction b arbitrary: acc rule: str_body.induct)
  case (2 c cs)
  then show ?case by (cases cs) (simp_all split: if_splits)
qed simp

lemma scan_word_str:
  "sliceFrom (word_str w @ r) d False acc = sliceFrom r d False (rev (word_str w) @ acc)"
  "splitObjectsFrom (word_str w @ r) d False acc = splitObjectsFrom r d False (rev (word_str w) @ acc)"
proof -
  have digits: "\<forall>c \<in> set p. is_digit c \<Longrightarrow>
      sliceFrom (p @ r) d False acc = sliceFrom r d False (rev p @ acc) \<and>
      splitObjectsFrom (p @ r) d False acc = splitObjectsFrom r d False (rev p @ acc)" for p
    by (induction p arbitrary: acc) (auto simp: is_digit_def)
  show "sliceFrom (word_str w @ r) d False acc = sliceFrom r d False (rev (word_str w) @ acc)"
    "splitObjectsFrom (word_str w @ r) d False acc = splitObjectsFrom r d False (rev (word_str w) @ acc)"
    using digits nat_str_digits by (simp_all add: word_str_def)
qed

lemma sliceFrom_gpu:
  "sliceFrom (gpuToJson g @ r) d False acc = sliceFrom r d False (rev (gpuToJson g) @ acc)"
  by (simp add: gpuToJson_def sliceFrom_body scan_word_str)

lemma splitObjectsFrom_gpu:
  "splitObjectsFrom (gpuToJson g @ r) 0 False acc =
     gpuToJson g # splitObjectsFrom r 0 False (rev (gpuToJson g))"
  by (simp add: gpuToJson_def splitObjectsFrom_body scan_word_str)

lemma sliceFrom_gpus:
  "sliceFrom (commaJoin (map gpuToJson gs) @ r) d False acc =
     sliceFrom r d False (rev (commaJoin (map gpuToJson gs)) @ acc)"
  by (induction gs arbitrary: acc rule: induct_list012) (simp_all add: sliceFrom_gpu)

lemma splitObjectsFrom_gpus:
  "splitObjectsFrom (commaJoin (map gpuToJson gs) @ '']'') 0 False acc = map gpuToJson gs"
  by (induction gs arbitrary: acc rule: induct_list012) (simp_all add: splitObjectsFrom_gpu)

lemma splitObjects_gpus: "splitObjects (''['' @ commaJoin (map gpuToJson gs) @ '']'') = map gpuToJson gs"
  by (simp add: splitObjects_def splitObjectsFrom_gpus)

text \<open>What a parse returns for a device: its strings still escaped.\<close>

definition escapedGpu :: "GpuDevice \<Rightarrow> GpuDevice" where
  "escapedGpu g = g\<lparr>gpu_name := json_escape (gpu_name g),
                    gpu_description := json_escape (gpu_description g)\<rparr>"

definition escapedReport :: "HardwareReport \<Rightarrow> HardwareReport" where
  "escapedReport r = r\<lparr>rep_gpus := map escapedGpu (rep_gpus r), rep_note := json_escape (rep_note r)\<rparr>"

lemmas field_walk =
  find_defs re_search_other_key re_search_literal plain_key_def closes_value_def is_space_def
  find_string_here find_bool_here

lemma parseGpu_toJson: "parseGpu (gpuToJson g) = Some (escapedGpu g)"
proof -
  have "find_string ''name'' (gpuToJson g) = Some (json_escape (gpu_name g))"
    using find_string_here [of "json_escape (gpu_name g)" "''name''"]
    by (simp add: gpuToJson_def find_defs)
  moreover have "find_string ''description'' (gpuToJson g) = Some (json_escape (gpu_description g))"
    using find_string_here [of "json_escape (gpu_description g)" "''description''"]
    by (simp add: gpuToJson_def field_walk)
  moreover have "find_digits ''freeBytes'' (gpuToJson g) = Some (word_str (gpu_freeBytes g))"
    using find_digits_here [of "CHR '','' # r" "''freeBytes''" "unat (gpu_freeBytes g)" for r]
    by (simp add: gpuToJson_def field_walk word_str_def is_digit_def)
  moreover have "find_digits ''totalBytes'' (gpuToJson g) = Some (word_str (gpu_totalBytes g))"
    using find_digits_here [of "''}''" "''totalBytes''" "unat (gpu_totalBytes g)"]
    by (simp add: gpuToJson_def field_walk word_str_def is_digit_def)
  ultimately show ?thesis
    by (simp add: parseGpu_def hwExtractUnsigned_def hwExtractString_def orDefault_def escapedGpu_def)
qed

lemma parseGpus_toJson: "parseGpus (map gpuToJson gs) = Some (map escapedGpu gs)"
  by (induction gs) (simp_all add: parseGpu_toJson)

text \<open>
  The note may itself read \<^verbatim>\<open>gpus\<close>, so the first hit of the \<^verbatim>\<open>find\<close> may be the note's value rather than
  the key; either way the next bracket is the array's.
\<close>

lemma sliceGpuArray_alt:
  "sliceGpuArray json =
     (case after_sub (dquote # ''gpus'' @ [dquote]) json of
        None \<Rightarrow> None
      | Some r \<Rightarrow>
          (case dropWhile (\<lambda>x. x \<noteq> CHR ''['') r of [] \<Rightarrow> None | y # ys \<Rightarrow> sliceFrom (y # ys) 0 False []))"
proof (cases "find_sub (dquote # ''gpus'' @ [dquote]) json")
  case None
  then show ?thesis by (simp add: sliceGpuArray_def after_sub_find_sub)
next
  case (Some k)
  let ?r = "drop (k + 6) json"
  have k6: "k + length (dquote # ''gpus'' @ [dquote]) = k + 6" by simp
  have after: "after_sub (dquote # ''gpus'' @ [dquote]) json = Some ?r"
    unfolding after_sub_find_sub Some k6 option.map(2) ..
  from k6 have "drop k json = dquote # ''gpus'' @ dquote # ?r"
    using find_sub_at [OF Some] by (metis append_Cons append_Nil append_assoc)
  then have fc: "find_char (CHR ''['') (drop k json) = map_option (\<lambda>i. i + 6) (find_char (CHR ''['') ?r)"
    by (cases "find_char (CHR ''['') ?r") simp_all
  have slice: "sliceGpuArray json =
      (case find_char (CHR ''['') (drop k json) of
         None \<Rightarrow> None | Some off \<Rightarrow> sliceFrom (drop (k + off) json) 0 False [])"
    using Some by (simp add: sliceGpuArray_def)
  note dfc = drop_find_char [of ?r "CHR ''[''"]
  show ?thesis
  proof (cases "find_char (CHR ''['') ?r")
    case None
    with dfc have "dropWhile (\<lambda>x. x \<noteq> CHR ''['') ?r = []" by (simp split: list.splits)
    with None fc slice after show ?thesis by (simp only: option.simps list.simps)
  next
    case (Some i)
    with dfc obtain y ys where d: "dropWhile (\<lambda>x. x \<noteq> CHR ''['') ?r = y # ys" "drop i ?r = y # ys"
      by (auto split: list.splits)
    have "drop (k + (i + 6)) json = y # ys" using d(2) by (simp add: ac_simps)
    with Some fc slice after d(1) show ?thesis by (simp only: option.simps list.simps)
  qed
qed

lemma sliceGpuArray_toJson:
  "sliceGpuArray (hardwareReportToJson r @ s) =
     Some (''['' @ commaJoin (map gpuToJson (rep_gpus r)) @ '']'')"
proof -
  let ?arr = "''['' @ commaJoin (map gpuToJson (rep_gpus r)) @ '']}'' @ s"
  let ?q = "dquote # ''gpus'' @ [dquote]"
  let ?tail = \<open>'',"ramTotalBytes":'' @ word_str (mem_totalBytes (rep_ram r)) @
     '',"ramAvailableBytes":'' @ word_str (mem_availableBytes (rep_ram r)) @ '',"gpus":'' @ ?arr\<close>
  have plain: "plain_key ''gpus''" "closes_value ''gpus'' ?tail"
    by (simp_all add: plain_key_def closes_value_def is_space_def)
  have skip: "after_sub ?q (word_str w @ t) = after_sub ?q t" for w :: size_t and t
  proof -
    have "\<forall>c \<in> set p. is_digit c \<Longrightarrow> after_sub ?q (p @ t) = after_sub ?q t" for p
      by (induction p) (auto simp: is_digit_def)
    then show ?thesis using nat_str_digits by (simp add: word_str_def)
  qed
  have tail: "after_sub ?q ?tail = Some (CHR '':'' # ?arr)"
    using skip by simp
  have "after_sub ?q (hardwareReportToJson r @ s) =
      after_sub ?q (dquote # json_escape (rep_note r) @ dquote # ?tail)"
    by (simp add: hardwareReportToJson_def)
  then consider "after_sub ?q (hardwareReportToJson r @ s) = Some ?tail"
    | "after_sub ?q (hardwareReportToJson r @ s) = Some (CHR '':'' # ?arr)"
    using after_sub_literal [OF plain(1) str_body_json_escape plain(2)] tail by auto
  moreover have "dropWhile (\<lambda>x. x \<noteq> CHR ''['') (word_str w @ t) = dropWhile (\<lambda>x. x \<noteq> CHR ''['') t"
    for w :: size_t and t
    using nat_str_digits [of "unat w"]
    by (intro dropWhile_append2) (auto simp: word_str_def is_digit_def)
  moreover have "sliceFrom ?arr 0 False [] = Some (''['' @ commaJoin (map gpuToJson (rep_gpus r)) @ '']'')"
    by (simp add: sliceFrom_gpus)
  ultimately show ?thesis
    by cases (simp_all add: sliceGpuArray_alt)
qed

lemma parse_toJson_line: "parseHardwareReport (hardwareReportToJson r @ s) = Some (escapedReport r)"
proof -
  let ?j = "hardwareReportToJson r @ s"
  have "find_bool ''probeOk'' ?j = Some (rep_probeOk r)"
    using find_bool_here [of "''probeOk''"] by (simp add: hardwareReportToJson_def find_defs)
  moreover have "find_string ''note'' ?j = Some (json_escape (rep_note r))"
    using find_string_here [of "json_escape (rep_note r)" "''note''"]
    by (simp add: hardwareReportToJson_def field_walk)
  moreover have "find_digits ''ramTotalBytes'' ?j = Some (word_str (mem_totalBytes (rep_ram r)))"
    using find_digits_here [of "CHR '','' # t" "''ramTotalBytes''" "unat (mem_totalBytes (rep_ram r))" for t]
    by (simp add: hardwareReportToJson_def field_walk word_str_def is_digit_def)
  moreover have "find_digits ''ramAvailableBytes'' ?j = Some (word_str (mem_availableBytes (rep_ram r)))"
    using find_digits_here [of "CHR '','' # t" "''ramAvailableBytes''"
        "unat (mem_availableBytes (rep_ram r))" for t]
    by (simp add: hardwareReportToJson_def field_walk word_str_def is_digit_def)
  ultimately show ?thesis
    by (simp add: parseHardwareReport_def hwExtractBool_def hwExtractString_def hwExtractUnsigned_def
        sliceGpuArray_toJson splitObjects_gpus [simplified] parseGpus_toJson orDefault_def
        escapedReport_def)
qed

lemma parse_toJson: "parseHardwareReport (hardwareReportToJson r) = Some (escapedReport r)"
  using parse_toJson_line [of r "[]"] by simp

lemma escapedGpu_id_iff:
  "escapedGpu g = g \<longleftrightarrow> needs_no_escape (gpu_name g) \<and> needs_no_escape (gpu_description g)"
  by (cases g) (simp add: escapedGpu_def json_escape_id_iff)

lemma escapedReport_id_iff:
  "escapedReport r = r \<longleftrightarrow>
     needs_no_escape (rep_note r) \<and>
     list_all (\<lambda>g. needs_no_escape (gpu_name g) \<and> needs_no_escape (gpu_description g)) (rep_gpus r)"
proof -
  have "map escapedGpu gs = gs \<longleftrightarrow> list_all (\<lambda>g. escapedGpu g = g) gs" for gs
    by (induction gs) auto
  then show ?thesis
    by (cases r) (auto simp: escapedReport_def json_escape_id_iff escapedGpu_id_iff)
qed

text \<open>C40: A report that the probe child prints parses back to itself exactly when no string of it needs
  escaping; otherwise the parse succeeds, every number survives, and each string comes back still
  escaped, because the extractor of this file never unescapes.\<close>

theorem hardware_report_roundtrip:
  "parseHardwareReport (hardwareReportToJson r) = Some (escapedReport r) \<and>
   (parseHardwareReport (hardwareReportToJson r) = Some r \<longleftrightarrow>
      needs_no_escape (rep_note r) \<and>
      list_all (\<lambda>g. needs_no_escape (gpu_name g) \<and> needs_no_escape (gpu_description g)) (rep_gpus r))"
  by (simp add: parse_toJson escapedReport_id_iff)

text \<open>All-or-nothing: a report parses only if every device object carries both sizes.\<close>

lemma parseGpus_Some:
  "parseGpus objs = Some gs \<longleftrightarrow> list_all2 (\<lambda>obj g. parseGpu obj = Some g) objs gs"
proof (induction objs arbitrary: gs)
  case Nil
  then show ?case by auto
next
  case (Cons obj objs)
  then show ?case by (cases gs) (auto split: option.splits)
qed

lemma parseGpu_Some_sizes:
  "parseGpu obj = Some g \<Longrightarrow>
   hwExtractUnsigned obj ''freeBytes'' = Some (gpu_freeBytes g) \<and>
   hwExtractUnsigned obj ''totalBytes'' = Some (gpu_totalBytes g)"
  by (auto simp: parseGpu_def split: option.splits)

end
