(* ===== verification/Capacity_Plan.thy ===== *)
theory Capacity_Plan
  imports Hardware_Report
begin

text \<open>
  \<^verbatim>\<open>backend/hardware/capacityPlan.{h,cpp}\<close>: how many workers the probed machine can carry, which of them
  get the GPU, and the environment each is started with. The facts are the memory budget, the shape
  of the assignment list, and that a CPU worker can never see a CUDA device.
\<close>

section \<open>Data\<close>

record CapacityLimits =
  maxWorkers :: int
  gpuReserveMb :: int
  workerGpuMb :: int
  ramReserveMb :: int
  workerRamMb :: int

definition defaultLimits :: CapacityLimits where
  "defaultLimits = \<lparr>maxWorkers = 4, gpuReserveMb = 512, workerGpuMb = 2048,
                    ramReserveMb = 1024, workerRamMb = 1024\<rparr>"

record CapacityPlan =
  gpuWorkerCapacity :: int
  cpuWorkerCapacity :: int
  totalVramMb :: int
  freeVramMb :: int
  usableGpuMb :: int
  totalRamMb :: int
  availableRamMb :: int
  usableRamMb :: int
  gpuName :: string
  gpuIndex :: int
  gpuReason :: string
  cpuReason :: string

definition emptyPlan :: CapacityPlan where
  "emptyPlan = \<lparr>gpuWorkerCapacity = 0, cpuWorkerCapacity = 0, totalVramMb = 0, freeVramMb = 0,
                usableGpuMb = 0, totalRamMb = 0, availableRamMb = 0, usableRamMb = 0,
                gpuName = [], gpuIndex = 0, gpuReason = [], cpuReason = []\<rparr>"

datatype WorkerBackend = KCuda | KCpu

record WorkerAssignment =
  asg_workerId :: int
  asg_backend :: WorkerBackend
  asg_gpuIndex :: int
  asg_reason :: string

fun workerBackendName :: "WorkerBackend \<Rightarrow> string" where
  "workerBackendName KCuda = ''cuda''"
| "workerBackendName KCpu = ''cpu''"

section \<open>Helpers of the file\<close>

definition capEscapeChar :: "char \<Rightarrow> string" where
  "capEscapeChar ch =
     (if ch = dquote then [bslash, dquote]
      else if ch = bslash then [bslash, bslash]
      else if ch = newline then [bslash, CHR ''n'']
      else if ch = creturn then [bslash, CHR ''r'']
      else if ch = htab then [bslash, CHR ''t'']
      else [ch])"

definition capJsonEscape :: "string \<Rightarrow> string" where
  "capJsonEscape input = concat (map capEscapeChar input)"

lemma capJsonEscape_eq [simp]: "capJsonEscape = json_escape"
proof -
  have "capEscapeChar = json_escape_char"
    by (rule ext) (simp add: capEscapeChar_def json_escape_char_def)
  then show ?thesis by (intro ext) (simp add: capJsonEscape_def json_escape_def)
qed

definition clampToRange :: "int \<Rightarrow> int \<Rightarrow> int" where
  "clampToRange value ceiling = (if value \<le> 0 then 0 else if ceiling < value then ceiling else value)"

definition budgetUsable :: "int \<Rightarrow> bool" where
  "budgetUsable budgetMb \<longleftrightarrow> 0 < budgetMb"

definition reserveOrZero :: "int \<Rightarrow> int" where
  "reserveOrZero reserveMb = (if 0 < reserveMb then reserveMb else 0)"

text \<open>The accumulating loop with its early exit: \<open>None\<close> is the exit past 1024.\<close>

fun ordinalLoop :: "string \<Rightarrow> nat \<Rightarrow> nat option" where
  "ordinalLoop [] ordinal = Some ordinal"
| "ordinalLoop (c # cs) ordinal =
     (let next = ordinal * 10 + digit_val c in if 1024 < next then None else ordinalLoop cs next)"

definition deviceOrdinalFromName :: "string \<Rightarrow> int \<Rightarrow> int" where
  "deviceOrdinalFromName name fallback =
     (let digits = rev (takeWhile is_digit (rev name))
      in if digits = [] then fallback
         else (case ordinalLoop digits 0 of None \<Rightarrow> fallback | Some n \<Rightarrow> int n))"

text \<open>The scan for the device with the most free memory; the first one wins a tie.\<close>

fun bestGpu :: "GpuDevice \<Rightarrow> nat \<Rightarrow> nat \<Rightarrow> GpuDevice list \<Rightarrow> GpuDevice \<times> nat" where
  "bestGpu best bestPosition i [] = (best, bestPosition)"
| "bestGpu best bestPosition i (g # gs) =
     (if gpu_freeBytes best < gpu_freeBytes g then bestGpu g i (Suc i) gs
      else bestGpu best bestPosition (Suc i) gs)"

section \<open>The plan\<close>

definition planGpu :: "HardwareReport \<Rightarrow> CapacityLimits \<Rightarrow> int \<Rightarrow> CapacityPlan" where
  "planGpu report limits ceiling =
     (if \<not> rep_probeOk report then
        emptyPlan\<lparr>gpuReason := ''hardware probe did not report: '' @
          (if rep_note report = [] then ''no detail'' else rep_note report)\<rparr>
      else case rep_gpus report of
        [] \<Rightarrow> emptyPlan\<lparr>gpuReason := ''no gpu device registered in this build''\<rparr>
      | g # gs \<Rightarrow>
          let (best, pos) = bestGpu g 0 1 gs;
              free = bytesToMb (gpu_freeBytes best);
              usable = max 0 (free - reserveOrZero (gpuReserveMb limits));
              plan = emptyPlan\<lparr>
                gpuName := (if gpu_description best = [] then gpu_name best else gpu_description best),
                gpuIndex := deviceOrdinalFromName (gpu_name best) (int pos),
                totalVramMb := bytesToMb (gpu_totalBytes best),
                freeVramMb := free,
                usableGpuMb := usable\<rparr>
          in if \<not> budgetUsable (workerGpuMb limits) then
               plan\<lparr>gpuReason := ''EDGE_WORKER_GPU_MB is not a positive budget''\<rparr>
             else if usable < workerGpuMb limits then
               plan\<lparr>gpuReason := ''usable vram '' @ int_str usable @
                 ''MB is below the per-worker budget '' @ int_str (workerGpuMb limits) @ ''MB''\<rparr>
             else
               plan\<lparr>gpuWorkerCapacity := clampToRange (usable div workerGpuMb limits) ceiling,
                    gpuReason := ''free '' @ int_str free @ ''MB - reserve '' @
                      int_str (gpuReserveMb limits) @ ''MB = '' @ int_str usable @ ''MB usable / '' @
                      int_str (workerGpuMb limits) @ ''MB per worker''\<rparr>)"

definition planCpu :: "HardwareReport \<Rightarrow> CapacityLimits \<Rightarrow> int \<Rightarrow> CapacityPlan \<Rightarrow> CapacityPlan" where
  "planCpu report limits ceiling plan =
     (let cpuCeiling = max 0 (ceiling - gpuWorkerCapacity plan);
          avail = bytesToMb (mem_availableBytes (rep_ram report));
          usable = max 0 (avail - reserveOrZero (ramReserveMb limits));
          plan = plan\<lparr>totalRamMb := bytesToMb (mem_totalBytes (rep_ram report)),
                      availableRamMb := avail, usableRamMb := usable\<rparr>
      in if mem_availableBytes (rep_ram report) = 0 then
           plan\<lparr>cpuReason := ''available ram unknown, assuming none''\<rparr>
         else if \<not> budgetUsable (workerRamMb limits) then
           plan\<lparr>cpuReason := ''EDGE_WORKER_RAM_MB is not a positive budget''\<rparr>
         else
           plan\<lparr>cpuWorkerCapacity := clampToRange (usable div workerRamMb limits) cpuCeiling,
                cpuReason := ''available '' @ int_str avail @ ''MB - reserve '' @
                  int_str (ramReserveMb limits) @ ''MB = '' @ int_str usable @ ''MB usable / '' @
                  int_str (workerRamMb limits) @ ''MB per worker''\<rparr>)"

definition planCapacity :: "HardwareReport \<Rightarrow> CapacityLimits \<Rightarrow> CapacityPlan" where
  "planCapacity report limits =
     (let ceiling = max 0 (maxWorkers limits)
      in planCpu report limits ceiling (planGpu report limits ceiling))"

section \<open>Assignment\<close>

definition placeableWorkerCount :: "CapacityPlan \<Rightarrow> int \<Rightarrow> int" where
  "placeableWorkerCount plan configuredCount =
     (if configuredCount \<le> 0 then 0
      else let placeable = gpuWorkerCapacity plan + cpuWorkerCapacity plan
           in if configuredCount \<le> placeable then configuredCount
              else if placeable < 1 then 1 else placeable)"

definition assignWorker :: "CapacityPlan \<Rightarrow> int \<Rightarrow> WorkerAssignment" where
  "assignWorker plan workerId =
     (if workerId < gpuWorkerCapacity plan then
        \<lparr>asg_workerId = workerId, asg_backend = KCuda, asg_gpuIndex = gpuIndex plan,
         asg_reason = ''gpu slot '' @ int_str (workerId + 1) @ '' of '' @
           int_str (gpuWorkerCapacity plan) @ '' ('' @ gpuReason plan @ '')''\<rparr>
      else
        \<lparr>asg_workerId = workerId, asg_backend = KCpu, asg_gpuIndex = 0,
         asg_reason =
           (if gpuWorkerCapacity plan = 0 then ''no gpu slot: '' @ gpuReason plan
            else ''gpu capacity '' @ int_str (gpuWorkerCapacity plan) @ '' already filled'')\<rparr>)"

definition assignWorkers :: "CapacityPlan \<Rightarrow> int \<Rightarrow> WorkerAssignment list" where
  "assignWorkers plan workerCount =
     (if workerCount \<le> 0 then [] else map (assignWorker plan) [0..workerCount - 1])"

definition workerBackendEnv :: "WorkerAssignment \<Rightarrow> (string \<times> string) list" where
  "workerBackendEnv assignment =
     [(''EDGE_WORKER_BACKEND'', workerBackendName (asg_backend assignment)),
      (''CUDA_VISIBLE_DEVICES'',
         if asg_backend assignment = KCpu then ''-1'' else int_str (asg_gpuIndex assignment))]"

definition demoteToCpu :: "WorkerAssignment \<Rightarrow> string \<Rightarrow> WorkerAssignment" where
  "demoteToCpu assignment reason = assignment\<lparr>asg_backend := KCpu, asg_reason := reason\<rparr>"

section \<open>JSON\<close>

definition capacityPlanToJson :: "CapacityPlan \<Rightarrow> string" where
  \<open>capacityPlanToJson plan =
     ''{'' @ ''"gpuWorkerCapacity":'' @ int_str (gpuWorkerCapacity plan) @
     '',"cpuWorkerCapacity":'' @ int_str (cpuWorkerCapacity plan) @
     '',"totalVramMb":'' @ int_str (totalVramMb plan) @
     '',"freeVramMb":'' @ int_str (freeVramMb plan) @
     '',"usableGpuMb":'' @ int_str (usableGpuMb plan) @
     '',"totalRamMb":'' @ int_str (totalRamMb plan) @
     '',"availableRamMb":'' @ int_str (availableRamMb plan) @
     '',"usableRamMb":'' @ int_str (usableRamMb plan) @
     '',"gpuName":"'' @ capJsonEscape (gpuName plan) @ ''"'' @
     '',"gpuIndex":'' @ int_str (gpuIndex plan) @
     '',"gpuReason":"'' @ capJsonEscape (gpuReason plan) @ ''"'' @
     '',"cpuReason":"'' @ capJsonEscape (cpuReason plan) @ ''"'' @ ''}''\<close>

definition workerAssignmentToJson :: "WorkerAssignment \<Rightarrow> string" where
  \<open>workerAssignmentToJson assignment =
     ''{"workerId":'' @ int_str (asg_workerId assignment) @
     '',"backend":"'' @ workerBackendName (asg_backend assignment) @ ''"'' @
     '',"gpuIndex":'' @ int_str (asg_gpuIndex assignment) @
     '',"reason":"'' @ capJsonEscape (asg_reason assignment) @ ''"'' @ ''}''\<close>

definition workerAssignmentsToJson :: "WorkerAssignment list \<Rightarrow> string" where
  "workerAssignmentsToJson assignments =
     ''['' @ commaJoin (map workerAssignmentToJson assignments) @ '']''"

section \<open>Facts\<close>

lemma clampToRange_bounds: "0 \<le> ceiling \<Longrightarrow> 0 \<le> clampToRange v ceiling \<and> clampToRange v ceiling \<le> ceiling"
  by (simp add: clampToRange_def)

lemma clampToRange_le: "0 \<le> v \<Longrightarrow> clampToRange v ceiling \<le> v"
  by (simp add: clampToRange_def)

text \<open>A capacity times its budget stays within what is usable.\<close>

lemma clamp_budget:
  assumes "0 < b" and "0 \<le> u" and "0 \<le> ceiling"
  shows "clampToRange (u div b) ceiling * b \<le> u"
proof -
  have "0 \<le> u div b" using assms by (simp add: pos_imp_zdiv_nonneg_iff)
  then have "clampToRange (u div b) ceiling * b \<le> (u div b) * b"
    using assms(1) clampToRange_le by (simp add: mult_right_mono)
  also have "\<dots> \<le> u"
    using div_mult_mod_eq [of u b] pos_mod_sign [OF assms(1), of u] by linarith
  finally show ?thesis .
qed

lemma bestGpu_spec:
  assumes "bestGpu best pos i gs = (b, p)"
  shows "b \<in> insert best (set gs)"
    and "gpu_freeBytes best \<le> gpu_freeBytes b"
    and "\<forall>g \<in> set gs. gpu_freeBytes g \<le> gpu_freeBytes b"
  using assms
  by (induction gs arbitrary: best pos i)
     (auto split: if_splits, (meson leI less_imp_le order_trans)+)

text \<open>The position that is returned is that of the returned device in the whole report.\<close>

lemma bestGpu_position:
  "bestGpu best pos i gs = (b, p) \<Longrightarrow> length pre = i \<Longrightarrow> pos < i \<Longrightarrow> pre ! pos = best \<Longrightarrow>
   p < length (pre @ gs) \<and> (pre @ gs) ! p = b"
proof (induction gs arbitrary: best pos i pre)
  case Nil
  then show ?case by simp
next
  case (Cons g gs)
  have "(pre @ [g]) ! i = g" using Cons.prems(2) by (simp add: nth_append)
  with Cons.IH [of _ _ "Suc i" "pre @ [g]"] Cons.prems show ?case
    by (auto simp: nth_append split: if_splits)
qed

lemma planGpu_bounds:
  assumes "0 \<le> ceiling"
  shows "0 \<le> gpuWorkerCapacity (planGpu report limits ceiling)"
    and "gpuWorkerCapacity (planGpu report limits ceiling) \<le> ceiling"
    and "gpuWorkerCapacity (planGpu report limits ceiling) * workerGpuMb limits
           \<le> usableGpuMb (planGpu report limits ceiling)"
    and "0 \<le> usableGpuMb (planGpu report limits ceiling)"
    and "usableGpuMb (planGpu report limits ceiling) \<le> freeVramMb (planGpu report limits ceiling)"
    and "cpuWorkerCapacity (planGpu report limits ceiling) = 0"
  using assms clampToRange_bounds clamp_budget bytesToMb_bounds
  by (auto simp: planGpu_def emptyPlan_def Let_def budgetUsable_def reserveOrZero_def
      split: list.split prod.split)

lemma planCpu_fields [simp]:
  "gpuWorkerCapacity (planCpu report limits ceiling plan) = gpuWorkerCapacity plan"
  "usableGpuMb (planCpu report limits ceiling plan) = usableGpuMb plan"
  "freeVramMb (planCpu report limits ceiling plan) = freeVramMb plan"
  "gpuIndex (planCpu report limits ceiling plan) = gpuIndex plan"
  "gpuName (planCpu report limits ceiling plan) = gpuName plan"
  "gpuReason (planCpu report limits ceiling plan) = gpuReason plan"
  "availableRamMb (planCpu report limits ceiling plan) = bytesToMb (mem_availableBytes (rep_ram report))"
  "usableRamMb (planCpu report limits ceiling plan) =
     max 0 (bytesToMb (mem_availableBytes (rep_ram report)) - reserveOrZero (ramReserveMb limits))"
  by (simp_all add: planCpu_def Let_def)

lemma planCpu_nothing_usable:
  "bytesToMb (mem_availableBytes (rep_ram report)) \<le> reserveOrZero (ramReserveMb limits) \<Longrightarrow>
   cpuWorkerCapacity plan = 0 \<Longrightarrow>
   cpuWorkerCapacity (planCpu report limits ceiling plan) = 0"
  by (simp add: planCpu_def Let_def clampToRange_def)

lemma planCpu_bounds:
  assumes "cpuWorkerCapacity plan = 0"
  shows "0 \<le> cpuWorkerCapacity (planCpu report limits ceiling plan)"
    and "cpuWorkerCapacity (planCpu report limits ceiling plan) \<le> max 0 (ceiling - gpuWorkerCapacity plan)"
    and "cpuWorkerCapacity (planCpu report limits ceiling plan) * workerRamMb limits
           \<le> usableRamMb (planCpu report limits ceiling plan)"
    and "0 \<le> usableRamMb (planCpu report limits ceiling plan)"
  using assms clampToRange_bounds [of "max 0 (ceiling - gpuWorkerCapacity plan)"] clamp_budget bytesToMb_bounds
  by (simp_all add: planCpu_def Let_def budgetUsable_def)

lemma deviceOrdinalFromName_nonneg: "0 \<le> fallback \<Longrightarrow> 0 \<le> deviceOrdinalFromName name fallback"
  by (simp add: deviceOrdinalFromName_def Let_def split: option.split)

lemma ordinalLoop_bound: "ordinalLoop cs o1 = Some n \<Longrightarrow> o1 \<le> 1024 \<Longrightarrow> n \<le> 1024"
  by (induction cs arbitrary: o1) (auto simp: Let_def split: if_splits)

lemma ordinalLoop_value:
  "ordinalLoop cs o1 = Some n \<Longrightarrow> n = foldl (\<lambda>a c. 10 * a + digit_val c) o1 cs"
  by (induction cs arbitrary: o1) (auto simp: Let_def ac_simps split: if_splits)

lemma planCapacity_gpuIndex: "0 \<le> gpuIndex (planCapacity report limits)"
  by (auto simp: planCapacity_def planGpu_def emptyPlan_def Let_def deviceOrdinalFromName_nonneg
      split: list.split prod.split)

lemma planCapacity_eq:
  "planCapacity report limits =
     planCpu report limits (max 0 (maxWorkers limits)) (planGpu report limits (max 0 (maxWorkers limits)))"
  by (simp add: planCapacity_def Let_def)

lemma planCapacity_bounds:
  fixes limits :: CapacityLimits and report :: HardwareReport
  defines "p \<equiv> planCapacity report limits"
  shows "0 \<le> gpuWorkerCapacity p" and "0 \<le> cpuWorkerCapacity p"
    and "gpuWorkerCapacity p + cpuWorkerCapacity p \<le> max 0 (maxWorkers limits)"
    and "gpuWorkerCapacity p * workerGpuMb limits \<le> usableGpuMb p"
    and "cpuWorkerCapacity p * workerRamMb limits \<le> usableRamMb p"
    and "0 \<le> usableGpuMb p" and "0 \<le> usableRamMb p"
proof -
  let ?c = "max 0 (maxWorkers limits)"
  let ?g = "planGpu report limits ?c"
  have c: "0 \<le> ?c" by simp
  note g = planGpu_bounds [OF c, of report limits]
  note m = planCpu_bounds [OF g(6), of report limits ?c]
  show "0 \<le> gpuWorkerCapacity p" "gpuWorkerCapacity p * workerGpuMb limits \<le> usableGpuMb p"
    "0 \<le> usableGpuMb p"
    using g(1,3,4) by (simp_all add: p_def planCapacity_eq)
  show "0 \<le> cpuWorkerCapacity p" "cpuWorkerCapacity p * workerRamMb limits \<le> usableRamMb p"
    "0 \<le> usableRamMb p"
    using m by (simp_all add: p_def planCapacity_eq)
  show "gpuWorkerCapacity p + cpuWorkerCapacity p \<le> max 0 (maxWorkers limits)"
    using g(2) m(2) by (simp add: p_def planCapacity_eq)
qed

lemma planCapacity_unusable:
  "workerGpuMb limits \<le> 0 \<Longrightarrow> gpuWorkerCapacity (planCapacity report limits) = 0"
  "workerRamMb limits \<le> 0 \<Longrightarrow> cpuWorkerCapacity (planCapacity report limits) = 0"
  by (auto simp: planCapacity_eq planGpu_def planCpu_def emptyPlan_def budgetUsable_def Let_def
      split: list.split prod.split)

lemma planCapacity_reserve:
  "gpuWorkerCapacity (planCapacity report limits) = 0 \<or>
   usableGpuMb (planCapacity report limits) =
     freeVramMb (planCapacity report limits) - reserveOrZero (gpuReserveMb limits)"
  by (auto simp: planCapacity_eq planGpu_def emptyPlan_def budgetUsable_def Let_def
      split: list.split prod.split)

lemma planCapacity_ram_reserve:
  "cpuWorkerCapacity (planCapacity report limits) = 0 \<or>
   usableRamMb (planCapacity report limits) =
     availableRamMb (planCapacity report limits) - reserveOrZero (ramReserveMb limits)"
  using planCpu_nothing_usable [of report limits "planGpu report limits (max 0 (maxWorkers limits))"
      "max 0 (maxWorkers limits)"] planGpu_bounds(6)
  by (auto simp: planCapacity_eq max_def split: if_splits)

text \<open>The plan never promises more than the probed machine holds: capacities are non-negative, they
  fit the configured ceiling together, the GPU workers' budgets plus the reserve fit the free VRAM and
  the CPU workers' budgets plus the reserve fit the available RAM, whatever the report and the limits.\<close>

theorem capacity_plan_within_budget:
  "let p = planCapacity report limits in
     0 \<le> gpuWorkerCapacity p \<and> 0 \<le> cpuWorkerCapacity p \<and>
     gpuWorkerCapacity p + cpuWorkerCapacity p \<le> max 0 (maxWorkers limits) \<and>
     (gpuWorkerCapacity p = 0 \<or>
        gpuWorkerCapacity p * workerGpuMb limits + reserveOrZero (gpuReserveMb limits) \<le> freeVramMb p) \<and>
     (cpuWorkerCapacity p = 0 \<or>
        cpuWorkerCapacity p * workerRamMb limits + reserveOrZero (ramReserveMb limits) \<le> availableRamMb p)"
  using planCapacity_bounds [of report limits] planCapacity_reserve [of report limits]
    planCapacity_ram_reserve [of report limits]
  by (auto simp: Let_def)

text \<open>Counting the backends of an assignment list.\<close>

definition backendCount :: "WorkerBackend \<Rightarrow> WorkerAssignment list \<Rightarrow> int" where
  "backendCount b as = int (length (filter (\<lambda>a. asg_backend a = b) as))"

lemma assignWorkers_ids: "map asg_workerId (assignWorkers plan n) = [0..n - 1]"
proof -
  have "asg_workerId \<circ> assignWorker plan = id"
    by (rule ext) (simp add: assignWorker_def)
  then show ?thesis by (simp add: assignWorkers_def)
qed

lemma length_filter_upto:
  "int (length (filter (\<lambda>i. i < k) [0..n - 1])) = max 0 (min n k)"
proof -
  have "filter (\<lambda>i. i < k) [0..n - 1] = [0..min n k - 1]"
  proof (induction "nat n" arbitrary: n)
    case 0
    then show ?case by simp
  next
    case (Suc m)
    then have m: "m = nat (n - 1)" "0 < n" by linarith+
    have "[0..n - 1] = [0..n - 1 - 1] @ [n - 1]"
      using m(2) by (simp add: upto_rec2)
    then have "filter (\<lambda>i. i < k) [0..n - 1] =
        [0..min (n - 1) k - 1] @ (if n - 1 < k then [n - 1] else [])"
      using Suc.hyps(1) [OF m(1)] by simp
    also have "\<dots> = [0..min n k - 1]"
      using m(2) upto_rec2 [of 0 "n - 1"] by (auto simp: min_def)
    finally show ?case .
  qed
  then show ?thesis by (simp add: max_def)
qed

lemma backendCount_cuda: "backendCount KCuda (assignWorkers plan n) = max 0 (min n (gpuWorkerCapacity plan))"
proof -
  have "(\<lambda>a. asg_backend a = KCuda) \<circ> assignWorker plan = (\<lambda>i. i < gpuWorkerCapacity plan)"
    by (rule ext) (simp add: assignWorker_def)
  then show ?thesis
    by (simp add: backendCount_def assignWorkers_def filter_map length_filter_upto)
qed

lemma backendCount_total:
  "backendCount KCuda as + backendCount KCpu as = int (length as)"
proof -
  have "filter (\<lambda>a. asg_backend a = KCpu) as = filter (\<lambda>a. \<not> asg_backend a = KCuda) as"
    by (rule filter_cong) (auto intro: WorkerBackend.exhaust)
  then show ?thesis
    using sum_length_filter_compl [of "\<lambda>a. asg_backend a = KCuda" as] by (simp add: backendCount_def)
qed

lemma length_assignWorkers: "int (length (assignWorkers plan n)) = max 0 n"
  by (simp add: assignWorkers_def)

text \<open>What discovery starts: worker ids run from 0 without gaps, at least one worker starts whenever
  one is configured and never more than configured, the CUDA workers fit the usable VRAM, and the CPU
  workers fit the usable RAM unless the single floor worker is all that starts.\<close>

theorem discovery_assignment_within_budget:
  "let p = planCapacity report (limits\<lparr>maxWorkers := c\<rparr>);
       n = placeableWorkerCount p c;
       as = assignWorkers p n in
     map asg_workerId as = [0..n - 1] \<and> n \<le> max 0 c \<and> (c \<le> 0 \<or> 1 \<le> n) \<and>
     backendCount KCuda as * workerGpuMb limits \<le> usableGpuMb p \<and>
     (n = 1 \<or> backendCount KCpu as * workerRamMb limits \<le> usableRamMb p)"
proof -
  define p where "p = planCapacity report (limits\<lparr>maxWorkers := c\<rparr>)"
  define n where "n = placeableWorkerCount p c"
  define as where "as = assignWorkers p n"
  let ?g = "gpuWorkerCapacity p" and ?m = "cpuWorkerCapacity p"
  have b: "0 \<le> ?g" "0 \<le> ?m" "?g * workerGpuMb limits \<le> usableGpuMb p"
    "?m * workerRamMb limits \<le> usableRamMb p" "0 \<le> usableGpuMb p" "0 \<le> usableRamMb p"
    using planCapacity_bounds [of report "limits\<lparr>maxWorkers := c\<rparr>"] by (simp_all add: p_def)
  have z: "workerGpuMb limits \<le> 0 \<Longrightarrow> ?g = 0" "workerRamMb limits \<le> 0 \<Longrightarrow> ?m = 0"
    using planCapacity_unusable [of "limits\<lparr>maxWorkers := c\<rparr>" report] by (simp_all add: p_def)
  have n: "n \<le> max 0 c" "c \<le> 0 \<or> 1 \<le> n" "0 \<le> n" "n = 1 \<or> n \<le> ?g + ?m"
    using b(1,2) by (auto simp: n_def placeableWorkerCount_def Let_def)
  have cuda: "backendCount KCuda as = min n ?g" using n(3) b(1) by (simp add: as_def backendCount_cuda)
  then have cpu: "backendCount KCpu as = n - min n ?g"
    using backendCount_total [of as] n(3) by (simp add: as_def length_assignWorkers)
  have scale: "k * w \<le> u" if "0 \<le> k" "k \<le> cap" "cap * w \<le> u" "0 \<le> u" "w \<le> 0 \<Longrightarrow> cap = 0" for k w u cap :: int
    using that by (cases "w \<le> 0") (auto intro: order_trans [OF mult_right_mono])
  have "backendCount KCuda as * workerGpuMb limits \<le> usableGpuMb p"
    unfolding cuda by (rule scale [OF _ _ b(3) b(5) z(1)]) (use b(1) n(3) in simp_all)
  moreover have "n = 1 \<or> backendCount KCpu as * workerRamMb limits \<le> usableRamMb p"
    using n(4)
  proof (elim disjE)
    assume "n \<le> ?g + ?m"
    then have "backendCount KCpu as * workerRamMb limits \<le> usableRamMb p"
      unfolding cpu by (intro scale [OF _ _ b(4) b(6) z(2)]) (use b(2) in simp_all)
    then show ?thesis ..
  qed simp
  moreover have "map asg_workerId as = [0..n - 1]" by (simp add: as_def assignWorkers_ids)
  ultimately show ?thesis
    using n(1,2) unfolding Let_def p_def [symmetric] n_def [symmetric] as_def [symmetric] by blast
qed

text \<open>Visibility of the GPU follows the assignment: for every worker a plan assigns,
  \<^verbatim>\<open>CUDA_VISIBLE_DEVICES\<close> is \<^verbatim>\<open>-1\<close> exactly for the CPU workers, and after a demotion it is \<^verbatim>\<open>-1\<close>
  whatever the worker was.\<close>

theorem cpu_worker_sees_no_gpu:
  "list_all (\<lambda>a. (map_of (workerBackendEnv a) ''CUDA_VISIBLE_DEVICES'' = Some ''-1'')
                   = (asg_backend a = KCpu)) (assignWorkers (planCapacity report limits) n) \<and>
   map_of (workerBackendEnv (demoteToCpu b reason)) ''CUDA_VISIBLE_DEVICES'' = Some ''-1''"
proof -
  have "int_str (gpuIndex (planCapacity report limits)) \<noteq> ''-1''"
    using int_str_inj [of "gpuIndex (planCapacity report limits)" "- 1"]
      planCapacity_gpuIndex [of report limits]
    by (simp add: int_str_def nat_str.simps digit_char_def split: if_splits)
  then show ?thesis
    by (auto simp: list_all_iff assignWorkers_def assignWorker_def workerBackendEnv_def demoteToCpu_def)
qed

text \<open>No \<^verbatim>\<open>int\<close> or \<^verbatim>\<open>long long\<close> of the planner overflows: with limits of the declared widths, the two
  subtractions, both usable sizes, both capacities and their sum stay in range, so the model's
  unbounded integers are the machine's.\<close>

theorem capacity_plan_no_overflow:
  assumes "in_int32 (maxWorkers limits)"
    and "in_int64 (gpuReserveMb limits)" and "in_int64 (ramReserveMb limits)"
  shows "let p = planCapacity report limits in
     in_int64 (freeVramMb p - reserveOrZero (gpuReserveMb limits)) \<and>
     in_int64 (availableRamMb p - reserveOrZero (ramReserveMb limits)) \<and>
     in_int32 (gpuWorkerCapacity p + cpuWorkerCapacity p) \<and>
     in_int32 (max 0 (maxWorkers limits) - gpuWorkerCapacity p) \<and>
     in_int64 (usableGpuMb p) \<and> in_int64 (usableRamMb p)"
proof -
  define p where "p = planCapacity report limits"
  have free: "0 \<le> freeVramMb p \<and> freeVramMb p \<le> 17592186044415"
    using bytesToMb_bounds
    by (auto simp: p_def planCapacity_eq planGpu_def emptyPlan_def Let_def split: list.split prod.split)
  have avail: "0 \<le> availableRamMb p \<and> availableRamMb p \<le> 17592186044415"
    using bytesToMb_bounds by (simp add: p_def planCapacity_eq planCpu_def Let_def)
  have usable: "usableGpuMb p \<le> freeVramMb p" "usableRamMb p \<le> max 0 (availableRamMb p)"
    using planGpu_bounds(5) [of "max 0 (maxWorkers limits)" report limits] bytesToMb_bounds
    by (simp_all add: p_def planCapacity_eq planCpu_def Let_def reserveOrZero_def)
  note b = planCapacity_bounds [of report limits, folded p_def]
  show ?thesis unfolding Let_def p_def [symmetric]
    using free avail usable b assms
    by (auto simp: in_int64_def in_int32_def reserveOrZero_def max_def split: if_splits)
qed

lemma capacity_plan_no_overflow_witness:
  "in_int32 (gpuWorkerCapacity (planCapacity emptyReport defaultLimits)
     + cpuWorkerCapacity (planCapacity emptyReport defaultLimits))"
  using capacity_plan_no_overflow [of defaultLimits emptyReport]
  by (simp add: defaultLimits_def in_int32_def in_int64_def Let_def)

end
