(* ===== verification/Ipc.thy ===== *)
theory Ipc
  imports Json_Text
begin

text \<open>
  \<^verbatim>\<open>backend/ipc/{paths,exitCodes}.h\<close>: the names the processes agree on. The process environment is a
  function from variable names to values, \<open>None\<close> for an unset variable.
\<close>

type_synonym environ = "string \<Rightarrow> string option"

definition envValue :: "environ \<Rightarrow> string \<Rightarrow> string" where
  "envValue env name = (case env name of None \<Rightarrow> [] | Some v \<Rightarrow> v)"

definition supervisorSock :: "environ \<Rightarrow> string" where
  "supervisorSock env = envValue env ''EDGE_SUPERVISOR_SOCK''"

definition apiNotifySock :: "environ \<Rightarrow> string" where
  "apiNotifySock env = envValue env ''EDGE_API_NOTIFY_SOCK''"

definition workerSockPrefix :: "environ \<Rightarrow> string" where
  "workerSockPrefix env = envValue env ''EDGE_WORKER_SOCKET_PREFIX''"

definition shmNameEnv :: "environ \<Rightarrow> string" where
  "shmNameEnv env = envValue env ''EDGE_SHM_NAME''"

definition crashLogEnv :: "environ \<Rightarrow> string" where
  "crashLogEnv env = envValue env ''EDGE_CRASH_LOG''"

definition modelConfigPath :: "environ \<Rightarrow> string" where
  "modelConfigPath env = envValue env ''EDGE_MODEL_CONFIG_PATH''"

definition deviceLadderSpec :: "environ \<Rightarrow> string" where
  "deviceLadderSpec env = envValue env ''EDGE_DEVICE_LADDER''"

definition stateDir :: "environ \<Rightarrow> string" where
  "stateDir env = envValue env ''EDGE_STATE_DIR''"

definition pidFilePath :: "environ \<Rightarrow> string \<Rightarrow> string" where
  "pidFilePath env name =
     (let dir = stateDir env in if dir = [] then [] else dir @ ''/'' @ name @ ''.pid'')"

definition workerSock :: "environ \<Rightarrow> int \<Rightarrow> string" where
  "workerSock env workerId = workerSockPrefix env @ int_str workerId @ ''.sock''"

definition shmMetaName :: "string \<Rightarrow> string" where
  "shmMetaName shmName = shmName @ ''.meta''"

definition shmFilePath :: "string \<Rightarrow> string" where
  "shmFilePath shmName =
     (case shmName of
        [] \<Rightarrow> []
      | c # cs \<Rightarrow> if c = CHR ''/'' then ''/dev/shm/'' @ cs else ''/dev/shm/'' @ shmName)"

definition kReassignCpu :: nat where
  "kReassignCpu = 70"

lemma workerSock_inj: "workerSock env i = workerSock env j \<longleftrightarrow> i = j"
  by (simp add: workerSock_def int_str_inj)

lemma shmMetaName_neq [simp]: "shmMetaName n \<noteq> n" "n \<noteq> shmMetaName n"
  by (simp_all add: shmMetaName_def)

lemma pidFilePath_inj:
  "stateDir env \<noteq> [] \<Longrightarrow> pidFilePath env m = pidFilePath env n \<longleftrightarrow> m = n"
  by (simp add: pidFilePath_def Let_def)

end
