(* ===== verification/Model_Cache.thy ===== *)
theory Model_Cache
  imports Ipc
begin

text \<open>
  \<^verbatim>\<open>backend/model-cache/*\<close> and \<^verbatim>\<open>backend/ipc/modelReady.h\<close>: one process copies the model file into a
  shared-memory object and publishes it through a 256-byte header in a second object; every other
  process decides from that header whether the copy may be used. The shared-memory objects are byte
  lists that outlive the run that made them, and every store to them is one entry of a history, so a
  reader that looks between any two stores is covered.
\<close>

section \<open>Bytes in memory\<close>

definition peek :: "nat \<Rightarrow> nat \<Rightarrow> byte list \<Rightarrow> byte list" where
  "peek off n mem = take n (drop off mem)"

definition poke :: "nat \<Rightarrow> byte list \<Rightarrow> byte list \<Rightarrow> byte list" where
  "poke off bs mem = take off mem @ bs @ drop (off + length bs) mem"

lemma length_poke [simp]: "off + length bs \<le> length mem \<Longrightarrow> length (poke off bs mem) = length mem"
  by (simp add: poke_def)

lemma peek_poke_same:
  "n = length bs \<Longrightarrow> off + length bs \<le> length mem \<Longrightarrow> peek off n (poke off bs mem) = bs"
  by (simp add: peek_def poke_def)

lemma peek_poke_below:
  "a + n \<le> off \<Longrightarrow> off + length bs \<le> length mem \<Longrightarrow> peek a n (poke off bs mem) = peek a n mem"
proof -
  assume a: "a + n \<le> off" and m: "off + length bs \<le> length mem"
  then have "take n (drop a (poke off bs mem)) = take n (drop a (take off mem))"
    by (simp add: poke_def)
  also have "\<dots> = take n (drop a mem)" using a by (simp add: drop_take)
  finally show ?thesis by (simp add: peek_def)
qed

lemma peek_poke_above:
  "off + length bs \<le> a \<Longrightarrow> off + length bs \<le> length mem \<Longrightarrow> peek a n (poke off bs mem) = peek a n mem"
  by (simp add: peek_def poke_def)

text \<open>Little-endian integers.\<close>

fun le_bytes :: "nat \<Rightarrow> nat \<Rightarrow> byte list" where
  "le_bytes 0 x = []"
| "le_bytes (Suc n) x = word_of_nat (x mod 256) # le_bytes n (x div 256)"

fun le_nat :: "byte list \<Rightarrow> nat" where
  "le_nat [] = 0"
| "le_nat (b # bs) = unat b + 256 * le_nat bs"

lemma length_le_bytes [simp]: "length (le_bytes n x) = n"
  by (induction n arbitrary: x) auto

lemma le_nat_le_bytes: "le_nat (le_bytes n x) = x mod 256 ^ n"
proof (induction n arbitrary: x)
  case 0
  then show ?case by simp
next
  case (Suc n)
  have "unat (word_of_nat (x mod 256) :: byte) = x mod 256"
    by (simp add: unat_of_nat)
  with Suc show ?case by (simp add: mod_mult2_eq)
qed

lemma le_nat_zeros [simp]: "le_nat (replicate n 0) = 0"
  by (induction n) auto

section \<open>The header\<close>

text \<open>
  \<^verbatim>\<open>struct SharedModelHeader\<close>: magic at 0, modelSize at 8, checksum at 16, loadedAt at 24, version at
  32, ready at 36, three bytes of padding, runNonce at 40, reserved from 48 to 256. \<open>hdr_loadedAt\<close> is
  the bit pattern of the signed field.
\<close>

record SharedModelHeader =
  hdr_magic :: "byte list"
  hdr_modelSize :: "64 word"
  hdr_checksum :: "64 word"
  hdr_loadedAt :: "64 word"
  hdr_version :: "32 word"
  hdr_ready :: byte
  hdr_runNonce :: "64 word"

definition kHeaderSize :: nat where
  "kHeaderSize = 256"

definition kSharedModelHeaderVersion :: "32 word" where
  "kSharedModelHeaderVersion = 2"

definition edgeMagic :: "byte list" where
  "edgeMagic = [69, 68, 71, 69]"

definition readHeader :: "byte list \<Rightarrow> SharedModelHeader" where
  "readHeader bytes =
     \<lparr>hdr_magic = peek 0 8 bytes,
      hdr_modelSize = word_of_nat (le_nat (peek 8 8 bytes)),
      hdr_checksum = word_of_nat (le_nat (peek 16 8 bytes)),
      hdr_loadedAt = word_of_nat (le_nat (peek 24 8 bytes)),
      hdr_version = word_of_nat (le_nat (peek 32 4 bytes)),
      hdr_ready = word_of_nat (le_nat (peek 36 1 bytes)),
      hdr_runNonce = word_of_nat (le_nat (peek 40 8 bytes))\<rparr>"

datatype ModelReadyState = KMalformed | KForeignRun | KNotReady | KReady

text \<open>\<open>None\<close> is a null pointer.\<close>

definition evaluateModelHeader :: "byte list option \<Rightarrow> nat \<Rightarrow> 64 word \<Rightarrow> ModelReadyState" where
  "evaluateModelHeader bytes nbytes expectedNonce =
     (case bytes of
        None \<Rightarrow> KMalformed
      | Some mem \<Rightarrow>
          if nbytes < kHeaderSize \<or> expectedNonce = 0 then KMalformed
          else let header = readHeader mem in
            if take 4 (hdr_magic header) \<noteq> edgeMagic then KMalformed
            else if hdr_runNonce header \<noteq> expectedNonce then KForeignRun
            else if hdr_ready header = 1 then KReady else KNotReady)"

fun modelReadyStateName :: "ModelReadyState \<Rightarrow> string" where
  "modelReadyStateName KMalformed = ''malformed''"
| "modelReadyStateName KForeignRun = ''foreign_run''"
| "modelReadyStateName KNotReady = ''not_ready''"
| "modelReadyStateName KReady = ''ready''"

text \<open>
  The nonce of a run. The arguments are what the two entropy sources deliver: the eight bytes of
  \<^verbatim>\<open>/dev/urandom\<close>, \<open>None\<close> when it does not open or reads short, and the value mixed from
  \<^verbatim>\<open>random_device\<close>, the pid and the clock.
\<close>

definition generateRunNonce :: "64 word option \<Rightarrow> 64 word \<Rightarrow> 64 word" where
  "generateRunNonce urandom mixed =
     (let nonce = (case urandom of None \<Rightarrow> 0 | Some n \<Rightarrow> n);
          nonce = (if nonce = 0 then mixed else nonce)
      in if nonce = 0 then 1 else nonce)"

lemma generateRunNonce_nonzero: "generateRunNonce urandom mixed \<noteq> 0"
  by (simp add: generateRunNonce_def Let_def)

section \<open>The checksum\<close>

definition kFnvOffsetBasis :: "64 word" where
  "kFnvOffsetBasis = 14695981039346656037"

definition kFnvPrime :: "64 word" where
  "kFnvPrime = 1099511628211"

fun updateChecksum :: "64 word \<Rightarrow> byte list \<Rightarrow> 64 word" where
  "updateChecksum hash [] = hash"
| "updateChecksum hash (b # bs) =
     updateChecksum (Bit_Operations.xor hash (ucast b) * kFnvPrime) bs"

lemma updateChecksum_append [simp]:
  "updateChecksum h (xs @ ys) = updateChecksum (updateChecksum h xs) ys"
  by (induction xs arbitrary: h) auto

section \<open>Publishing a model\<close>

text \<open>The shared-memory namespace, and its history with the latest state first.\<close>

type_synonym shm = "string \<rightharpoonup> byte list"

record ModelCache =
  mc_modelPath :: string
  mc_shmName :: string
  mc_runNonce :: "64 word"
  mc_stopRequested :: bool
  mc_modelFd :: bool
  mc_shmFd :: bool
  mc_metaFd :: bool
  mc_shmSize :: nat
  mc_metaSize :: nat

text \<open>
  What the operating system answers. \<open>os_stat\<close> is the size \<^verbatim>\<open>fstat\<close> reports, \<open>None\<close> when it fails;
  \<open>os_file\<close> the bytes a read of the model file delivers; \<open>os_reads\<close> the outcome of each \<^verbatim>\<open>read\<close>.
\<close>

datatype read_outcome = ReadUpTo nat | ReadInterrupted | ReadFailed

record cache_os =
  os_open :: bool
  os_stat :: "int option"
  os_metaOpen :: bool
  os_metaTruncate :: bool
  os_metaMap :: bool
  os_shmOpen :: bool
  os_shmTruncate :: bool
  os_shmMap :: bool
  os_file :: "byte list"
  os_reads :: "read_outcome list"
  os_loadedAt :: "64 word"
  os_syncShm :: bool
  os_syncMeta :: bool

definition put :: "string \<Rightarrow> byte list \<Rightarrow> shm list \<Rightarrow> shm list" where
  "put name bytes hist = (hd hist)(name \<mapsto> bytes) # hist"

text \<open>\<^verbatim>\<open>shm_open\<close> with \<^verbatim>\<open>O_CREAT\<close>, and \<^verbatim>\<open>ftruncate\<close>, which cuts or extends with zeros.\<close>

definition shmCreate :: "string \<Rightarrow> shm list \<Rightarrow> shm list" where
  "shmCreate name hist = (case hd hist name of None \<Rightarrow> put name [] hist | Some bytes \<Rightarrow> hist)"

definition shmResize :: "string \<Rightarrow> nat \<Rightarrow> shm list \<Rightarrow> shm list" where
  "shmResize name n hist =
     (let bytes = (case hd hist name of None \<Rightarrow> [] | Some bs \<Rightarrow> bs)
      in put name (take n bytes @ replicate (n - length bytes) 0) hist)"

definition store :: "string \<Rightarrow> nat \<Rightarrow> byte list \<Rightarrow> shm list \<Rightarrow> shm list" where
  "store name off bs hist =
     put name (poke off bs (case hd hist name of None \<Rightarrow> [] | Some m \<Rightarrow> m)) hist"

definition openModelFile :: "cache_os \<Rightarrow> ModelCache \<Rightarrow> nat option \<times> ModelCache" where
  "openModelFile os mc =
     (if \<not> os_open os then (None, mc)
      else let mc = mc\<lparr>mc_modelFd := True\<rparr> in
        case os_stat os of
          None \<Rightarrow> (None, mc)
        | Some st_size \<Rightarrow> if st_size \<le> 0 then (None, mc) else (Some (nat st_size), mc))"

definition claimHeader :: "ModelCache \<Rightarrow> shm list \<Rightarrow> shm list" where
  "claimHeader mc hist =
     (let meta = shmMetaName (mc_shmName mc);
          hist = store meta 0 (replicate kHeaderSize 0) hist;
          hist = store meta 0 edgeMagic hist;
          hist = store meta 32 (le_bytes 4 (unat kSharedModelHeaderVersion)) hist;
          hist = store meta 40 (le_bytes 8 (unat (mc_runNonce mc))) hist
      in store meta 36 [0] hist)"

definition createSharedMemory ::
  "cache_os \<Rightarrow> nat \<Rightarrow> ModelCache \<Rightarrow> shm list \<Rightarrow> bool \<times> ModelCache \<times> shm list" where
  "createSharedMemory os modelSize mc hist =
     (let meta = shmMetaName (mc_shmName mc); name = mc_shmName mc in
      if \<not> os_metaOpen os then (False, mc, hist)
      else let mc = mc\<lparr>mc_metaFd := True\<rparr>; hist = shmCreate meta hist in
      if \<not> os_metaTruncate os then (False, mc, hist)
      else let hist = shmResize meta kHeaderSize hist in
      if \<not> os_metaMap os then (False, mc, hist)
      else let mc = mc\<lparr>mc_metaSize := kHeaderSize\<rparr>; hist = claimHeader mc hist in
      if \<not> os_shmOpen os then (False, mc, hist)
      else let mc = mc\<lparr>mc_shmFd := True\<rparr>; hist = shmCreate name hist in
      if \<not> os_shmTruncate os then (False, mc, hist)
      else let hist = shmResize name modelSize hist in
      if \<not> os_shmMap os then (False, mc, hist)
      else let mc = mc\<lparr>mc_shmSize := modelSize\<rparr> in
        (True, mc, store name 0 (replicate modelSize 0) hist))"

text \<open>
  The copy loop, one list entry per \<^verbatim>\<open>read\<close>. The buffer holds a mebibyte. \<open>None\<close>: the outcomes ran
  out before the loop left, so the process is still reading. \<open>Inl\<close> is the early return on a failed
  or short read, \<open>Inr\<close> the checksum of the copied bytes.
\<close>

fun copyLoop ::
  "string \<Rightarrow> byte list \<Rightarrow> nat \<Rightarrow> read_outcome list \<Rightarrow> nat \<Rightarrow> 64 word \<Rightarrow> shm list
   \<Rightarrow> ((unit + 64 word) \<times> shm list) option" where
  "copyLoop name file modelSize rs written checksum hist =
     (if written \<ge> modelSize then Some (Inr checksum, hist)
      else case rs of
        [] \<Rightarrow> None
      | ReadInterrupted # rs' \<Rightarrow> copyLoop name file modelSize rs' written checksum hist
      | ReadFailed # rs' \<Rightarrow> Some (Inl (), hist)
      | ReadUpTo k # rs' \<Rightarrow>
          let need = min 1048576 (modelSize - written);
              chunk = take (min k need) (drop written file)
          in if chunk = [] then Some (Inl (), hist)
             else copyLoop name file modelSize rs' (written + length chunk)
                    (updateChecksum checksum chunk) (store name written chunk hist))"

declare copyLoop.simps [simp del]

definition loadModelIntoSharedMemory ::
  "cache_os \<Rightarrow> nat \<Rightarrow> ModelCache \<Rightarrow> shm list \<Rightarrow> (bool \<times> shm list) option" where
  "loadModelIntoSharedMemory os modelSize mc hist =
     (let meta = shmMetaName (mc_shmName mc);
          hist = store meta 8 (le_bytes 8 modelSize) hist
      in case copyLoop (mc_shmName mc) (os_file os) modelSize (os_reads os) 0 kFnvOffsetBasis hist of
           None \<Rightarrow> None
         | Some (Inl u, hist) \<Rightarrow> Some (False, hist)
         | Some (Inr checksum, hist) \<Rightarrow>
             let hist = store meta 16 (le_bytes 8 (unat checksum)) hist;
                 hist = store meta 24 (le_bytes 8 (unat (os_loadedAt os))) hist;
                 hist = store meta 36 [1] hist
             in Some (os_syncShm os \<and> os_syncMeta os, hist))"

definition mcInitialize ::
  "cache_os \<Rightarrow> ModelCache \<Rightarrow> shm list \<Rightarrow> (bool \<times> ModelCache \<times> shm list) option" where
  "mcInitialize os mc hist =
     (case openModelFile os mc of
        (None, mc) \<Rightarrow> Some (False, mc, hist)
      | (Some modelSize, mc) \<Rightarrow>
          (case createSharedMemory os modelSize mc hist of
             (False, mc, hist) \<Rightarrow> Some (False, mc, hist)
           | (True, mc, hist) \<Rightarrow>
               map_option (\<lambda>(ok, hist). (ok, mc, hist)) (loadModelIntoSharedMemory os modelSize mc hist)))"

text \<open>\<^verbatim>\<open>cleanup\<close>, also the destructor: everything is released and both names unlinked.\<close>

definition mcCleanup :: "ModelCache \<Rightarrow> shm list \<Rightarrow> ModelCache \<times> shm list" where
  "mcCleanup mc hist =
     (let mc = mc\<lparr>mc_shmSize := 0, mc_metaSize := 0, mc_shmFd := False, mc_metaFd := False,
                  mc_modelFd := False\<rparr>
      in if mc_shmName mc = [] then (mc, hist)
         else (mc, (hd hist)(mc_shmName mc := None, shmMetaName (mc_shmName mc) := None)
                    # (hd hist)(mc_shmName mc := None) # hist))"

definition mcRequestStop :: "ModelCache \<Rightarrow> ModelCache" where
  "mcRequestStop mc = mc\<lparr>mc_stopRequested := True\<rparr>"

text \<open>\<^verbatim>\<open>waitUntilStopped\<close>: \<^verbatim>\<open>pause\<close> returns once per signal; the list says which of them asked to stop.\<close>

fun mcWaitUntilStopped :: "bool list \<Rightarrow> ModelCache \<Rightarrow> ModelCache option" where
  "mcWaitUntilStopped sigs mc =
     (if mc_stopRequested mc then Some mc
      else case sigs of
        [] \<Rightarrow> None
      | s # sigs' \<Rightarrow> mcWaitUntilStopped sigs' (if s then mcRequestStop mc else mc))"

section \<open>The command line\<close>

record ModelCacheConfig =
  mcc_modelPath :: string
  mcc_shmName :: string
  mcc_runNonce :: "64 word"

fun mcParseArgs :: "string list \<Rightarrow> ModelCacheConfig \<Rightarrow> string + ModelCacheConfig" where
  "mcParseArgs [] c = Inr c"
| "mcParseArgs (arg # rest) c =
     (if arg = ''--model-path'' \<and> rest \<noteq> [] then
        mcParseArgs (tl rest) (c\<lparr>mcc_modelPath := hd rest\<rparr>)
      else if starts_with ''--model-path='' arg then
        mcParseArgs rest (c\<lparr>mcc_modelPath := drop (length ''--model-path='') arg\<rparr>)
      else if arg = ''--shm-name'' \<and> rest \<noteq> [] then
        mcParseArgs (tl rest) (c\<lparr>mcc_shmName := hd rest\<rparr>)
      else if starts_with ''--shm-name='' arg then
        mcParseArgs rest (c\<lparr>mcc_shmName := drop (length ''--shm-name='') arg\<rparr>)
      else if arg = ''--run-nonce'' \<and> rest \<noteq> [] then
        mcParseArgs (tl rest) (c\<lparr>mcc_runNonce := strtoull (hd rest)\<rparr>)
      else if starts_with ''--run-nonce='' arg then
        mcParseArgs rest (c\<lparr>mcc_runNonce := strtoull (drop (length ''--run-nonce='') arg)\<rparr>)
      else Inl arg)"

text \<open>\<^verbatim>\<open>main\<close> up to the construction of the cache: \<open>Inl\<close> is the exit code of a rejected command line.\<close>

definition mcMain :: "environ \<Rightarrow> string list \<Rightarrow> 64 word \<Rightarrow> int + ModelCacheConfig" where
  "mcMain env args fresh =
     (case mcParseArgs args \<lparr>mcc_modelPath = [], mcc_shmName = shmNameEnv env, mcc_runNonce = 0\<rparr> of
        Inl unknown \<Rightarrow> Inl 1
      | Inr c \<Rightarrow>
          if mcc_modelPath c = [] then Inl 1
          else if mcc_shmName c = [] then Inl 1
          else Inr (if mcc_runNonce c = 0 then c\<lparr>mcc_runNonce := fresh\<rparr> else c))"

section \<open>What a reader sees\<close>

text \<open>One look of \<^verbatim>\<open>waitForModelReady\<close>: an object shorter than a header is not even mapped.\<close>

definition observeHeader :: "shm \<Rightarrow> string \<Rightarrow> 64 word \<Rightarrow> ModelReadyState" where
  "observeHeader s name nonce =
     (case s (shmMetaName name) of
        None \<Rightarrow> KMalformed
      | Some bytes \<Rightarrow>
          if length bytes < kHeaderSize then KMalformed
          else evaluateModelHeader (Some bytes) kHeaderSize nonce)"

text \<open>The nonce in whatever an earlier run left, once the object has the size of a header.\<close>

definition staleNonce :: "shm \<Rightarrow> string \<Rightarrow> 64 word" where
  "staleNonce s name =
     (let bytes = (case s (shmMetaName name) of None \<Rightarrow> [] | Some bs \<Rightarrow> bs)
      in hdr_runNonce (readHeader (take kHeaderSize bytes @ replicate (kHeaderSize - length bytes) 0)))"

lemma peek_take_pad: "off + n \<le> k \<Longrightarrow> k \<le> length bs \<Longrightarrow> peek off n (take k bs) = peek off n bs"
  by (simp add: peek_def drop_take min_def)

lemma observe_fresh:
  assumes "hdr_runNonce (readHeader bytes) \<noteq> nonce"
  shows "evaluateModelHeader (Some bytes) kHeaderSize nonce \<noteq> KReady"
  using assms by (simp add: evaluateModelHeader_def Let_def)

lemma observe_unready:
  assumes "peek 36 1 bytes = [0]"
  shows "evaluateModelHeader (Some bytes) kHeaderSize nonce \<noteq> KReady"
proof -
  have "hdr_ready (readHeader bytes) = 0" using assms by (simp add: readHeader_def)
  then show ?thesis by (simp add: evaluateModelHeader_def Let_def)
qed

lemma observe_stale:
  assumes "staleNonce s name \<noteq> nonce"
  shows "observeHeader s name nonce \<noteq> KReady"
proof (cases "s (shmMetaName name)")
  case None
  then show ?thesis by (simp add: observeHeader_def)
next
  case (Some bytes)
  have "hdr_runNonce (readHeader bytes) \<noteq> nonce" if "kHeaderSize \<le> length bytes"
    using assms Some that
    by (simp add: staleNonce_def readHeader_def peek_take_pad kHeaderSize_def Let_def)
  with Some show ?thesis by (simp add: observeHeader_def observe_fresh)
qed

text \<open>No snapshot of the history shows a ready header to a reader that waits for \<open>nonce\<close>.\<close>

definition quietHistory :: "string \<Rightarrow> 64 word \<Rightarrow> shm list \<Rightarrow> bool" where
  "quietHistory name nonce hist \<longleftrightarrow> hist \<noteq> [] \<and> (\<forall>s \<in> set hist. observeHeader s name nonce \<noteq> KReady)"

lemma quiet_put_other:
  "n \<noteq> shmMetaName name \<Longrightarrow> quietHistory name nonce hist \<Longrightarrow> quietHistory name nonce (put n bs hist)"
  by (cases hist) (auto simp: quietHistory_def put_def observeHeader_def)

lemma quiet_put_meta:
  "evaluateModelHeader (Some bs) kHeaderSize nonce \<noteq> KReady \<Longrightarrow> quietHistory name nonce hist \<Longrightarrow>
   quietHistory name nonce (put (shmMetaName name) bs hist)"
  by (auto simp: quietHistory_def put_def observeHeader_def)

lemma hd_put [simp]: "hd (put name bs hist) = (hd hist)(name \<mapsto> bs)"
  by (simp add: put_def)

lemma store_eq: "hd hist name = Some m \<Longrightarrow> store name off bs hist = put name (poke off bs m) hist"
  by (simp add: store_def)

text \<open>The header after \<^verbatim>\<open>claimHeader\<close>, whatever was there before.\<close>

definition claimedBytes :: "64 word \<Rightarrow> byte list" where
  "claimedBytes nonce =
     poke 36 [0] (poke 40 (le_bytes 8 (unat nonce))
       (poke 32 (le_bytes 4 (unat kSharedModelHeaderVersion))
         (poke 0 edgeMagic (replicate kHeaderSize 0))))"

lemma poke_all: "length bs = length m \<Longrightarrow> poke 0 bs m = bs"
  by (simp add: poke_def)

lemmas peek_pokes = peek_poke_same peek_poke_below peek_poke_above

lemma peek_zeros: "off + n \<le> k \<Longrightarrow> peek off n (replicate k 0) = replicate n 0"
  by (simp add: peek_def)

lemma claimed_stages:
  "peek 36 1 (replicate 256 (0::byte)) = [0]"
  "peek 36 1 (poke 0 edgeMagic (replicate 256 0)) = [0]"
  "peek 36 1 (poke 32 (le_bytes 4 v) (poke 0 edgeMagic (replicate 256 0))) = [0]"
  "peek 36 1 (poke 40 (le_bytes 8 x) (poke 32 (le_bytes 4 v) (poke 0 edgeMagic (replicate 256 0)))) = [0]"
  "peek 36 1 (claimedBytes nonce) = [0]" "length (claimedBytes nonce) = 256"
  by (simp_all add: claimedBytes_def peek_pokes peek_zeros edgeMagic_def kHeaderSize_def)

lemma claimHeader_eq:
  assumes "hd hist (shmMetaName (mc_shmName mc)) = Some m" and "length m = kHeaderSize"
  shows "claimHeader mc hist =
    (let p = put (shmMetaName (mc_shmName mc)); z = replicate kHeaderSize 0;
         v = le_bytes 4 (unat kSharedModelHeaderVersion); x = le_bytes 8 (unat (mc_runNonce mc))
     in p (claimedBytes (mc_runNonce mc)) (p (poke 40 x (poke 32 v (poke 0 edgeMagic z)))
          (p (poke 32 v (poke 0 edgeMagic z)) (p (poke 0 edgeMagic z) (p z hist)))))"
  using assms by (simp add: claimHeader_def Let_def store_eq poke_all claimedBytes_def)

lemma claimHeader_quiet:
  assumes "hd hist (shmMetaName (mc_shmName mc)) = Some m" and "length m = kHeaderSize"
    and "quietHistory (mc_shmName mc) nonce hist"
  shows "quietHistory (mc_shmName mc) nonce (claimHeader mc hist)"
    and "hd (claimHeader mc hist) = (hd hist)(shmMetaName (mc_shmName mc) \<mapsto> claimedBytes (mc_runNonce mc))"
proof -
  show "quietHistory (mc_shmName mc) nonce (claimHeader mc hist)"
    unfolding claimHeader_eq [OF assms(1,2)] Let_def kHeaderSize_def
    by (intro quiet_put_meta observe_unready claimed_stages assms(3))
  show "hd (claimHeader mc hist) = (hd hist)(shmMetaName (mc_shmName mc) \<mapsto> claimedBytes (mc_runNonce mc))"
    by (simp add: claimHeader_eq [OF assms(1,2)] Let_def)
qed

text \<open>Preparing the two objects.\<close>

lemma padded_quiet:
  assumes "staleNonce s name \<noteq> nonce" and "bytes = (case s (shmMetaName name) of None \<Rightarrow> [] | Some bs \<Rightarrow> bs)"
  shows "evaluateModelHeader (Some (take kHeaderSize bytes @ replicate (kHeaderSize - length bytes) 0))
           kHeaderSize nonce \<noteq> KReady"
  using assms by (intro observe_fresh) (simp add: staleNonce_def Let_def)

lemma quiet_empty: "evaluateModelHeader (Some []) kHeaderSize nonce \<noteq> KReady"
  by (simp add: evaluateModelHeader_def readHeader_def peek_def edgeMagic_def Let_def)

lemma stale_create:
  "staleNonce (hd (shmCreate (shmMetaName name) [s])) name = staleNonce s name"
  by (simp add: shmCreate_def staleNonce_def split: option.split)

lemma createSharedMemory_quiet:
  assumes stale: "staleNonce s (mc_shmName mc) \<noteq> nonce"
    and run: "createSharedMemory os modelSize mc [s] = (ok, mc', hist)"
  shows "quietHistory (mc_shmName mc) nonce hist"
    and "mc_shmName mc' = mc_shmName mc" and "mc_runNonce mc' = mc_runNonce mc"
    and "ok \<Longrightarrow> hd hist (shmMetaName (mc_shmName mc)) = Some (claimedBytes (mc_runNonce mc)) \<and>
                hd hist (mc_shmName mc) = Some (replicate modelSize 0)"
proof -
  let ?n = "mc_shmName mc" and ?m = "shmMetaName (mc_shmName mc)"
  let ?h0 = "shmCreate ?m [s]"
  let ?bs = "case s ?m of None \<Rightarrow> [] | Some bs \<Rightarrow> bs"
  let ?pad = "take kHeaderSize ?bs @ replicate (kHeaderSize - length ?bs) 0"
  let ?h1 = "shmResize ?m kHeaderSize ?h0"
  have q: "quietHistory ?n nonce [s]" using stale by (simp add: quietHistory_def observe_stale)
  then have q0: "quietHistory ?n nonce ?h0"
    by (auto simp: shmCreate_def quiet_put_meta quiet_empty split: option.split)
  have h1: "?h1 = put ?m ?pad ?h0"
    by (simp add: shmResize_def shmCreate_def split: option.split)
  have q1: "quietHistory ?n nonce ?h1"
    unfolding h1 by (intro quiet_put_meta padded_quiet [OF stale] q0 refl)
  have m1: "hd ?h1 ?m = Some ?pad" "length ?pad = kHeaderSize" by (simp_all add: h1)
  let ?mc = "mc\<lparr>mc_metaFd := True, mc_metaSize := kHeaderSize\<rparr>"
  let ?h2 = "claimHeader ?mc ?h1"
  have c: "quietHistory ?n nonce ?h2" "hd ?h2 ?m = Some (claimedBytes (mc_runNonce mc))"
    using claimHeader_quiet [of ?h1 ?mc ?pad nonce] m1 q1 by simp_all
  let ?h3 = "shmCreate ?n ?h2"
  have c3: "quietHistory ?n nonce ?h3" "hd ?h3 ?m = Some (claimedBytes (mc_runNonce mc))"
    using c by (auto simp: shmCreate_def quiet_put_other split: option.split)
  let ?h4 = "shmResize ?n modelSize ?h3"
  have c4: "quietHistory ?n nonce ?h4" "hd ?h4 ?m = Some (claimedBytes (mc_runNonce mc))"
    "\<exists>w. hd ?h4 ?n = Some w \<and> length w = modelSize"
    using c3 by (simp_all add: shmResize_def Let_def quiet_put_other)
  let ?h5 = "store ?n 0 (replicate modelSize 0) ?h4"
  have c5: "quietHistory ?n nonce ?h5" "hd ?h5 ?m = Some (claimedBytes (mc_runNonce mc))"
    "hd ?h5 ?n = Some (replicate modelSize 0)"
    using c4 by (auto simp: store_eq quiet_put_other poke_all)
  show "quietHistory ?n nonce hist" "mc_shmName mc' = ?n" "mc_runNonce mc' = mc_runNonce mc"
    "ok \<Longrightarrow> hd hist ?m = Some (claimedBytes (mc_runNonce mc)) \<and> hd hist ?n = Some (replicate modelSize 0)"
    using run q q0 q1 c(1) c3(1) c4(1) c5
    by (auto simp: createSharedMemory_def Let_def split: if_splits)
qed

text \<open>The copy loop writes the file into the weights and nothing else.\<close>

lemma take_chunk: "chunk = take j (drop k f) \<Longrightarrow> take k f @ chunk = take (k + length chunk) f"
proof -
  assume "chunk = take j (drop k f)"
  then have "chunk = take (length chunk) (drop k f)" by (auto simp: min_def)
  then show ?thesis by (metis take_add)
qed

lemma poke_extend:
  assumes "take k w = take k f" and "k \<le> length w" and "k \<le> length f"
    and "chunk = take j (drop k f)"
  shows "take (k + length chunk) (poke k chunk w) = take (k + length chunk) f"
proof -
  have "length (take k w) = k" using assms(2) by simp
  then have "take (k + length chunk) (poke k chunk w) = take k w @ chunk"
    by (simp add: poke_def)
  also have "\<dots> = take (k + length chunk) f"
    using take_chunk [OF assms(4)] assms(1) by simp
  finally show ?thesis .
qed

lemma copyLoop_spec:
  assumes "copyLoop name src n rs k c hist = Some (res, hist')"
    and "hd hist name = Some w" and "length w = n" and "take k w = take k src"
    and "k \<le> length src" and "k \<le> n" and "c = updateChecksum kFnvOffsetBasis (take k src)"
    and "hd hist (shmMetaName name) = Some m" and "quietHistory name nonce hist"
  shows "quietHistory name nonce hist' \<and> hd hist' (shmMetaName name) = Some m \<and>
    (case res of Inl u \<Rightarrow> True
     | Inr c' \<Rightarrow> hd hist' name = Some (take n src) \<and> n \<le> length src \<and>
                 c' = updateChecksum kFnvOffsetBasis (take n src))"
  using assms
proof (induction name src n rs k c hist arbitrary: w rule: copyLoop.induct)
  case (1 name src n rs k c hist)
  note step = "1.prems"(1) [unfolded copyLoop.simps [of name src n rs k c hist]]
  show ?case
  proof (cases "n \<le> k")
    case True
    with "1.prems" step have "w = take n src" by simp
    with True "1.prems" step show ?thesis by auto
  next
    case False
    show ?thesis
    proof (cases rs)
      case Nil
      with False step show ?thesis by simp
    next
      case (Cons r rs')
      show ?thesis
      proof (cases r)
        case ReadInterrupted
        show ?thesis
          by (rule "1.IH"(2) [OF False Cons ReadInterrupted, where w = w])
            (use False Cons ReadInterrupted step "1.prems" in simp_all)
      next
        case ReadFailed
        with False Cons step "1.prems" show ?thesis by auto
      next
        case (ReadUpTo j)
        define chunk where "chunk = take (min j (min 1048576 (n - k))) (drop k src)"
        have rec: "copyLoop name src n rs' (k + length chunk) (updateChecksum c chunk)
            (store name k chunk hist) = Some (res, hist')" if "chunk \<noteq> []"
          using step False that unfolding Cons ReadUpTo chunk_def
          by (simp only: list.case read_outcome.case if_False Let_def)
        have chunk: "k + length chunk \<le> n" "k + length chunk \<le> length src"
          using False "1.prems"(5) by (auto simp: chunk_def)
        have w': "hd (store name k chunk hist) name = Some (poke k chunk w)"
          using "1.prems"(2) by (simp add: store_eq)
        show ?thesis
        proof (cases "chunk = []")
          case True
          with step False Cons ReadUpTo "1.prems" show ?thesis by (auto simp: chunk_def Let_def)
        next
          case nonempty: False
          have ext: "take (k + length chunk) (poke k chunk w) = take (k + length chunk) src"
            using "1.prems" by (intro poke_extend [where j = "min j (min 1048576 (n - k))"])
              (simp_all add: chunk_def)
          have "take k src @ chunk = take (k + length chunk) src"
            using take_chunk [OF chunk_def] .
          then have "updateChecksum c chunk = updateChecksum kFnvOffsetBasis (take (k + length chunk) src)"
            using "1.prems"(7) by (metis updateChecksum_append)
          note ck = this
          show ?thesis
            by (rule "1.IH"(1) [OF False Cons ReadUpTo refl, folded chunk_def, OF refl nonempty,
                where w = "poke k chunk w"])
              (use rec nonempty ext chunk w' ck "1.prems" in \<open>simp_all add: store_eq quiet_put_other\<close>)
        qed
      qed
    qed
  qed
qed

text \<open>The copy loop ends. If no \<^verbatim>\<open>read\<close> fails or hits the end of the file early, then as many data
  deliveries as there are bytes left are enough for it to return the checksum, whatever number of
  interrupted reads lies between them and however short each delivery is.\<close>

theorem copy_loop_terminates:
  assumes "list_all (\<lambda>r. r \<noteq> ReadFailed \<and> r \<noteq> ReadUpTo 0) rs"
    and "n - k \<le> length (filter (\<lambda>r. r \<noteq> ReadInterrupted) rs)" and "n \<le> length src"
  shows "\<exists>c' hist'. copyLoop name src n rs k c hist = Some (Inr c', hist')"
  using assms
proof (induction rs arbitrary: k c hist)
  case Nil
  then show ?case by (simp add: copyLoop.simps)
next
  case (Cons r rs)
  show ?case
  proof (cases "n \<le> k")
    case True
    then show ?thesis by (simp add: copyLoop.simps)
  next
    case False
    show ?thesis
    proof (cases r)
      case (ReadUpTo j)
      let ?chunk = "take (min j (min 1048576 (n - k))) (drop k src)"
      have "length ?chunk = min j (min 1048576 (n - k))" "0 < j"
        using Cons.prems ReadUpTo by auto
      then have pos: "0 < length ?chunk" using False by simp
      have "n - (k + length ?chunk) \<le> length (filter (\<lambda>r. r \<noteq> ReadInterrupted) rs)"
        using Cons.prems(2) ReadUpTo pos by (simp add: diff_add_inverse2) linarith
      then obtain c' hist' where "copyLoop name src n rs (k + length ?chunk) (updateChecksum c ?chunk)
          (store name k ?chunk hist) = Some (Inr c', hist')"
        using Cons by fastforce
      then show ?thesis
        using False ReadUpTo pos by (simp add: copyLoop.simps [of name src n "ReadUpTo j # rs"] Let_def)
    next
      case ReadInterrupted
      then show ?thesis
        using Cons False by (simp add: copyLoop.simps [of name src n "ReadInterrupted # rs"])
    next
      case ReadFailed
      with Cons.prems show ?thesis by simp
    qed
  qed
qed

text \<open>The published header, field by field.\<close>

definition publishedBytes :: "64 word \<Rightarrow> nat \<Rightarrow> 64 word \<Rightarrow> 64 word \<Rightarrow> byte list" where
  "publishedBytes nonce n checksum loadedAt =
     poke 36 [1] (poke 24 (le_bytes 8 (unat loadedAt)) (poke 16 (le_bytes 8 (unat checksum))
       (poke 8 (le_bytes 8 n) (claimedBytes nonce))))"

lemma word_le_roundtrip: "word_of_nat (le_nat (le_bytes 8 (unat w))) = (w :: 64 word)"
proof -
  have "unat w < 2 ^ 64" using unsigned_less [of w, where 'a = nat] by simp
  then show ?thesis by (simp add: le_nat_le_bytes)
qed

lemma published_fields:
  shows "readHeader (publishedBytes nonce n checksum loadedAt) =
    \<lparr>hdr_magic = edgeMagic @ [0, 0, 0, 0], hdr_modelSize = word_of_nat n, hdr_checksum = checksum,
     hdr_loadedAt = loadedAt, hdr_version = 2, hdr_ready = 1, hdr_runNonce = nonce\<rparr>"
    and "length (publishedBytes nonce n checksum loadedAt) = kHeaderSize"
proof -
  let ?n = "le_bytes 8 n" and ?c = "le_bytes 8 (unat checksum)" and ?l = "le_bytes 8 (unat loadedAt)"
    and ?x = "le_bytes 8 (unat nonce)" and ?v = "le_bytes 4 (unat kSharedModelHeaderVersion)"
  have le: "word_of_nat (le_nat ?n) = (word_of_nat n :: 64 word)"
    by (simp add: le_nat_le_bytes word_of_nat_eq_iff take_bit_eq_mod)
  have len: "length edgeMagic = 4" by (simp add: edgeMagic_def)
  have magic: "peek 0 8 (poke 0 edgeMagic (replicate 256 0)) = edgeMagic @ [0, 0, 0, 0]"
    by (simp add: peek_def poke_def len numeral_eq_Suc)
  have version: "word_of_nat (le_nat ?v) = (2 :: 32 word)"
    by (simp add: le_nat_le_bytes kSharedModelHeaderVersion_def)
  show "readHeader (publishedBytes nonce n checksum loadedAt) =
    \<lparr>hdr_magic = edgeMagic @ [0, 0, 0, 0], hdr_modelSize = word_of_nat n, hdr_checksum = checksum,
     hdr_loadedAt = loadedAt, hdr_version = 2, hdr_ready = 1, hdr_runNonce = nonce\<rparr>"
    unfolding readHeader_def publishedBytes_def claimedBytes_def kHeaderSize_def
    by (simp add: peek_pokes word_le_roundtrip le magic version len)
  show "length (publishedBytes nonce n checksum loadedAt) = kHeaderSize"
    by (simp add: publishedBytes_def claimed_stages kHeaderSize_def)
qed

lemma observe_published:
  assumes "t (shmMetaName name) = Some (publishedBytes nonce n checksum loadedAt)" and "nonce \<noteq> 0"
  shows "observeHeader t name nonce = KReady"
  using assms
  by (simp add: observeHeader_def published_fields evaluateModelHeader_def Let_def edgeMagic_def)

lemma load_spec:
  assumes run: "loadModelIntoSharedMemory os n mc hist = Some (ok, hist')"
    and m: "hd hist (shmMetaName (mc_shmName mc)) = Some (claimedBytes nonce)"
    and w: "hd hist (mc_shmName mc) = Some (replicate n 0)"
    and q: "quietHistory (mc_shmName mc) nonce' hist"
  shows "quietHistory (mc_shmName mc) nonce' hist' \<and> \<not> ok \<or>
    (\<exists>older. hist' \<noteq> [] \<and> tl hist' = older \<and> quietHistory (mc_shmName mc) nonce' older \<and>
      n \<le> length (os_file os) \<and> hd hist' (mc_shmName mc) = Some (take n (os_file os)) \<and>
      hd hist' (shmMetaName (mc_shmName mc)) =
        Some (publishedBytes nonce n (updateChecksum kFnvOffsetBasis (take n (os_file os))) (os_loadedAt os)))"
proof -
  let ?name = "mc_shmName mc" and ?meta = "shmMetaName (mc_shmName mc)"
  let ?m1 = "poke 8 (le_bytes 8 n) (claimedBytes nonce)"
  let ?h1 = "store ?meta 8 (le_bytes 8 n) hist"
  have unready: "peek 36 1 ?m1 = [0]"
    using claimed_stages by (simp only: peek_pokes length_le_bytes)
  have h1: "hd ?h1 ?meta = Some ?m1" "hd ?h1 ?name = Some (replicate n 0)" "quietHistory ?name nonce' ?h1"
    using m w q observe_unready [OF unready] by (simp_all add: store_eq quiet_put_meta)
  obtain res h2 where copy: "copyLoop ?name (os_file os) n (os_reads os) 0 kFnvOffsetBasis ?h1 = Some (res, h2)"
    using run by (auto simp: loadModelIntoSharedMemory_def Let_def split: option.splits)
  have c: "quietHistory ?name nonce' h2 \<and> hd h2 ?meta = Some ?m1 \<and>
    (case res of Inl u \<Rightarrow> True
     | Inr c' \<Rightarrow> hd h2 ?name = Some (take n (os_file os)) \<and> n \<le> length (os_file os) \<and>
                 c' = updateChecksum kFnvOffsetBasis (take n (os_file os)))"
    using h1 by (intro copyLoop_spec [OF copy, where w = "replicate n 0"]) simp_all
  show ?thesis
  proof (cases res)
    case (Inl u)
    with run copy c show ?thesis by (simp add: loadModelIntoSharedMemory_def Let_def)
  next
    case (Inr sum)
    let ?m2 = "poke 16 (le_bytes 8 (unat sum)) ?m1"
    let ?m3 = "poke 24 (le_bytes 8 (unat (os_loadedAt os))) ?m2"
    let ?h3 = "put ?meta ?m3 (put ?meta ?m2 h2)"
    have "peek 36 1 ?m2 = [0]" "peek 36 1 ?m3 = [0]"
      using unready claimed_stages(6) by (simp_all only: peek_pokes length_le_bytes length_poke)
    then have q3: "quietHistory ?name nonce' ?h3"
      using c by (intro quiet_put_meta observe_unready) simp_all
    have "hist' = put ?meta (poke 36 [1] ?m3) ?h3"
      using run copy c Inr by (simp add: loadModelIntoSharedMemory_def Let_def store_eq)
    with q3 c Inr show ?thesis
      by (intro disjI2 exI [of _ ?h3]) (simp add: put_def publishedBytes_def)
  qed
qed

text \<open>One statement for the whole of \<^verbatim>\<open>initialize\<close>: either no snapshot is ready, or exactly the last one is.\<close>

definition publishedState :: "cache_os \<Rightarrow> string \<Rightarrow> 64 word \<Rightarrow> nat \<Rightarrow> shm \<Rightarrow> bool" where
  "publishedState os name nonce n t \<longleftrightarrow>
     os_stat os = Some (int n) \<and> n \<le> length (os_file os) \<and> t name = Some (take n (os_file os)) \<and>
     t (shmMetaName name) =
       Some (publishedBytes nonce n (updateChecksum kFnvOffsetBasis (take n (os_file os))) (os_loadedAt os))"

lemma initialize_spec:
  assumes stale: "staleNonce s (mc_shmName mc) \<noteq> nonce"
    and run: "mcInitialize os mc [s] = Some (ok, mc', hist)"
  shows "quietHistory (mc_shmName mc) nonce hist \<and> \<not> ok \<or>
    (\<exists>n. hist \<noteq> [] \<and> quietHistory (mc_shmName mc) nonce (tl hist) \<and>
         publishedState os (mc_shmName mc) (mc_runNonce mc) n (hd hist))"
proof -
  have q: "quietHistory (mc_shmName mc) nonce [s]" using stale by (simp add: quietHistory_def observe_stale)
  obtain size1 mc1 where opened: "openModelFile os mc = (size1, mc1)" by force
  then have names: "mc_shmName mc1 = mc_shmName mc" "mc_runNonce mc1 = mc_runNonce mc"
    by (auto simp: openModelFile_def Let_def split: if_splits option.splits)
  show ?thesis
  proof (cases size1)
    case None
    with run opened q show ?thesis by (simp add: mcInitialize_def)
  next
    case (Some n)
    then have stat: "os_stat os = Some (int n)"
      using opened by (auto simp: openModelFile_def Let_def split: if_splits option.splits)
    obtain ok2 mc2 h2 where made: "createSharedMemory os n mc1 [s] = (ok2, mc2, h2)" by (metis prod_cases3)
    note c = createSharedMemory_quiet [OF _ made, of nonce, unfolded names, OF stale]
    show ?thesis
    proof (cases ok2)
      case False
      with run opened Some made c(1) show ?thesis by (simp add: mcInitialize_def)
    next
      case True
      with run opened Some made have "loadModelIntoSharedMemory os n mc2 h2 = Some (ok, hist)"
        by (auto simp: mcInitialize_def)
      from load_spec [OF this, of "mc_runNonce mc" nonce] c True stat show ?thesis
        by (auto simp: publishedState_def)
    qed
  qed
qed

section \<open>The handshake\<close>

lemma ready_complete:
  assumes "staleNonce s (mc_shmName mc) \<noteq> mc_runNonce mc"
    and "mcInitialize os mc [s] = Some (ok, mc', hist)"
    and "t \<in> set hist" and "observeHeader t (mc_shmName mc) (mc_runNonce mc) = KReady"
  shows "\<exists>n header. os_stat os = Some (int n) \<and> n \<le> length (os_file os) \<and>
    t (mc_shmName mc) = Some (take n (os_file os)) \<and>
    map_option readHeader (t (shmMetaName (mc_shmName mc))) = Some header \<and>
    hdr_modelSize header = of_nat n \<and>
    hdr_checksum header = updateChecksum kFnvOffsetBasis (take n (os_file os))"
  using initialize_spec [OF assms(1,2)]
proof (elim disjE exE conjE)
  assume "quietHistory (mc_shmName mc) (mc_runNonce mc) hist"
  then show ?thesis using assms(3,4) by (auto simp: quietHistory_def list_all_iff)
next
  fix n
  assume h: "hist \<noteq> []" "quietHistory (mc_shmName mc) (mc_runNonce mc) (tl hist)"
    and pub: "publishedState os (mc_shmName mc) (mc_runNonce mc) n (hd hist)"
  have "t \<notin> set (tl hist)" using h(2) assms(4) by (auto simp: quietHistory_def list_all_iff)
  then have "t = hd hist" using h(1) assms(3) by (cases hist) auto
  with pub show ?thesis by (auto simp: publishedState_def published_fields)
qed

text \<open>C1: a reader that waits for this run's nonce never sees a half-written model. Whatever an earlier
  run left in the two shared-memory objects, in every state between two stores of \<^verbatim>\<open>initialize\<close> in which
  \<^verbatim>\<open>evaluateModelHeader\<close> answers ready, the weights object holds the first \<^verbatim>\<open>st_size\<close> bytes of the model
  file, and the header carries that size and the FNV checksum of exactly those bytes.\<close>

theorem ready_implies_complete_model:
  assumes "staleNonce s (mc_shmName mc) \<noteq> mc_runNonce mc"
    and "mcInitialize os mc [s] = Some (ok, mc', hist)"
  shows "list_all (\<lambda>t. observeHeader t (mc_shmName mc) (mc_runNonce mc) \<noteq> KReady \<or>
           (\<exists>n header. os_stat os = Some (int n) \<and> n \<le> length (os_file os) \<and>
                t (mc_shmName mc) = Some (take n (os_file os)) \<and>
                map_option readHeader (t (shmMetaName (mc_shmName mc))) = Some header \<and>
                hdr_modelSize header = of_nat n \<and>
                hdr_checksum header = updateChecksum kFnvOffsetBasis (take n (os_file os)))) hist"
  using ready_complete [OF assms] by (force simp: list_all_iff)

definition demoCache :: ModelCache where
  "demoCache = \<lparr>mc_modelPath = ''/m.gguf'', mc_shmName = ''/edge'', mc_runNonce = 7,
     mc_stopRequested = False, mc_modelFd = False, mc_shmFd = False, mc_metaFd = False,
     mc_shmSize = 0, mc_metaSize = 0\<rparr>"

definition demoCacheOs :: cache_os where
  "demoCacheOs = \<lparr>os_open = True, os_stat = Some 3, os_metaOpen = True, os_metaTruncate = True,
     os_metaMap = True, os_shmOpen = True, os_shmTruncate = True, os_shmMap = True,
     os_file = [1, 2, 3, 4], os_reads = [ReadInterrupted, ReadUpTo 2, ReadUpTo 9], os_loadedAt = 5,
     os_syncShm = True, os_syncMeta = True\<rparr>"

lemma demo_initialize:
  "\<exists>mc' hist. mcInitialize demoCacheOs demoCache [Map.empty] = Some (True, mc', hist)"
  by (simp add: mcInitialize_def openModelFile_def demoCacheOs_def demoCache_def Let_def
      createSharedMemory_def loadModelIntoSharedMemory_def copyLoop.simps)

lemma demo_stale: "staleNonce Map.empty (mc_shmName demoCache) \<noteq> mc_runNonce demoCache"
  by (simp add: staleNonce_def demoCache_def readHeader_def kHeaderSize_def peek_zeros)

theorem ready_implies_complete_model_witness:
  "\<exists>mc' hist. mcInitialize demoCacheOs demoCache [Map.empty] = Some (True, mc', hist) \<and>
     list_all (\<lambda>t. observeHeader t ''/edge'' 7 \<noteq> KReady \<or> t ''/edge'' = Some [1, 2, 3]) hist"
proof -
  obtain mc' hist where run: "mcInitialize demoCacheOs demoCache [Map.empty] = Some (True, mc', hist)"
    using demo_initialize by blast
  from ready_implies_complete_model [OF demo_stale this] run show ?thesis
    by (intro exI [of _ mc'] exI [of _ hist]) (auto simp: list_all_iff demoCache_def demoCacheOs_def)
qed

text \<open>When \<^verbatim>\<open>initialize\<close> reports success, the handshake completes: the last state shows the reader of
  this run a ready header, and every earlier one does not, so the flag is raised exactly once and last.\<close>

theorem successful_load_is_published_last:
  assumes "staleNonce s (mc_shmName mc) \<noteq> mc_runNonce mc" and "mc_runNonce mc \<noteq> 0"
    and "mcInitialize os mc [s] = Some (True, mc', hist)"
  shows "observeHeader (hd hist) (mc_shmName mc) (mc_runNonce mc) = KReady \<and>
    list_all (\<lambda>t. observeHeader t (mc_shmName mc) (mc_runNonce mc) \<noteq> KReady) (tl hist)"
  using initialize_spec [OF assms(1,3)] assms(2)
  by (auto simp: publishedState_def observe_published quietHistory_def list_all_iff)

theorem successful_load_is_published_last_witness:
  "\<exists>mc' hist. mcInitialize demoCacheOs demoCache [Map.empty] = Some (True, mc', hist) \<and>
     observeHeader (hd hist) ''/edge'' 7 = KReady"
proof -
  obtain mc' hist where run: "mcInitialize demoCacheOs demoCache [Map.empty] = Some (True, mc', hist)"
    using demo_initialize by blast
  moreover have "mc_runNonce demoCache \<noteq> 0" by (simp add: demoCache_def)
  ultimately show ?thesis
    using successful_load_is_published_last [OF demo_stale _ run] by (auto simp: demoCache_def)
qed

theorem copy_loop_terminates_witness:
  "\<exists>sum hist'. copyLoop ''/edge'' [1, 2, 3] 3 [ReadInterrupted, ReadUpTo 1, ReadUpTo 1, ReadUpTo 5]
     0 kFnvOffsetBasis [Map.empty] = Some (Inr sum, hist')"
  by (rule copy_loop_terminates) simp_all

end
