(* ===== verification/Device_Backends.thy ===== *)
theory Device_Backends
  imports Ipc
begin

text \<open>
  \<^verbatim>\<open>backend/inference-worker/deviceBackends.*\<close>: the table of device tiers, the probe of each tier, the
  classification of vendor status codes into faults, and the health state of a tier as a name. The
  \<^verbatim>\<open>#if\<close> selections of the build are an argument, \<open>po_platform\<close>, so every branch is modelled; what the
  machine answers (readable paths, loadable libraries, environment) is the rest of the record.
\<close>

datatype DeviceFault = KNone | KUnavailable | KRemoved | KUnsupportedOp | KRuntimeError

datatype ProbeResult = KAvailable | KWrongPlatform | KRuntimeMissing | KDeviceMissing | KPolicyDisabled

datatype platform = Linux | Windows | MacOS

record probe_os =
  po_platform :: platform
  po_readable :: "string \<Rightarrow> bool"
  po_loads :: "string \<Rightarrow> bool"
  po_env :: environ

definition anyPathReadable :: "probe_os \<Rightarrow> string list \<Rightarrow> bool" where
  "anyPathReadable os paths = list_ex (po_readable os) paths"

section \<open>Probes\<close>

definition probeCpu :: "probe_os \<Rightarrow> ProbeResult" where
  "probeCpu os = KAvailable"

definition probeCuda :: "probe_os \<Rightarrow> ProbeResult" where
  "probeCuda os =
     (case po_platform os of
        Linux \<Rightarrow>
          if \<not> anyPathReadable os [''/dev/nvidiactl'', ''/dev/nvidia0''] then KDeviceMissing
          else KAvailable
      | Windows \<Rightarrow> if po_loads os ''nvcuda.dll'' then KAvailable else KRuntimeMissing
      | MacOS \<Rightarrow> KWrongPlatform)"

definition probeRocm :: "probe_os \<Rightarrow> ProbeResult" where
  "probeRocm os =
     (if po_platform os = Linux
      then if anyPathReadable os [''/dev/kfd''] then KAvailable else KDeviceMissing
      else KWrongPlatform)"

definition probeVulkan :: "probe_os \<Rightarrow> ProbeResult" where
  "probeVulkan os =
     (case po_platform os of
        Linux \<Rightarrow>
          if \<not> anyPathReadable os [''/dev/dri/renderD128'', ''/dev/dri/card0''] then KDeviceMissing
          else if anyPathReadable os [''/usr/lib/x86_64-linux-gnu/libvulkan.so.1'',
                 ''/usr/lib64/libvulkan.so.1'', ''/usr/lib/libvulkan.so.1'']
          then KAvailable else KRuntimeMissing
      | Windows \<Rightarrow> if po_loads os ''vulkan-1.dll'' then KAvailable else KRuntimeMissing
      | MacOS \<Rightarrow> KWrongPlatform)"

definition probeNpu :: "probe_os \<Rightarrow> ProbeResult" where
  "probeNpu os =
     (if po_platform os = Windows
      then if \<not> po_loads os ''QnnHtp.dll'' then KRuntimeMissing
        else if \<not> po_loads os ''dxcore.dll'' then KRuntimeMissing
        else KAvailable
      else KWrongPlatform)"

definition probeDirectMl :: "probe_os \<Rightarrow> ProbeResult" where
  "probeDirectMl os =
     (if po_platform os = Windows
      then if \<not> po_loads os ''DirectML.dll'' then KRuntimeMissing
        else if po_loads os ''d3d12.dll'' then KAvailable else KRuntimeMissing
      else KWrongPlatform)"

definition probeAne :: "probe_os \<Rightarrow> ProbeResult" where
  "probeAne os =
     (if po_platform os = MacOS
      then if \<not> anyPathReadable os [''/System/Library/Frameworks/CoreML.framework/CoreML'']
        then KRuntimeMissing
        else if anyPathReadable os [''/System/Library/PrivateFrameworks/ANECompiler.framework'',
               ''/usr/lib/libane.dylib'']
        then KAvailable else KDeviceMissing
      else KWrongPlatform)"

definition probeMetal :: "probe_os \<Rightarrow> ProbeResult" where
  "probeMetal os =
     (if po_platform os = MacOS
      then if anyPathReadable os [''/System/Library/Frameworks/Metal.framework/Metal'']
        then KAvailable else KRuntimeMissing
      else KWrongPlatform)"

definition probeAccelerate :: "probe_os \<Rightarrow> ProbeResult" where
  "probeAccelerate os =
     (if po_platform os = MacOS
      then if anyPathReadable os [''/System/Library/Frameworks/Accelerate.framework/Accelerate'']
        then KAvailable else KRuntimeMissing
      else KWrongPlatform)"

definition envIsSet :: "environ \<Rightarrow> string \<Rightarrow> bool" where
  "envIsSet env name = (case env name of None \<Rightarrow> False | Some value \<Rightarrow> value \<noteq> [])"

definition probeRemote :: "probe_os \<Rightarrow> ProbeResult" where
  "probeRemote os =
     (if \<not> envIsSet (po_env os) ''EDGE_SARVAM_API_KEY'' \<and> \<not> envIsSet (po_env os) ''EDGE_REMOTE_ENDPOINT''
      then KRuntimeMissing
      else if po_env os ''EDGE_REMOTE_FALLBACK_ALLOWED'' \<noteq> Some ''1'' then KPolicyDisabled
      else KAvailable)"

section \<open>The table\<close>

record DeviceBackend =
  be_name :: string
  be_platform :: string
  be_runtime :: string
  be_note :: string
  be_probe :: "probe_os \<Rightarrow> ProbeResult"

definition backendRow ::
  "string \<Rightarrow> string \<Rightarrow> string \<Rightarrow> string \<Rightarrow> (probe_os \<Rightarrow> ProbeResult) \<Rightarrow> DeviceBackend" where
  "backendRow n p r t f =
     \<lparr>be_name = n, be_platform = p, be_runtime = r, be_note = t, be_probe = f\<rparr>"

definition kBackends :: "DeviceBackend list" where
  "kBackends =
    [backendRow ''cpu'' ''any'' ''none'' ''always present, the floor of every ladder'' probeCpu,
     backendRow ''cuda'' ''linux'' ''/dev/nvidia*, nvcuda.dll'' ''NVIDIA GPU'' probeCuda,
     backendRow ''rocm'' ''linux'' ''/dev/kfd'' ''AMD GPU'' probeRocm,
     backendRow ''vulkan'' ''any'' ''libvulkan'' ''portable GPU compute'' probeVulkan,
     backendRow ''npu'' ''windows'' ''QnnHtp.dll, dxcore.dll'' ''Qualcomm Hexagon NPU'' probeNpu,
     backendRow ''directml'' ''windows'' ''DirectML.dll, d3d12.dll'' ''Windows GPU tier below the NPU''
       probeDirectMl,
     backendRow ''gpu'' ''windows'' ''DirectML.dll, d3d12.dll'' ''alias for directml'' probeDirectMl,
     backendRow ''ane'' ''macos'' ''CoreML.framework'' ''Apple Neural Engine'' probeAne,
     backendRow ''metal'' ''macos'' ''Metal.framework'' ''Apple GPU tier'' probeMetal,
     backendRow ''accelerate'' ''macos'' ''Accelerate.framework'' ''Apple CPU tier'' probeAccelerate,
     backendRow ''remote'' ''any'' ''EDGE_SARVAM_API_KEY'' ''cloud API, opt-in only'' probeRemote]"

fun probeResultName :: "ProbeResult \<Rightarrow> string" where
  "probeResultName KAvailable = ''available''"
| "probeResultName KWrongPlatform = ''wrong_platform''"
| "probeResultName KRuntimeMissing = ''runtime_missing''"
| "probeResultName KDeviceMissing = ''device_missing''"
| "probeResultName KPolicyDisabled = ''policy_disabled''"

definition findBackend :: "string \<Rightarrow> DeviceBackend option" where
  "findBackend name = List.find (\<lambda>b. name = be_name b) kBackends"

definition probeDevice :: "probe_os \<Rightarrow> string \<Rightarrow> ProbeResult" where
  "probeDevice os name =
     (case findBackend name of None \<Rightarrow> KRuntimeMissing | Some backend \<Rightarrow> be_probe backend os)"

definition knownBackends :: "string list" where
  "knownBackends = map be_name kBackends"

section \<open>Status codes\<close>

definition kDxgiDeviceRemoved :: "64 word" where "kDxgiDeviceRemoved = 0x887A0005"
definition kDxgiDeviceHung :: "64 word" where "kDxgiDeviceHung = 0x887A0006"
definition kDxgiDeviceReset :: "64 word" where "kDxgiDeviceReset = 0x887A0007"
definition kDxgiDriverInternalError :: "64 word" where "kDxgiDriverInternalError = 0x887A0020"
definition kDxgiNotCurrentlyAvailable :: "64 word" where "kDxgiNotCurrentlyAvailable = 0x887A0022"
definition kDxgiUnsupported :: "64 word" where "kDxgiUnsupported = 0x887A0004"
definition kWinErrorNotSupported :: "64 word" where "kWinErrorNotSupported = 50"
definition kWinErrorGenFailure :: "64 word" where "kWinErrorGenFailure = 31"
definition kWinErrorDeviceNotConnected :: "64 word" where "kWinErrorDeviceNotConnected = 1167"
definition kWinErrorDeviceRemoved :: "64 word" where "kWinErrorDeviceRemoved = 1617"

lemmas status_defs = kDxgiDeviceRemoved_def kDxgiDeviceHung_def kDxgiDeviceReset_def
  kDxgiDriverInternalError_def kDxgiNotCurrentlyAvailable_def kDxgiUnsupported_def
  kWinErrorNotSupported_def kWinErrorGenFailure_def kWinErrorDeviceNotConnected_def
  kWinErrorDeviceRemoved_def

definition faultFromDxgiStatus :: "64 word \<Rightarrow> DeviceFault" where
  "faultFromDxgiStatus status =
     (if status = 0 then KNone
      else if status = kDxgiDeviceRemoved \<or> status = kDxgiDeviceHung \<or> status = kDxgiDeviceReset
      then KRemoved
      else if status = kDxgiUnsupported then KUnsupportedOp
      else if status = kDxgiNotCurrentlyAvailable \<or> status = kDxgiDriverInternalError
      then KRuntimeError
      else KRuntimeError)"

definition faultFromWindowsError :: "64 word \<Rightarrow> DeviceFault" where
  "faultFromWindowsError code =
     (if code = 0 then KNone
      else if code = kWinErrorDeviceRemoved then KRemoved
      else if code = kWinErrorDeviceNotConnected then KUnavailable
      else if code = kWinErrorNotSupported then KUnsupportedOp
      else if code = kWinErrorGenFailure then KRuntimeError
      else if Bit_Operations.and code 0xFFFF0000 = 0x887A0000 then faultFromDxgiStatus code
      else KRuntimeError)"

text \<open>The division of C++ truncates towards zero.\<close>

definition cdiv :: "int \<Rightarrow> int \<Rightarrow> int" where
  "cdiv a b = sgn a * sgn b * (\<bar>a\<bar> div \<bar>b\<bar>)"

definition faultFromQnnStatus :: "int \<Rightarrow> DeviceFault" where
  "faultFromQnnStatus status =
     (if status = 0 then KNone
      else let family = cdiv status 1000 * 1000 in
        if family = 5000 then KRemoved
        else if family = 3000 then KUnsupportedOp
        else KRuntimeError)"

definition faultFromCoreMediaStatus :: "int \<Rightarrow> DeviceFault" where
  "faultFromCoreMediaStatus status =
     (if status = 0 then KNone
      else if status \<le> -12000 \<and> status > -13000 then KUnsupportedOp
      else KRuntimeError)"

definition faultFromRemoteStatus :: "int \<Rightarrow> DeviceFault" where
  "faultFromRemoteStatus status =
     (if status \<ge> 200 \<and> status < 300 then KNone
      else if status = 0 then KRuntimeError
      else if status \<in> {400, 413, 415, 422} then KUnsupportedOp
      else if status \<in> {401, 403, 404} then KUnavailable
      else KRuntimeError)"

definition faultFromCoreMlError :: "int \<Rightarrow> DeviceFault" where
  "faultFromCoreMlError code =
     (if code = 0 then KNone
      else if code \<in> {3, 6, 9} then KUnsupportedOp
      else KRuntimeError)"

section \<open>The state of a tier\<close>

definition upper_char :: "char \<Rightarrow> char" where
  "upper_char ch = (let k = of_char ch :: nat in if 97 \<le> k \<and> k \<le> 122 then char_of (k - 32) else ch)"

definition backendClassName :: "string \<Rightarrow> string" where
  "backendClassName tier =
     (if tier = ''cpu'' \<or> tier = ''accelerate'' then ''CPU''
      else if tier = ''cuda'' \<or> tier = ''rocm'' \<or> tier = ''vulkan'' \<or> tier = ''directml'' \<or>
              tier = ''gpu'' \<or> tier = ''metal'' then ''GPU''
      else if tier = ''npu'' then ''NPU''
      else if tier = ''ane'' then ''ANE''
      else if tier = ''remote'' then ''REMOTE''
      else let upper = map upper_char tier in if upper = [] then ''UNKNOWN'' else upper)"

definition backendAvailabilityState ::
  "string \<Rightarrow> ProbeResult \<Rightarrow> DeviceFault \<Rightarrow> bool \<Rightarrow> bool \<Rightarrow> string" where
  "backendAvailabilityState tier probe lastFault quarantined sessionFatal =
     (let prefix = backendClassName tier; benched = quarantined \<or> sessionFatal in
      if benched \<and> lastFault = KUnsupportedOp then prefix @ ''_UNSUPPORTED''
      else if benched then prefix @ ''_UNHEALTHY''
      else if probe = KAvailable then prefix @ ''_AVAILABLE''
      else prefix @ ''_UNAVAILABLE'')"

section \<open>What the tables promise\<close>

lemma probeDevice_cpu [simp]: "probeDevice os ''cpu'' = KAvailable"
  by (simp add: probeDevice_def findBackend_def kBackends_def backendRow_def probeCpu_def)

lemma probeDevice_remote: "probeDevice os ''remote'' = probeRemote os"
  by (simp add: probeDevice_def findBackend_def kBackends_def backendRow_def)

lemma find_backend_in_table:
  "findBackend name = Some b \<Longrightarrow> b \<in> set kBackends \<and> be_name b = name"
  unfolding findBackend_def by (auto simp: find_Some_iff)

lemma findBackend_iff: "findBackend name \<noteq> None \<longleftrightarrow> name \<in> set knownBackends"
  by (auto simp: findBackend_def knownBackends_def find_None_iff)

text \<open>The rows that name one operating system.\<close>

definition backendPlatform :: "string \<Rightarrow> platform option" where
  "backendPlatform p =
     (if p = ''linux'' then Some Linux else if p = ''windows'' then Some Windows
      else if p = ''macos'' then Some MacOS else None)"

lemma platform_probes:
  "probeNpu os = KAvailable \<Longrightarrow> po_platform os = Windows"
  "probeDirectMl os = KAvailable \<Longrightarrow> po_platform os = Windows"
  "probeRocm os = KAvailable \<Longrightarrow> po_platform os = Linux"
  "probeAne os = KAvailable \<Longrightarrow> po_platform os = MacOS"
  "probeMetal os = KAvailable \<Longrightarrow> po_platform os = MacOS"
  "probeAccelerate os = KAvailable \<Longrightarrow> po_platform os = MacOS"
  "probeCuda os = KAvailable \<Longrightarrow> po_platform os \<noteq> MacOS"
  by (auto simp: probeNpu_def probeDirectMl_def probeRocm_def probeAne_def probeMetal_def
      probeAccelerate_def probeCuda_def split: if_splits platform.splits)

lemma faultFromRemoteStatus_never_removed: "faultFromRemoteStatus status \<noteq> KRemoved"
  by (simp add: faultFromRemoteStatus_def)

lemma dxgi_high_word: "faultFromDxgiStatus s = KRemoved \<Longrightarrow> Bit_Operations.and s 0xFFFF0000 = 0x887A0000"
  by (auto simp: faultFromDxgiStatus_def status_defs split: if_splits)

text \<open>Only three status families take a device away for the session. Over all codes, the Windows
  mapper answers removed exactly for \<^verbatim>\<open>ERROR_DEVICE_REMOVED\<close> and for the three DXGI codes after which the
  device object is dead (also when an HRESULT is handed to it by mistake), the QNN mapper exactly for the
  device family 5000 to 5999, and the Core Media, Core ML and remote mappers never.\<close>

theorem removed_status_codes:
  "(faultFromWindowsError w = KRemoved) = (w \<in> {1617, 0x887A0005, 0x887A0006, 0x887A0007}) \<and>
   (faultFromQnnStatus q = KRemoved) = (5000 \<le> q \<and> q < 6000) \<and>
   faultFromCoreMediaStatus c \<noteq> KRemoved \<and> faultFromCoreMlError m \<noteq> KRemoved \<and>
   faultFromRemoteStatus r \<noteq> KRemoved"
proof -
  have win: "(faultFromWindowsError w = KRemoved) = (w \<in> {1617, 0x887A0005, 0x887A0006, 0x887A0007})"
    using dxgi_high_word [of w]
    by (auto simp: faultFromWindowsError_def faultFromDxgiStatus_def status_defs)
  have "cdiv q 1000 * 1000 = 5000 \<longleftrightarrow> 5000 \<le> q \<and> q < 6000"
    by (cases q "0 :: int" rule: linorder_cases) (auto simp: cdiv_def)
  then have "(faultFromQnnStatus q = KRemoved) = (5000 \<le> q \<and> q < 6000)"
    by (auto simp: faultFromQnnStatus_def Let_def)
  with win show ?thesis
    by (simp add: faultFromCoreMediaStatus_def faultFromCoreMlError_def faultFromRemoteStatus_never_removed)
qed

text \<open>The remote tier is never entered without consent. Whatever credentials the environment holds,
  the probe of the remote tier answers available only when \<^verbatim>\<open>EDGE_REMOTE_FALLBACK_ALLOWED\<close> is exactly 1 and
  an API key or an endpoint is configured.\<close>

theorem remote_requires_opt_in:
  "(probeDevice os ''remote'' = KAvailable) =
   (po_env os ''EDGE_REMOTE_FALLBACK_ALLOWED'' = Some ''1'' \<and>
    (envIsSet (po_env os) ''EDGE_SARVAM_API_KEY'' \<or> envIsSet (po_env os) ''EDGE_REMOTE_ENDPOINT''))"
  by (auto simp: probeDevice_remote probeRemote_def)

lemma backendAvailabilityState_healthy:
  "\<exists>prefix suffix. backendAvailabilityState tier probe fault q sf = prefix @ suffix \<and>
     suffix \<in> {''_UNSUPPORTED'', ''_UNHEALTHY'', ''_AVAILABLE'', ''_UNAVAILABLE''} \<and>
     (suffix = ''_AVAILABLE'' \<longleftrightarrow> \<not> q \<and> \<not> sf \<and> probe = KAvailable)"
  unfolding backendAvailabilityState_def Let_def
  by (rule exI [of _ "backendClassName tier"]) auto

end
