(* ===== verification/Device_Ladder.thy ===== *)
theory Device_Ladder
  imports Device_Backends
begin

text \<open>
  \<^verbatim>\<open>backend/inference-worker/deviceLadder.*\<close>: which device tier the worker runs on. The ladder reads a
  steady clock and probes tiers, so its operations thread a world \<open>'w\<close>; a clock reading and a probe
  are functions on that world. Times are nanoseconds of the steady clock. The contract of clock and
  probe is the locale \<open>ladder_world\<close>; it is interpreted on \<open>os_world\<close>, where the machine behind the
  probes may change arbitrarily with time. Log lines are not modelled, but the clock readings and the
  probes they trigger are.
\<close>

type_synonym 'w clock = "'w \<Rightarrow> int \<times> 'w"

fun deviceFaultName :: "DeviceFault \<Rightarrow> string" where
  "deviceFaultName KNone = ''none''"
| "deviceFaultName KUnavailable = ''device_unavailable''"
| "deviceFaultName KRemoved = ''device_removed''"
| "deviceFaultName KUnsupportedOp = ''unsupported_operation''"
| "deviceFaultName KRuntimeError = ''runtime_error''"

record DeviceTier =
  tier_name :: string
  tier_faults :: int
  tier_lastFault :: DeviceFault
  tier_sessionFatal :: bool
  tier_lastDetail :: string
  tier_quarantinedUntil :: int
  tier_probeCachedAt :: int
  tier_cacheValid :: bool
  tier_cachedProbe :: ProbeResult

record 'w DeviceLadder =
  lad_tiers :: "DeviceTier list"
  lad_activeIndex :: nat
  lad_baselineIndex :: nat
  lad_baselineSet :: bool
  lad_active :: string
  lad_degradedReason :: string
  lad_quarantine :: int
  lad_probeInterval :: int
  lad_probe :: "string \<Rightarrow> 'w \<Rightarrow> ProbeResult \<times> 'w"

section \<open>Building a ladder\<close>

definition is_blank :: "char \<Rightarrow> bool" where
  "is_blank c \<longleftrightarrow> c = CHR '' '' \<or> c = htab"

definition trim :: "string \<Rightarrow> string" where
  "trim s = rev (dropWhile is_blank (rev (dropWhile is_blank s)))"

definition parseDeviceLadder :: "string \<Rightarrow> string list" where
  "parseDeviceLadder csv =
     (let out = filter (\<lambda>name. name \<noteq> []) (map trim (split_lines CHR '','' csv))
      in if out = [] then [''cpu''] else out)"

definition freshTier :: "string \<Rightarrow> DeviceTier" where
  "freshTier name =
     \<lparr>tier_name = name, tier_faults = 0, tier_lastFault = KNone, tier_sessionFatal = False,
      tier_lastDetail = [], tier_quarantinedUntil = 0, tier_probeCachedAt = 0,
      tier_cacheValid = False, tier_cachedProbe = KAvailable\<rparr>"

text \<open>The constructor takes milliseconds; the members are kept in nanoseconds.\<close>

definition newDeviceLadder ::
  "(string \<Rightarrow> 'w \<Rightarrow> ProbeResult \<times> 'w) \<Rightarrow> string list \<Rightarrow> int \<Rightarrow> int \<Rightarrow> 'w DeviceLadder" where
  "newDeviceLadder probe order quarantineMs probeIntervalMs =
     \<lparr>lad_tiers = map freshTier order, lad_activeIndex = 0, lad_baselineIndex = 0,
      lad_baselineSet = False, lad_active = [], lad_degradedReason = [],
      lad_quarantine = max 0 quarantineMs * 1000000,
      lad_probeInterval = max 0 probeIntervalMs * 1000000, lad_probe = probe\<rparr>"

section \<open>Operations\<close>

definition set_tier :: "nat \<Rightarrow> (DeviceTier \<Rightarrow> DeviceTier) \<Rightarrow> 'w DeviceLadder \<Rightarrow> 'w DeviceLadder" where
  "set_tier i f L = L\<lparr>lad_tiers := (lad_tiers L)[i := f (lad_tiers L ! i)]\<rparr>"

definition invalidateProbeCache :: "'w DeviceLadder \<Rightarrow> 'w DeviceLadder" where
  "invalidateProbeCache L = L\<lparr>lad_tiers := map (\<lambda>t. t\<lparr>tier_cacheValid := False\<rparr>) (lad_tiers L)\<rparr>"

definition setProbe ::
  "(string \<Rightarrow> 'w \<Rightarrow> ProbeResult \<times> 'w) option \<Rightarrow> 'w DeviceLadder \<Rightarrow> 'w DeviceLadder" where
  "setProbe probe L =
     (case probe of None \<Rightarrow> L | Some p \<Rightarrow> invalidateProbeCache (L\<lparr>lad_probe := p\<rparr>))"

definition tierCount :: "'w DeviceLadder \<Rightarrow> nat" where
  "tierCount L = length (lad_tiers L)"

definition degraded :: "'w DeviceLadder \<Rightarrow> bool" where
  "degraded L \<longleftrightarrow> lad_activeIndex L > lad_baselineIndex L"

definition beginSession :: "'w DeviceLadder \<Rightarrow> 'w DeviceLadder" where
  "beginSession L = L\<lparr>lad_tiers := map (\<lambda>t. t\<lparr>tier_sessionFatal := False, tier_quarantinedUntil := 0,
     tier_cacheValid := False\<rparr>) (lad_tiers L)\<rparr>"

definition probeTierCached ::
  "'w clock \<Rightarrow> nat \<Rightarrow> 'w DeviceLadder \<Rightarrow> 'w \<Rightarrow> ProbeResult \<times> 'w DeviceLadder \<times> 'w" where
  "probeTierCached clk i L w =
     (let tier = lad_tiers L ! i; (now, w) = clk w in
      if lad_probeInterval L > 0 \<and> tier_cacheValid tier \<and>
         now - tier_probeCachedAt tier < lad_probeInterval L
      then (tier_cachedProbe tier, L, w)
      else let (r, w) = lad_probe L (tier_name tier) w in
        (r, set_tier i (\<lambda>t. t\<lparr>tier_cachedProbe := r, tier_probeCachedAt := now, tier_cacheValid := True\<rparr>) L, w))"

definition usable :: "'w clock \<Rightarrow> DeviceTier \<Rightarrow> 'w \<Rightarrow> bool \<times> 'w" where
  "usable clk tier w =
     (if tier_sessionFatal tier then (False, w)
      else let (now, w) = clk w in (\<not> now < tier_quarantinedUntil tier, w))"

text \<open>The loop of \<^verbatim>\<open>select\<close> over the indices still to be tried.\<close>

fun selectFrom ::
  "'w clock \<Rightarrow> nat list \<Rightarrow> 'w DeviceLadder \<Rightarrow> 'w \<Rightarrow> bool \<times> 'w DeviceLadder \<times> 'w" where
  "selectFrom clk [] L w = (False, L\<lparr>lad_active := []\<rparr>, w)"
| "selectFrom clk (i # is) L w =
     (let (ok, w) = usable clk (lad_tiers L ! i) w in
      if \<not> ok then selectFrom clk is L w
      else let (r, L, w) = probeTierCached clk i L w in
        if r \<noteq> KAvailable then selectFrom clk is L w
        else
          let L = L\<lparr>lad_activeIndex := i, lad_active := tier_name (lad_tiers L ! i)\<rparr>;
              L = (if \<not> lad_baselineSet L then L\<lparr>lad_baselineIndex := i, lad_baselineSet := True\<rparr> else L);
              L = (if lad_activeIndex L \<le> lad_baselineIndex L then L\<lparr>lad_degradedReason := []\<rparr> else L)
          in (True, L, w))"

definition select :: "'w clock \<Rightarrow> 'w DeviceLadder \<Rightarrow> 'w \<Rightarrow> bool \<times> 'w DeviceLadder \<times> 'w" where
  "select clk L w = selectFrom clk [0..<length (lad_tiers L)] L w"

fun recoverFrom ::
  "'w clock \<Rightarrow> nat list \<Rightarrow> 'w DeviceLadder \<Rightarrow> 'w \<Rightarrow> bool \<times> 'w DeviceLadder \<times> 'w" where
  "recoverFrom clk [] L w = (False, L, w)"
| "recoverFrom clk (i # is) L w =
     (let tier = lad_tiers L ! i in
      if tier_faults tier = 0 then recoverFrom clk is L w
      else if tier_sessionFatal tier then recoverFrom clk is L w
      else let (now, w) = clk w in
      if now < tier_quarantinedUntil tier then recoverFrom clk is L w
      else let (r, L, w) = probeTierCached clk i L w in
      if r \<noteq> KAvailable then recoverFrom clk is L w
      else
        let L = L\<lparr>lad_activeIndex := i, lad_active := tier_name tier\<rparr>;
            L = (if lad_activeIndex L \<le> lad_baselineIndex L then L\<lparr>lad_degradedReason := []\<rparr> else L)
        in (True, L, w))"

definition recoverEligibleTier ::
  "'w clock \<Rightarrow> 'w DeviceLadder \<Rightarrow> 'w \<Rightarrow> bool \<times> 'w DeviceLadder \<times> 'w" where
  "recoverEligibleTier clk L w =
     (if lad_active L = [] \<or> lad_activeIndex L = 0 then (False, L, w)
      else recoverFrom clk [0..<lad_activeIndex L] L w)"

definition lastFault :: "'w DeviceLadder \<Rightarrow> nat \<Rightarrow> DeviceFault" where
  "lastFault L i = (if i \<ge> length (lad_tiers L) then KNone else tier_lastFault (lad_tiers L ! i))"

definition indexOf :: "'w DeviceLadder \<Rightarrow> string \<Rightarrow> nat" where
  "indexOf L name = length (takeWhile (\<lambda>t. tier_name t \<noteq> name) (lad_tiers L))"

definition tierState ::
  "'w clock \<Rightarrow> nat \<Rightarrow> 'w DeviceLadder \<Rightarrow> 'w \<Rightarrow> string \<times> 'w DeviceLadder \<times> 'w" where
  "tierState clk i L w =
     (if i \<ge> length (lad_tiers L) then (''UNKNOWN_UNAVAILABLE'', L, w)
      else
        let tier = lad_tiers L ! i; (now, w) = clk w;
            quarantined = now < tier_quarantinedUntil tier;
            (r, L, w) = probeTierCached clk i L w
        in (backendAvailabilityState (tier_name tier) r (tier_lastFault tier) quarantined
              (tier_sessionFatal tier), L, w))"

definition healthCheck :: "'w DeviceLadder \<Rightarrow> string \<Rightarrow> 'w \<Rightarrow> bool \<times> 'w" where
  "healthCheck L name w = (let (r, w) = lad_probe L name w in (r = KAvailable, w))"

text \<open>The bookkeeping of a fault on the active tier.\<close>

definition markFault :: "int \<Rightarrow> DeviceFault \<Rightarrow> string \<Rightarrow> 'w DeviceLadder \<Rightarrow> 'w DeviceLadder" where
  "markFault now fault detail L =
     set_tier (lad_activeIndex L)
       (\<lambda>t. t\<lparr>tier_cacheValid := False, tier_faults := tier_faults t + 1,
          tier_lastFault := fault, tier_lastDetail := detail,
          tier_quarantinedUntil := now + lad_quarantine L,
          tier_sessionFatal := (tier_sessionFatal t \<or> fault = KRemoved)\<rparr>) L"

definition reportFault ::
  "'w clock \<Rightarrow> DeviceFault \<Rightarrow> string \<Rightarrow> 'w DeviceLadder \<Rightarrow> 'w \<Rightarrow> bool \<times> 'w DeviceLadder \<times> 'w" where
  "reportFault clk fault detail L w =
     (if lad_active L = [] \<or> lad_activeIndex L \<ge> length (lad_tiers L) then (False, L, w)
      else
        let i = lad_activeIndex L; (now, w) = clk w;
            L = markFault now fault detail L;
            faulted = tier_name (lad_tiers L ! i);
            previousActive = lad_active L;
            (ok, L, w) = select clk L w
        in if \<not> ok \<or> lad_activeIndex L \<le> i
           then (False, L\<lparr>lad_activeIndex := i, lad_active := previousActive\<rparr>, w)
           else (True, L\<lparr>lad_degradedReason := faulted @ '':'' @ deviceFaultName fault\<rparr>, w))"

definition tierToJson :: "DeviceTier \<Rightarrow> int \<Rightarrow> ProbeResult \<Rightarrow> string \<Rightarrow> string" where
  \<open>tierToJson tier quarantineLeftMs probe state =
     (let backend = findBackend (tier_name tier) in
      ''{"name":"'' @ tier_name tier @ ''","faults":'' @ int_str (tier_faults tier) @
      '',"sessionFatal":'' @ (if tier_sessionFatal tier then ''true'' else ''false'') @
      '',"quarantineMsLeft":'' @ int_str quarantineLeftMs @
      '',"healthy":'' @ (if probe = KAvailable then ''true'' else ''false'') @
      '',"probe":"'' @ probeResultName probe @ ''","state":"'' @ state @
      ''","platform":"'' @ (case backend of Some b \<Rightarrow> be_platform b | None \<Rightarrow> ''unknown'') @
      ''","note":"'' @ (case backend of Some b \<Rightarrow> be_note b | None \<Rightarrow> ''tier not known to this build'') @ ''"}'')\<close>

fun tiersToJson ::
  "'w clock \<Rightarrow> int \<Rightarrow> nat list \<Rightarrow> 'w DeviceLadder \<Rightarrow> 'w \<Rightarrow> string \<times> 'w DeviceLadder \<times> 'w" where
  "tiersToJson clk now [] L w = ([], L, w)"
| "tiersToJson clk now (i # is) L w =
     (let tier = lad_tiers L ! i;
          left = (if now < tier_quarantinedUntil tier
                  then (tier_quarantinedUntil tier - now) div 1000000 else 0);
          (r, L, w) = probeTierCached clk i L w;
          (state, L, w) = tierState clk i L w;
          (rest, L, w) = tiersToJson clk now is L w
      in ((if i > 0 then '','' else []) @ tierToJson tier left r state @ rest, L, w))"

definition ladderToJson :: "'w clock \<Rightarrow> 'w DeviceLadder \<Rightarrow> 'w \<Rightarrow> string \<times> 'w DeviceLadder \<times> 'w" where
  \<open>ladderToJson clk L w =
     (let (now, w) = clk w;
          head = ''{"active":"'' @ lad_active L @ ''","degraded":'' @
            (if degraded L then ''true'' else ''false'') @ '',"reason":"'' @ lad_degradedReason L @
            ''","baseline":"'' @
            (if lad_baselineSet L then tier_name (lad_tiers L ! lad_baselineIndex L) else []) @
            ''","tiers":['';
          (body, L, w) = tiersToJson clk now [0..<length (lad_tiers L)] L w
      in (head @ body @ '']}'', L, w))\<close>

section \<open>What an operation leaves alone\<close>

text \<open>A tier without its probe cache, and ladders that differ in probe caches only.\<close>

definition tier_core :: "DeviceTier \<Rightarrow> DeviceTier" where
  "tier_core t = t\<lparr>tier_probeCachedAt := 0, tier_cacheValid := False, tier_cachedProbe := KAvailable\<rparr>"

definition same_but_cache :: "'w DeviceLadder \<Rightarrow> 'w DeviceLadder \<Rightarrow> bool" where
  "same_but_cache L L' \<longleftrightarrow>
     L' = L\<lparr>lad_tiers := lad_tiers L'\<rparr> \<and> map tier_core (lad_tiers L') = map tier_core (lad_tiers L)"

definition cpu_cached :: "'w DeviceLadder \<Rightarrow> bool" where
  "cpu_cached L \<longleftrightarrow> (\<forall>t \<in> set (lad_tiers L).
     tier_name t = ''cpu'' \<longrightarrow> tier_cacheValid t \<longrightarrow> tier_cachedProbe t = KAvailable)"

lemma tier_core_sel [simp]:
  "tier_name (tier_core t) = tier_name t" "tier_faults (tier_core t) = tier_faults t"
  "tier_lastFault (tier_core t) = tier_lastFault t" "tier_sessionFatal (tier_core t) = tier_sessionFatal t"
  "tier_quarantinedUntil (tier_core t) = tier_quarantinedUntil t"
  by (simp_all add: tier_core_def)

lemma core_nth:
  assumes "map tier_core ts' = map tier_core ts"
  shows "length ts' = length ts" and "i < length ts \<Longrightarrow> tier_core (ts' ! i) = tier_core (ts ! i)"
  using assms by (metis length_map) (metis assms length_map nth_map)

lemma core_field:
  assumes "map tier_core ts' = map tier_core ts" and "i < length ts"
  shows "tier_name (ts' ! i) = tier_name (ts ! i)" "tier_faults (ts' ! i) = tier_faults (ts ! i)"
    "tier_lastFault (ts' ! i) = tier_lastFault (ts ! i)"
    "tier_sessionFatal (ts' ! i) = tier_sessionFatal (ts ! i)"
    "tier_quarantinedUntil (ts' ! i) = tier_quarantinedUntil (ts ! i)"
  using core_nth(2) [OF assms] by (metis tier_core_sel)+

lemma markFault_sel [simp]:
  "lad_activeIndex (markFault now f d L) = lad_activeIndex L"
  "lad_active (markFault now f d L) = lad_active L"
  "lad_baselineIndex (markFault now f d L) = lad_baselineIndex L"
  "lad_baselineSet (markFault now f d L) = lad_baselineSet L"
  "lad_degradedReason (markFault now f d L) = lad_degradedReason L"
  "lad_quarantine (markFault now f d L) = lad_quarantine L"
  "lad_probeInterval (markFault now f d L) = lad_probeInterval L"
  "lad_probe (markFault now f d L) = lad_probe L"
  "length (lad_tiers (markFault now f d L)) = length (lad_tiers L)"
  by (simp_all add: markFault_def set_tier_def)

lemma markFault_other: "i \<noteq> lad_activeIndex L \<Longrightarrow> lad_tiers (markFault now f d L) ! i = lad_tiers L ! i"
  by (simp add: markFault_def set_tier_def)

lemma markFault_nth:
  "i < length (lad_tiers L) \<Longrightarrow> lad_tiers (markFault now f d L) ! i =
    (if i = lad_activeIndex L
     then (lad_tiers L ! i)\<lparr>tier_cacheValid := False, tier_faults := tier_faults (lad_tiers L ! i) + 1,
       tier_lastFault := f, tier_lastDetail := d, tier_quarantinedUntil := now + lad_quarantine L,
       tier_sessionFatal := (tier_sessionFatal (lad_tiers L ! i) \<or> f = KRemoved)\<rparr>
     else lad_tiers L ! i)"
  by (simp add: markFault_def set_tier_def nth_list_update)

lemma markFault_name: "tier_name (lad_tiers (markFault now f d L) ! i) = tier_name (lad_tiers L ! i)"
  by (cases "i = lad_activeIndex L"; cases "i < length (lad_tiers L)")
    (auto simp: markFault_def set_tier_def nth_list_update not_less list_update_beyond)

lemma same_refl [simp]: "same_but_cache L L"
  by (simp add: same_but_cache_def)

lemma same_trans: "same_but_cache L M \<Longrightarrow> same_but_cache M N \<Longrightarrow> same_but_cache L N"
  unfolding same_but_cache_def by (cases L; cases M; cases N) simp

lemma same_sel:
  assumes "same_but_cache L L'"
  shows "lad_activeIndex L' = lad_activeIndex L" "lad_baselineIndex L' = lad_baselineIndex L"
    "lad_baselineSet L' = lad_baselineSet L" "lad_active L' = lad_active L"
    "lad_degradedReason L' = lad_degradedReason L" "lad_quarantine L' = lad_quarantine L"
    "lad_probeInterval L' = lad_probeInterval L" "lad_probe L' = lad_probe L"
    "length (lad_tiers L') = length (lad_tiers L)"
    "map tier_core (lad_tiers L') = map tier_core (lad_tiers L)"
  using assms unfolding same_but_cache_def
  by (cases L; cases L'; simp; fail)+ (metis assms length_map same_but_cache_def)+

lemma same_cache_write:
  "same_but_cache L (set_tier i (\<lambda>t. t\<lparr>tier_cachedProbe := r, tier_probeCachedAt := n, tier_cacheValid := v\<rparr>) L)"
  by (cases "i < length (lad_tiers L)")
    (auto simp: same_but_cache_def set_tier_def tier_core_def nth_list_update intro!: nth_equalityI)

lemma cpu_cached_hit:
  "cpu_cached L \<Longrightarrow> i < length (lad_tiers L) \<Longrightarrow> tier_name (lad_tiers L ! i) = ''cpu'' \<Longrightarrow>
   tier_cacheValid (lad_tiers L ! i) \<Longrightarrow> tier_cachedProbe (lad_tiers L ! i) = KAvailable"
  by (simp add: cpu_cached_def)

lemma cpu_cached_write:
  "cpu_cached L \<Longrightarrow> i < length (lad_tiers L) \<Longrightarrow> (tier_name (lad_tiers L ! i) = ''cpu'' \<Longrightarrow> r = KAvailable) \<Longrightarrow>
   cpu_cached (set_tier i (\<lambda>t. t\<lparr>tier_cachedProbe := r, tier_probeCachedAt := n, tier_cacheValid := True\<rparr>) L)"
  by (auto simp: cpu_cached_def set_tier_def dest!: in_set_conv_nth [THEN iffD1] simp: nth_list_update
      split: if_splits)

section \<open>Clock and probe\<close>

text \<open>The steady clock never runs backwards, a probe takes time, and the CPU is always there.\<close>

locale ladder_world =
  fixes clk :: "'w \<Rightarrow> int \<times> 'w" and probe :: "string \<Rightarrow> 'w \<Rightarrow> ProbeResult \<times> 'w" and at :: "'w \<Rightarrow> int"
  assumes clk_at: "clk w = (t, w') \<Longrightarrow> at w \<le> t \<and> t \<le> at w'"
    and probe_at: "probe n w = (r, w') \<Longrightarrow> at w \<le> at w'"
    and probe_cpu: "probe ''cpu'' w = (r, w') \<Longrightarrow> r = KAvailable"
begin

lemma cached_spec:
  assumes "probeTierCached clk i L w = (r, L', w')" and "lad_probe L = probe" and "i < length (lad_tiers L)"
  shows "same_but_cache L L'" and "at w \<le> at w'" and "cpu_cached L \<Longrightarrow> cpu_cached L'"
    and "cpu_cached L \<Longrightarrow> tier_name (lad_tiers L ! i) = ''cpu'' \<Longrightarrow> r = KAvailable"
proof -
  obtain now w1 where c: "clk w = (now, w1)" by force
  obtain r2 w2 where p: "probe (tier_name (lad_tiers L ! i)) w1 = (r2, w2)" by force
  note times = clk_at [OF c] probe_at [OF p]
  have cpu: "tier_name (lad_tiers L ! i) = ''cpu'' \<Longrightarrow> r2 = KAvailable" using p probe_cpu by auto
  show "same_but_cache L L'" "at w \<le> at w'" "cpu_cached L \<Longrightarrow> cpu_cached L'"
    "cpu_cached L \<Longrightarrow> tier_name (lad_tiers L ! i) = ''cpu'' \<Longrightarrow> r = KAvailable"
    using assms c p times cpu
    by (auto simp: probeTierCached_def Let_def same_cache_write
        intro: cpu_cached_hit intro!: cpu_cached_write split: if_splits)
qed

lemma usable_spec:
  assumes "usable clk tier w = (ok, w')"
  shows "at w \<le> at w'" and "ok \<Longrightarrow> \<not> tier_sessionFatal tier \<and> tier_quarantinedUntil tier \<le> at w'"
    and "\<not> tier_sessionFatal tier \<Longrightarrow> tier_quarantinedUntil tier \<le> at w \<Longrightarrow> ok"
proof -
  obtain now w1 where c: "clk w = (now, w1)" by force
  from assms c clk_at [OF c] show "at w \<le> at w'" "ok \<Longrightarrow> \<not> tier_sessionFatal tier \<and> tier_quarantinedUntil tier \<le> at w'"
    "\<not> tier_sessionFatal tier \<Longrightarrow> tier_quarantinedUntil tier \<le> at w \<Longrightarrow> ok"
    by (auto simp: usable_def split: if_splits)
qed

text \<open>\<^verbatim>\<open>select\<close> settles on a tier it may use, or clears the active name; nothing else but caches changes.\<close>

definition settled :: "'w DeviceLadder \<Rightarrow> nat \<Rightarrow> 'w DeviceLadder \<Rightarrow> 'w \<Rightarrow> bool" where
  "settled L i L' w' \<longleftrightarrow>
     (\<exists>M. same_but_cache L M \<and> i < length (lad_tiers M) \<and>
       \<not> tier_sessionFatal (lad_tiers M ! i) \<and> tier_quarantinedUntil (lad_tiers M ! i) \<le> at w' \<and>
       L' = M\<lparr>lad_activeIndex := i, lad_active := tier_name (lad_tiers M ! i),
              lad_baselineIndex := (if lad_baselineSet M then lad_baselineIndex M else i),
              lad_baselineSet := True,
              lad_degradedReason := (if lad_baselineSet M \<and> lad_baselineIndex M < i
                then lad_degradedReason M else [])\<rparr>)"

lemma settled_mono: "same_but_cache L M \<Longrightarrow> settled M i L' w \<Longrightarrow> settled L i L' w"
  unfolding settled_def by (blast intro: same_trans)

lemma selectFrom_spec:
  assumes "selectFrom clk is L w = (ok, L', w')" and "lad_probe L = probe"
    and "\<forall>i \<in> set is. i < length (lad_tiers L)"
  shows "at w \<le> at w' \<and>
    (if ok then \<exists>i \<in> set is. settled L i L' w'
     else \<exists>M. same_but_cache L M \<and> L' = M\<lparr>lad_active := []\<rparr>)"
  using assms
proof (induction "is" arbitrary: L w)
  case Nil
  then show ?case by (auto intro: exI [of _ L])
next
  case (Cons i "is")
  obtain u w1 where u: "usable clk (lad_tiers L ! i) w = (u, w1)" by force
  note u_spec = usable_spec [OF u]
  show ?case
  proof (cases u)
    case False
    with Cons.prems u have "selectFrom clk is L w1 = (ok, L', w')" by simp
    from Cons.IH [OF this] Cons.prems u_spec(1) show ?thesis by (auto split: if_splits)
  next
    case True
    obtain r M w2 where p: "probeTierCached clk i L w1 = (r, M, w2)" by (metis prod_cases3)
    note p_spec = cached_spec [OF p Cons.prems(2)]
    have i: "i < length (lad_tiers L)" using Cons.prems by simp
    note same = p_spec(1) [OF i]
    show ?thesis
    proof (cases "r = KAvailable")
      case False
      with Cons.prems u True p have "selectFrom clk is M w2 = (ok, L', w')" by simp
      from Cons.IH [OF this] Cons.prems same u_spec(1) p_spec(2) [OF i] show ?thesis
        by (auto simp: same_sel [OF same] dest: settled_mono [OF same] same_trans [OF same] split: if_splits)
    next
      case avail: True
      have "settled L i L' w'"
        unfolding settled_def using Cons.prems u True p avail u_spec(2) p_spec(2) [OF i] i
          core_field [OF same_sel(10) [OF same] i] same_sel [OF same]
        by (intro exI [of _ M]) (auto simp: same Let_def split: if_splits)
      with Cons.prems u True p avail u_spec(1) p_spec(2) [OF i] show ?thesis
        by (auto simp: Let_def)
    qed
  qed
qed

lemma select_spec:
  assumes "select clk L w = (ok, L', w')" and "lad_probe L = probe"
  shows "at w \<le> at w'" and "ok \<Longrightarrow> \<exists>i. settled L i L' w'"
    and "\<not> ok \<Longrightarrow> \<exists>M. same_but_cache L M \<and> L' = M\<lparr>lad_active := []\<rparr>"
  using selectFrom_spec [OF assms(1) [unfolded select_def] assms(2)] by auto

lemma selectFrom_total:
  assumes "i \<in> set is" and "lad_probe L = probe" and "\<forall>i \<in> set is. i < length (lad_tiers L)"
    and "tier_name (lad_tiers L ! i) = ''cpu''" and "cpu_cached L"
    and "\<not> tier_sessionFatal (lad_tiers L ! i)" and "tier_quarantinedUntil (lad_tiers L ! i) \<le> at w"
  shows "fst (selectFrom clk is L w)"
  using assms
proof (induction "is" arbitrary: L w)
  case Nil
  then show ?case by simp
next
  case (Cons j "is")
  obtain u w1 where u: "usable clk (lad_tiers L ! j) w = (u, w1)" by force
  note u_spec = usable_spec [OF u]
  obtain r M w2 where p: "probeTierCached clk j L w1 = (r, M, w2)" by (metis prod_cases3)
  have j: "j < length (lad_tiers L)" "i < length (lad_tiers L)" using Cons.prems by auto
  note p_spec = cached_spec [OF p Cons.prems(2) j(1)] and same = cached_spec(1) [OF p Cons.prems(2) j(1)]
  have hit: "u \<and> r = KAvailable" if "i = j"
    using that u_spec(3) p_spec(4) Cons.prems by simp
  have miss: "fst (selectFrom clk is L w1)" if "i \<noteq> j"
    using Cons.IH [of L w1] Cons.prems that u_spec(1) by simp
  have "fst (selectFrom clk is M w2)" if "i \<noteq> j"
    using Cons.IH [of M w2] Cons.prems that u_spec(1) p_spec
      core_field [OF same_sel(10) [OF same] j(2)] same_sel [OF same] by simp
  with hit miss u p show ?case by (auto simp: Let_def)
qed

text \<open>Recovery goes up, to a tier that has faulted and has served its quarantine.\<close>

definition recovered :: "'w DeviceLadder \<Rightarrow> nat \<Rightarrow> 'w DeviceLadder \<Rightarrow> 'w \<Rightarrow> bool" where
  "recovered L i L' w' \<longleftrightarrow>
     (\<exists>M. same_but_cache L M \<and> i < length (lad_tiers M) \<and> tier_faults (lad_tiers M ! i) \<noteq> 0 \<and>
       \<not> tier_sessionFatal (lad_tiers M ! i) \<and> tier_quarantinedUntil (lad_tiers M ! i) \<le> at w' \<and>
       L' = M\<lparr>lad_activeIndex := i, lad_active := tier_name (lad_tiers M ! i),
              lad_degradedReason := (if i \<le> lad_baselineIndex M then [] else lad_degradedReason M)\<rparr>)"

lemma recovered_mono: "same_but_cache L M \<Longrightarrow> recovered M i L' w \<Longrightarrow> recovered L i L' w"
  unfolding recovered_def by (blast intro: same_trans)

lemma recoverFrom_spec:
  assumes "recoverFrom clk is L w = (ok, L', w')" and "lad_probe L = probe"
    and "\<forall>i \<in> set is. i < length (lad_tiers L)"
  shows "at w \<le> at w' \<and> (if ok then \<exists>i \<in> set is. recovered L i L' w' else same_but_cache L L')"
  using assms
proof (induction "is" arbitrary: L w)
  case Nil
  then show ?case by simp
next
  case (Cons i "is")
  let ?t = "lad_tiers L ! i"
  obtain now w1 where c: "clk w = (now, w1)" by force
  obtain r M w2 where p: "probeTierCached clk i L w1 = (r, M, w2)" by (metis prod_cases3)
  have i: "i < length (lad_tiers L)" using Cons.prems by simp
  note same = cached_spec(1) [OF p Cons.prems(2) i] and later = cached_spec(2) [OF p Cons.prems(2) i]
    and times = clk_at [OF c]
  consider (skip) "tier_faults ?t = 0 \<or> tier_sessionFatal ?t"
    | (early) "tier_faults ?t \<noteq> 0" "\<not> tier_sessionFatal ?t" "now < tier_quarantinedUntil ?t"
    | (ill) "tier_faults ?t \<noteq> 0" "\<not> tier_sessionFatal ?t" "\<not> now < tier_quarantinedUntil ?t" "r \<noteq> KAvailable"
    | (well) "tier_faults ?t \<noteq> 0" "\<not> tier_sessionFatal ?t" "\<not> now < tier_quarantinedUntil ?t" "r = KAvailable"
    by blast
  then show ?case
  proof cases
    case skip
    with Cons.prems have "recoverFrom clk is L w = (ok, L', w')"
      by (auto simp: Let_def split: if_splits)
    from Cons.IH [OF this] Cons.prems show ?thesis by (auto split: if_splits)
  next
    case early
    with Cons.prems c have "recoverFrom clk is L w1 = (ok, L', w')" by simp
    from Cons.IH [OF this] Cons.prems times show ?thesis by (auto split: if_splits)
  next
    case ill
    with Cons.prems c p have "recoverFrom clk is M w2 = (ok, L', w')" by simp
    from Cons.IH [OF this] Cons.prems times later same show ?thesis
      by (auto simp: same_sel [OF same] dest: recovered_mono [OF same] same_trans [OF same] split: if_splits)
  next
    case well
    with Cons.prems c p have w': "w' = w2" "ok" by (auto simp: Let_def)
    have "recovered L i L' w'"
      unfolding recovered_def using Cons.prems c p well times later i same_sel [OF same]
        core_field [OF same_sel(10) [OF same] i]
      by (intro exI [of _ M]) (auto simp: same Let_def split: if_splits)
    with w' times later show ?thesis by auto
  qed
qed

lemma recover_spec:
  assumes "recoverEligibleTier clk L w = (ok, L', w')" and "lad_probe L = probe"
    and "lad_active L \<noteq> [] \<Longrightarrow> lad_activeIndex L < length (lad_tiers L)"
  shows "at w \<le> at w'" and "ok \<Longrightarrow> \<exists>i < lad_activeIndex L. recovered L i L' w'"
    and "\<not> ok \<Longrightarrow> same_but_cache L L'"
proof -
  consider "lad_active L = [] \<or> lad_activeIndex L = 0" "(ok, L', w') = (False, L, w)"
    | "lad_active L \<noteq> []" "recoverFrom clk [0..<lad_activeIndex L] L w = (ok, L', w')"
    using assms(1) by (auto simp: recoverEligibleTier_def split: if_splits)
  then have "at w \<le> at w' \<and> (if ok then \<exists>i \<in> set [0..<lad_activeIndex L]. recovered L i L' w' else same_but_cache L L')"
  proof cases
    case 2
    then show ?thesis using assms(2,3) by (intro recoverFrom_spec) auto
  qed simp
  then show "at w \<le> at w'" "ok \<Longrightarrow> \<exists>i < lad_activeIndex L. recovered L i L' w'" "\<not> ok \<Longrightarrow> same_but_cache L L'"
    by auto
qed

text \<open>A fault marks the active tier, then only a lower tier can take over.\<close>

lemma fault_spec:
  assumes "reportFault clk fault detail L w = (ok, L', w')" and "lad_probe L = probe"
    and "lad_active L \<noteq> []" and "lad_activeIndex L < length (lad_tiers L)"
  shows "\<exists>now. at w \<le> now \<and> now \<le> at w' \<and> (let M = markFault now fault detail L in
    if ok then \<exists>i N. lad_activeIndex L < i \<and> settled M i N w' \<and>
        L' = N\<lparr>lad_degradedReason :=
          tier_name (lad_tiers L ! lad_activeIndex L) @ '':'' @ deviceFaultName fault\<rparr>
    else \<exists>N i. (settled M i N w' \<and> i \<le> lad_activeIndex L \<or> same_but_cache M N) \<and>
        L' = N\<lparr>lad_activeIndex := lad_activeIndex L, lad_active := lad_active L\<rparr>)"
proof -
  obtain now w1 where c: "clk w = (now, w1)" by force
  define M where "M = markFault now fault detail L"
  obtain ok1 N w2 where sel: "select clk M w1 = (ok1, N, w2)" by (metis prod_cases3)
  have M: "lad_probe M = probe" using assms by (simp add: M_def)
  note s = select_spec [OF sel M]
  have run: "(ok, L', w') =
      (if \<not> ok1 \<or> lad_activeIndex N \<le> lad_activeIndex L
       then (False, N\<lparr>lad_activeIndex := lad_activeIndex L, lad_active := lad_active L\<rparr>, w2)
       else (True, N\<lparr>lad_degradedReason :=
               tier_name (lad_tiers L ! lad_activeIndex L) @ '':'' @ deviceFaultName fault\<rparr>, w2))"
    using assms(1,3,4) sel [unfolded M_def] c
    by (auto simp: reportFault_def Let_def markFault_name split: if_splits)
  have index: "lad_activeIndex N = i" if "settled M i N w2" for i
    using that by (auto simp: settled_def)
  consider (failed) K where "\<not> ok1" "same_but_cache M K" "N = K\<lparr>lad_active := []\<rparr>"
    | (higher) i where "ok1" "settled M i N w2" "i \<le> lad_activeIndex L"
    | (lower) i where "ok1" "settled M i N w2" "lad_activeIndex L < i"
    using s(2,3) by (metis not_le)
  then show ?thesis
  proof cases
    case failed
    with run s(1) clk_at [OF c] show ?thesis
      by (intro exI [of _ now]) (auto simp: M_def [symmetric] Let_def intro!: exI [of _ K])
  next
    case higher
    with run s(1) clk_at [OF c] index show ?thesis
      by (intro exI [of _ now]) (auto simp: M_def [symmetric] Let_def)
  next
    case lower
    with run s(1) clk_at [OF c] index show ?thesis
      by (intro exI [of _ now]) (auto simp: M_def [symmetric] Let_def)
  qed
qed

lemma tierState_spec:
  assumes "tierState clk i L w = (str, L', w')" and "lad_probe L = probe"
  shows "same_but_cache L L' \<and> at w \<le> at w' \<and> (cpu_cached L \<longrightarrow> cpu_cached L')"
proof (cases "i < length (lad_tiers L)")
  case False
  with assms show ?thesis by (simp add: tierState_def)
next
  case True
  obtain now w1 where c: "clk w = (now, w1)" by force
  obtain r M w2 where p: "probeTierCached clk i L w1 = (r, M, w2)" by (metis prod_cases3)
  from cached_spec [OF p assms(2) True] clk_at [OF c] assms(1) True c p show ?thesis
    by (auto simp: tierState_def Let_def)
qed

lemma tiersToJson_spec:
  assumes "tiersToJson clk now is L w = (str, L', w')" and "lad_probe L = probe"
    and "\<forall>i \<in> set is. i < length (lad_tiers L)"
  shows "same_but_cache L L' \<and> at w \<le> at w' \<and> (cpu_cached L \<longrightarrow> cpu_cached L')"
  using assms
proof (induction "is" arbitrary: L w str)
  case Nil
  then show ?case by simp
next
  case (Cons i "is")
  obtain r M w1 where p: "probeTierCached clk i L w = (r, M, w1)" by (metis prod_cases3)
  obtain st N w2 where t: "tierState clk i M w1 = (st, N, w2)" by (metis prod_cases3)
  obtain rest where rec: "tiersToJson clk now is N w2 = (rest, L', w')"
    using Cons.prems(1) p t by (auto simp: Let_def split: prod.splits)
  have i: "i < length (lad_tiers L)" using Cons.prems by simp
  note ps = cached_spec [OF p Cons.prems(2) i]
  have M: "lad_probe M = probe" using same_sel(8) [OF ps(1)] Cons.prems by simp
  note ts = tierState_spec [OF t M]
  have N: "lad_probe N = probe" "\<forall>i \<in> set is. i < length (lad_tiers N)"
    using same_sel(8,9) [of M N] same_sel(9) [OF ps(1)] ts M Cons.prems by simp_all
  from Cons.IH [OF rec N] ts ps Cons.prems(1) p t rec show ?case
    by (auto simp: Let_def intro: same_trans)
qed

lemma ladderToJson_spec:
  assumes "ladderToJson clk L w = (str, L', w')" and "lad_probe L = probe"
  shows "same_but_cache L L' \<and> at w \<le> at w' \<and> (cpu_cached L \<longrightarrow> cpu_cached L')"
proof -
  obtain now w1 where c: "clk w = (now, w1)" by force
  obtain body M w2 where j: "tiersToJson clk now [0..<length (lad_tiers L)] L w1 = (body, M, w2)"
    by (metis prod_cases3)
  from tiersToJson_spec [OF j assms(2)] clk_at [OF c] assms(1) c j show ?thesis
    by (auto simp: ladderToJson_def Let_def)
qed

text \<open>The cache of the CPU tier stays truthful.\<close>

lemma selectFrom_cpu_cached:
  assumes "selectFrom clk is L w = (ok, L', w')" and "lad_probe L = probe"
    and "\<forall>i \<in> set is. i < length (lad_tiers L)" and "cpu_cached L"
  shows "cpu_cached L'"
  using assms
proof (induction "is" arbitrary: L w)
  case Nil
  then show ?case by (auto simp: cpu_cached_def)
next
  case (Cons i "is")
  obtain u w1 where u: "usable clk (lad_tiers L ! i) w = (u, w1)" by force
  obtain r M w2 where p: "probeTierCached clk i L w1 = (r, M, w2)" by (metis prod_cases3)
  have i: "i < length (lad_tiers L)" using Cons.prems by simp
  note ps = cached_spec [OF p Cons.prems(2) i]
  show ?case
    using Cons.IH [of L w1] Cons.IH [of M w2] Cons.prems u p ps same_sel [OF ps(1)]
    by (auto simp: Let_def cpu_cached_def split: if_splits)
qed

lemma recoverFrom_cpu_cached:
  assumes "recoverFrom clk is L w = (ok, L', w')" and "lad_probe L = probe"
    and "\<forall>i \<in> set is. i < length (lad_tiers L)" and "cpu_cached L"
  shows "cpu_cached L'"
  using assms
proof (induction "is" arbitrary: L w)
  case Nil
  then show ?case by simp
next
  case (Cons i "is")
  obtain now w1 where c: "clk w = (now, w1)" by force
  obtain r M w2 where p: "probeTierCached clk i L w1 = (r, M, w2)" by (metis prod_cases3)
  have i: "i < length (lad_tiers L)" using Cons.prems by simp
  note ps = cached_spec [OF p Cons.prems(2) i]
  show ?case
    using Cons.IH [of L w] Cons.IH [of L w1] Cons.IH [of M w2] Cons.prems c p ps same_sel [OF ps(1)]
    by (auto simp: Let_def cpu_cached_def split: if_splits)
qed

end

section \<open>Invariants of a ladder\<close>

definition tier_ok :: "DeviceTier \<Rightarrow> bool" where
  "tier_ok t \<longleftrightarrow> 0 \<le> tier_faults t \<and> (tier_sessionFatal t \<longrightarrow> 0 < tier_faults t)"

definition ladder_ok :: "'w DeviceLadder \<Rightarrow> bool" where
  "ladder_ok L \<longleftrightarrow>
     (lad_active L \<noteq> [] \<longrightarrow> lad_baselineSet L \<and> lad_activeIndex L < length (lad_tiers L) \<and>
        lad_active L = tier_name (lad_tiers L ! lad_activeIndex L)) \<and>
     (lad_baselineSet L \<longrightarrow> lad_baselineIndex L < length (lad_tiers L)) \<and>
     0 \<le> lad_quarantine L \<and> list_all tier_ok (lad_tiers L)"

text \<open>Tier \<open>i\<close> may not be used before \<open>T\<close>.\<close>

definition tier_barred :: "nat \<Rightarrow> int \<Rightarrow> 'w DeviceLadder \<Rightarrow> bool" where
  "tier_barred i T L \<longleftrightarrow> i < length (lad_tiers L) \<and>
     (tier_sessionFatal (lad_tiers L ! i) \<or> T \<le> tier_quarantinedUntil (lad_tiers L ! i))"

lemma tier_ok_core [simp]: "tier_ok (tier_core t) = tier_ok t"
  by (simp add: tier_ok_def)

lemma list_all_core: "list_all tier_ok (map tier_core ts) = list_all tier_ok ts"
  by (induction ts) auto

lemma same_ok: "same_but_cache L M \<Longrightarrow> ladder_ok L \<Longrightarrow> ladder_ok M"
  using core_field [OF same_sel(10) [of L M]] list_all_core [of "lad_tiers L"] list_all_core [of "lad_tiers M"]
  by (auto simp: ladder_ok_def same_sel [of L M])

lemma same_barred: "same_but_cache L M \<Longrightarrow> tier_barred i T M = tier_barred i T L"
  using core_field [OF same_sel(10) [of L M]] by (auto simp: tier_barred_def same_sel [of L M])

lemma same_names: "same_but_cache L M \<Longrightarrow> map tier_name (lad_tiers M) = map tier_name (lad_tiers L)"
  using core_field(1) [OF same_sel(10) [of L M]] same_sel(9) [of L M] by (auto intro: nth_equalityI)

lemma bookkeeping_simps [simp]:
  "tier_barred i T (L\<lparr>lad_degradedReason := r\<rparr>) = tier_barred i T L"
  "tier_barred i T (L\<lparr>lad_activeIndex := a, lad_active := n\<rparr>) = tier_barred i T L"
  "ladder_ok (L\<lparr>lad_degradedReason := r\<rparr>) = ladder_ok L"
  by (simp_all add: tier_barred_def ladder_ok_def)

lemma ladder_ok_restore:
  "ladder_ok N \<Longrightarrow> lad_baselineSet N \<Longrightarrow> a < length (lad_tiers N) \<Longrightarrow> tier_name (lad_tiers N ! a) = n \<Longrightarrow>
   ladder_ok (N\<lparr>lad_activeIndex := a, lad_active := n\<rparr>)"
  by (simp add: ladder_ok_def)

lemma mark_ok: "ladder_ok L \<Longrightarrow> ladder_ok (markFault now f d L)"
  by (auto simp: ladder_ok_def markFault_name list_all_length markFault_nth tier_ok_def)

lemma mark_barred: "i \<noteq> lad_activeIndex L \<Longrightarrow> tier_barred i T (markFault now f d L) = tier_barred i T L"
  by (simp add: tier_barred_def markFault_other)

lemma mark_names: "map tier_name (lad_tiers (markFault now f d L)) = map tier_name (lad_tiers L)"
  by (rule nth_equalityI) (simp_all add: markFault_name)

lemma mark_cpu_cached: "cpu_cached L \<Longrightarrow> cpu_cached (markFault now f d L)"
  by (simp add: cpu_cached_def all_set_conv_all_nth markFault_nth)

text \<open>What one operation does, for an observer that holds on to tier \<open>i\<close> and time \<open>T\<close>.\<close>

definition op_keeps :: "'w DeviceLadder \<Rightarrow> 'w DeviceLadder \<Rightarrow> int \<Rightarrow> bool" where
  "op_keeps L L' now \<longleftrightarrow> ladder_ok L' \<and> lad_probe L' = lad_probe L \<and>
     map tier_name (lad_tiers L') = map tier_name (lad_tiers L) \<and>
     (\<forall>i T. tier_barred i T L \<and> lad_activeIndex L \<noteq> i \<and> now < T \<longrightarrow>
        tier_barred i T L' \<and> lad_activeIndex L' \<noteq> i)"

lemma op_keeps_same: "same_but_cache L L' \<Longrightarrow> ladder_ok L \<Longrightarrow> op_keeps L L' now"
  by (simp add: op_keeps_def same_ok same_barred same_names same_sel)

lemma op_keeps_unselect: "same_but_cache L M \<Longrightarrow> ladder_ok L \<Longrightarrow> op_keeps L (M\<lparr>lad_active := []\<rparr>) now"
  using same_ok [of L M] same_barred [of L M]
  by (simp add: op_keeps_def same_names same_sel) (simp add: ladder_ok_def tier_barred_def)

lemma op_keeps_move:
  assumes "same_but_cache L M" and "ladder_ok L" and "i < length (lad_tiers M)"
    and "\<not> tier_sessionFatal (lad_tiers M ! i)" and "tier_quarantinedUntil (lad_tiers M ! i) \<le> now"
    and "lad_tiers L' = lad_tiers M" "lad_probe L' = lad_probe M" "lad_quarantine L' = lad_quarantine M"
      "lad_activeIndex L' = i" "lad_active L' = tier_name (lad_tiers M ! i)"
      "lad_baselineSet L'" "lad_baselineIndex L' < length (lad_tiers M)"
  shows "op_keeps L L' now"
proof -
  have ok: "ladder_ok L'"
    using assms same_ok [OF assms(1,2)] by (simp add: ladder_ok_def)
  have "tier_barred j T L' \<and> i \<noteq> j" if "tier_barred j T L" "now < T" for j T
    using same_barred [OF assms(1), of j T] that assms(4,5) assms(6) by (auto simp: tier_barred_def)
  with ok assms show ?thesis
    by (auto simp: op_keeps_def same_names [OF assms(1)] same_sel(8) [OF assms(1)])
qed

lemma op_keeps_trans:
  assumes "op_keeps L K a" and "op_keeps K M b" and "a \<le> b"
  shows "op_keeps L M b"
proof -
  have "tier_barred i T M \<and> lad_activeIndex M \<noteq> i"
    if "tier_barred i T L" "lad_activeIndex L \<noteq> i" "b < T" for i T
  proof -
    have "a < T" using that(3) assms(3) by simp
    then have "tier_barred i T K \<and> lad_activeIndex K \<noteq> i"
      using assms(1) that unfolding op_keeps_def by blast
    then show ?thesis using assms(2) that(3) unfolding op_keeps_def by blast
  qed
  with assms show ?thesis unfolding op_keeps_def by auto
qed

lemma op_keeps_barred:
  "op_keeps L M b \<Longrightarrow> tier_barred i T L \<Longrightarrow> lad_activeIndex L \<noteq> i \<Longrightarrow> b < T \<Longrightarrow> lad_activeIndex M \<noteq> i"
  unfolding op_keeps_def by blast

context ladder_world
begin

lemma settled_keeps:
  assumes "settled L i L' w" and "ladder_ok L"
  shows "op_keeps L L' (at w)" and "lad_activeIndex L' = i" and "i < length (lad_tiers L')"
    and "lad_active L' = tier_name (lad_tiers L ! i)"
proof -
  obtain M where M: "same_but_cache L M" "i < length (lad_tiers M)"
    "\<not> tier_sessionFatal (lad_tiers M ! i)" "tier_quarantinedUntil (lad_tiers M ! i) \<le> at w"
    "L' = M\<lparr>lad_activeIndex := i, lad_active := tier_name (lad_tiers M ! i),
              lad_baselineIndex := (if lad_baselineSet M then lad_baselineIndex M else i),
              lad_baselineSet := True,
              lad_degradedReason := (if lad_baselineSet M \<and> lad_baselineIndex M < i
                then lad_degradedReason M else [])\<rparr>"
    using assms(1) by (auto simp: settled_def)
  have "lad_baselineSet M \<longrightarrow> lad_baselineIndex M < length (lad_tiers M)"
    using same_ok [OF M(1) assms(2)] by (simp add: ladder_ok_def)
  with M assms(2) show "op_keeps L L' (at w)" by (intro op_keeps_move [OF M(1)]) auto
  show "lad_activeIndex L' = i" "i < length (lad_tiers L')" "lad_active L' = tier_name (lad_tiers L ! i)"
    using M same_sel [OF M(1)] core_field(1) [OF same_sel(10) [OF M(1)]] by auto
qed

lemma recovered_keeps:
  assumes "recovered L i L' w" and "ladder_ok L" and "lad_active L \<noteq> []"
  shows "op_keeps L L' (at w)" and "lad_activeIndex L' = i"
proof -
  obtain M where M: "same_but_cache L M" "i < length (lad_tiers M)" "tier_faults (lad_tiers M ! i) \<noteq> 0"
    "\<not> tier_sessionFatal (lad_tiers M ! i)" "tier_quarantinedUntil (lad_tiers M ! i) \<le> at w"
    "L' = M\<lparr>lad_activeIndex := i, lad_active := tier_name (lad_tiers M ! i),
              lad_degradedReason := (if i \<le> lad_baselineIndex M then [] else lad_degradedReason M)\<rparr>"
    using assms(1) by (auto simp: recovered_def)
  have "lad_baselineSet M \<and> lad_baselineIndex M < length (lad_tiers M)"
    using same_ok [OF M(1) assms(2)] assms(3) same_sel [OF M(1)] by (simp add: ladder_ok_def)
  with M assms(2) show "op_keeps L L' (at w)" by (intro op_keeps_move [OF M(1)]) auto
  show "lad_activeIndex L' = i" using M by simp
qed

lemma select_keeps:
  assumes "select clk L w = (ok, L', w')" and "lad_probe L = probe" and "ladder_ok L"
  shows "op_keeps L L' (at w')"
  using select_spec [OF assms(1,2)] settled_keeps(1) assms(3) op_keeps_unselect by (cases ok) blast+

lemma recover_keeps:
  assumes "recoverEligibleTier clk L w = (ok, L', w')" and "lad_probe L = probe" and "ladder_ok L"
  shows "op_keeps L L' (at w')" and "ok \<Longrightarrow> lad_activeIndex L' < lad_activeIndex L"
proof -
  have bound: "lad_active L \<noteq> [] \<Longrightarrow> lad_activeIndex L < length (lad_tiers L)"
    using assms(3) by (simp add: ladder_ok_def)
  note r = recover_spec [OF assms(1,2) bound]
  have "lad_active L \<noteq> []" if ok using assms(1) that by (auto simp: recoverEligibleTier_def)
  with r assms(3) show "op_keeps L L' (at w')" "ok \<Longrightarrow> lad_activeIndex L' < lad_activeIndex L"
    using recovered_keeps op_keeps_same by (cases ok; fastforce)+
qed

lemma fault_keeps:
  assumes "reportFault clk fault detail L w = (ok, L', w')" and "lad_probe L = probe" and "ladder_ok L"
  shows "op_keeps L L' (at w')" and "at w \<le> at w'"
    and "ok \<Longrightarrow> lad_activeIndex L < lad_activeIndex L' \<and> lad_activeIndex L' < length (lad_tiers L) \<and>
           lad_active L' = tier_name (lad_tiers L ! lad_activeIndex L')"
    and "\<not> ok \<Longrightarrow> lad_activeIndex L' = lad_activeIndex L \<and> lad_active L' = lad_active L"
proof -
  have "op_keeps L L' (at w') \<and> at w \<le> at w' \<and>
    (ok \<longrightarrow> lad_activeIndex L < lad_activeIndex L' \<and> lad_activeIndex L' < length (lad_tiers L) \<and>
      lad_active L' = tier_name (lad_tiers L ! lad_activeIndex L')) \<and>
    (\<not> ok \<longrightarrow> lad_activeIndex L' = lad_activeIndex L \<and> lad_active L' = lad_active L)"
  proof (cases "lad_active L = []")
    case True
    with assms show ?thesis by (auto simp: reportFault_def op_keeps_same)
  next
    case False
    with assms(3) have i: "lad_activeIndex L < length (lad_tiers L)" "lad_baselineSet L"
      "lad_active L = tier_name (lad_tiers L ! lad_activeIndex L)" by (auto simp: ladder_ok_def)
    obtain now where now: "at w \<le> now" "now \<le> at w'" and res: "let M = markFault now fault detail L in
      if ok then \<exists>i N. lad_activeIndex L < i \<and> settled M i N w' \<and>
          L' = N\<lparr>lad_degradedReason :=
            tier_name (lad_tiers L ! lad_activeIndex L) @ '':'' @ deviceFaultName fault\<rparr>
      else \<exists>N i. (settled M i N w' \<and> i \<le> lad_activeIndex L \<or> same_but_cache M N) \<and>
          L' = N\<lparr>lad_activeIndex := lad_activeIndex L, lad_active := lad_active L\<rparr>"
      using fault_spec [OF assms(1,2) False i(1)] by blast
    define M where "M = markFault now fault detail L"
    have M: "ladder_ok M" "map tier_name (lad_tiers M) = map tier_name (lad_tiers L)"
      "lad_probe M = lad_probe L"
      "\<And>j T. lad_activeIndex L \<noteq> j \<Longrightarrow> tier_barred j T L \<Longrightarrow> tier_barred j T M"
      "lad_activeIndex M = lad_activeIndex L"
      using assms(3) by (simp_all add: M_def mark_ok mark_names mark_barred)
    have keep: "op_keeps L L' (at w')"
      if "op_keeps M N (at w')" "L' = N\<lparr>lad_degradedReason := reason\<rparr>" for N reason
      using that M by (simp add: op_keeps_def) (blast)
    have restore: "op_keeps L L' (at w')"
      if "op_keeps M N (at w')" "L' = N\<lparr>lad_activeIndex := lad_activeIndex L, lad_active := lad_active L\<rparr>"
         "lad_baselineSet N" for N
    proof -
      have names: "map tier_name (lad_tiers N) = map tier_name (lad_tiers L)" "lad_probe N = lad_probe L"
        "ladder_ok N" using that(1) M by (simp_all add: op_keeps_def)
      then have "length (lad_tiers N) = length (lad_tiers L)" by (metis length_map)
      moreover have "tier_name (lad_tiers N ! lad_activeIndex L) = lad_active L"
        using names(1) i calculation by (metis nth_map)
      ultimately show ?thesis
        using that names i M by (auto simp: op_keeps_def intro!: ladder_ok_restore)
    qed
    show ?thesis
    proof (cases ok)
      case True
      then obtain i N where N: "lad_activeIndex L < i" "settled M i N w'"
        "L' = N\<lparr>lad_degradedReason := tier_name (lad_tiers L ! lad_activeIndex L) @ '':'' @ deviceFaultName fault\<rparr>"
        using res by (auto simp: M_def Let_def)
      note s = settled_keeps [OF N(2) M(1)]
      have "length (lad_tiers N) = length (lad_tiers L)"
        using s(1) M(2) by (metis length_map op_keeps_def)
      with keep [OF s(1) N(3)] N s True now show ?thesis by (simp add: M_def markFault_name)
    next
      case fail: False
      then obtain N i where N: "settled M i N w' \<or> same_but_cache M N"
        "L' = N\<lparr>lad_activeIndex := lad_activeIndex L, lad_active := lad_active L\<rparr>"
        using res by (auto simp: M_def Let_def)
      have "op_keeps M N (at w') \<and> lad_baselineSet N"
        using N(1)
      proof
        assume "settled M i N w'"
        then show ?thesis using settled_keeps(1) [OF _ M(1)] by (auto simp: settled_def)
      next
        assume "same_but_cache M N"
        then show ?thesis using op_keeps_same [OF _ M(1)] i(2) same_sel(3) [of M N] by (simp add: M_def)
      qed
      with restore N(2) fail now show ?thesis by simp
    qed
  qed
  then show "op_keeps L L' (at w')" "at w \<le> at w'"
    "ok \<Longrightarrow> lad_activeIndex L < lad_activeIndex L' \<and> lad_activeIndex L' < length (lad_tiers L) \<and>
       lad_active L' = tier_name (lad_tiers L ! lad_activeIndex L')"
    "\<not> ok \<Longrightarrow> lad_activeIndex L' = lad_activeIndex L \<and> lad_active L' = lad_active L" by auto
qed

lemma fault_cpu_cached:
  assumes "reportFault clk fault detail L w = (ok, L', w')" and "lad_probe L = probe" and "cpu_cached L"
  shows "cpu_cached L'"
proof -
  obtain now w1 where c: "clk w = (now, w1)" by force
  obtain ok1 N w2 where sel: "select clk (markFault now fault detail L) w1 = (ok1, N, w2)" by (metis prod_cases3)
  have "cpu_cached N"
    using assms by (intro selectFrom_cpu_cached [OF sel [unfolded select_def]]) (simp_all add: mark_cpu_cached)
  with assms c sel show ?thesis
    by (auto simp: reportFault_def Let_def cpu_cached_def split: if_splits)
qed

end

section \<open>The ladder on a machine\<close>

text \<open>
  A world: the steady clock, by how much each further reading of it is later, and the machine the
  probes see at each time.
\<close>

record os_world =
  w_now :: int
  w_ticks :: "nat list"
  w_machine :: "int \<Rightarrow> probe_os"

definition steadyNow :: "os_world clock" where
  "steadyNow w =
     (w_now w, w\<lparr>w_now := w_now w + (case w_ticks w of [] \<Rightarrow> 0 | t # ts \<Rightarrow> int t), w_ticks := tl (w_ticks w)\<rparr>)"

definition osProbe :: "string \<Rightarrow> os_world \<Rightarrow> ProbeResult \<times> os_world" where
  "osProbe name w = (probeDevice (w_machine w (w_now w)) name, w)"

interpretation osw: ladder_world steadyNow osProbe w_now
  by unfold_locales (auto simp: steadyNow_def osProbe_def split: list.splits)

text \<open>One move of a worker on its ladder; between moves time passes and the machine may change.\<close>

inductive ladder_step ::
  "os_world DeviceLadder \<times> os_world \<Rightarrow> os_world DeviceLadder \<times> os_world \<Rightarrow> bool" where
  step_select: "select steadyNow L w = (ok, L', w') \<Longrightarrow> ladder_step (L, w) (L', w')"
| step_recover: "recoverEligibleTier steadyNow L w = (ok, L', w') \<Longrightarrow> ladder_step (L, w) (L', w')"
| step_fault: "reportFault steadyNow fault detail L w = (ok, L', w') \<Longrightarrow> ladder_step (L, w) (L', w')"
| step_state: "tierState steadyNow i L w = (str, L', w') \<Longrightarrow> ladder_step (L, w) (L', w')"
| step_json: "ladderToJson steadyNow L w = (str, L', w') \<Longrightarrow> ladder_step (L, w) (L', w')"
| step_elapse: "w_now w \<le> w_now w' \<Longrightarrow> ladder_step (L, w) (L, w')"

inductive_cases ladder_stepE: "ladder_step (L, w) (L', w')"

definition good_ladder :: "os_world DeviceLadder \<Rightarrow> bool" where
  "good_ladder L \<longleftrightarrow> ladder_ok L \<and> lad_probe L = osProbe \<and> cpu_cached L"

lemma step_keeps:
  assumes "ladder_step (L, w) (L', w')" and "good_ladder L"
  shows "op_keeps L L' (w_now w') \<and> cpu_cached L' \<and> w_now w \<le> w_now w'"
proof -
  have good: "ladder_ok L" "lad_probe L = osProbe" "cpu_cached L" using assms(2) by (simp_all add: good_ladder_def)
  from assms(1) show ?thesis
  proof (cases rule: ladder_stepE [consumes 1])
    case (1 ok)
    then show ?thesis
      using osw.select_keeps [OF 1 good(2,1)] osw.select_spec(1) [OF 1 good(2)]
        osw.selectFrom_cpu_cached [OF 1 [unfolded select_def] good(2) _ good(3)] by simp
  next
    case (2 ok)
    have b: "lad_active L \<noteq> [] \<Longrightarrow> lad_activeIndex L < length (lad_tiers L)"
      using good(1) by (simp add: ladder_ok_def)
    have "cpu_cached L'"
      using 2 good b osw.recoverFrom_cpu_cached [of "[0..<lad_activeIndex L]" L w ok L' w']
      by (auto simp: recoverEligibleTier_def split: if_splits)
    then show ?thesis
      using osw.recover_keeps(1) [OF 2 good(2,1)] osw.recover_spec(1) [OF 2 good(2) b] by simp
  next
    case (3 fault detail ok)
    then show ?thesis
      using osw.fault_keeps(1,2) [OF 3 good(2,1)] osw.fault_cpu_cached [OF 3 good(2,3)] by simp
  next
    case (4 i str)
    then show ?thesis using osw.tierState_spec [OF 4 good(2)] good op_keeps_same by blast
  next
    case (5 str)
    then show ?thesis using osw.ladderToJson_spec [OF 5 good(2)] good op_keeps_same by blast
  next
    case 6
    then show ?thesis using good by (simp add: op_keeps_same)
  qed
qed

lemma steps_keep:
  assumes "ladder_step\<^sup>*\<^sup>* (L, w) (L', w')" and "good_ladder L"
  shows "op_keeps L L' (w_now w') \<and> good_ladder L' \<and> w_now w \<le> w_now w'"
  using assms(1)
proof (induction "(L', w')" arbitrary: L' w' rule: rtranclp_induct)
  case base
  with assms(2) show ?case by (auto simp: op_keeps_same good_ladder_def)
next
  case (step c)
  obtain K v where c: "c = (K, v)" by force
  note IH = step(3) [OF c]
  have K: "good_ladder K" using IH by simp
  note s = step_keeps [OF step(2) [unfolded c] K]
  have "good_ladder L'" using s K unfolding good_ladder_def op_keeps_def by simp
  moreover have "op_keeps L L' (w_now w')" using IH s by (blast intro: op_keeps_trans)
  ultimately show ?case using IH s by simp
qed

lemma new_ladder_good: "good_ladder (newDeviceLadder osProbe order q p)"
  by (auto simp: good_ladder_def ladder_ok_def newDeviceLadder_def cpu_cached_def freshTier_def
      tier_ok_def list_all_iff)

section \<open>What the ladder promises\<close>

text \<open>However a ladder is used, its bookkeeping stays coherent. From the constructor on, after any
  sequence of selections, faults, recoveries and reports, the tiers keep their names and order, an active
  name is the name of the active index, the baseline is a tier of the ladder, and a tier lost for the
  session has a recorded fault.\<close>

theorem ladder_invariant:
  assumes "ladder_step\<^sup>*\<^sup>* (newDeviceLadder osProbe order q p, w0) (L, w)"
  shows "ladder_ok L \<and> map tier_name (lad_tiers L) = order"
proof -
  have "map tier_name (lad_tiers (newDeviceLadder osProbe order q p)) = order"
    by (simp add: newDeviceLadder_def freshTier_def comp_def)
  with steps_keep [OF assms new_ladder_good] show ?thesis by (simp add: op_keeps_def)
qed

definition demoMachine :: "string list \<Rightarrow> probe_os" where
  "demoMachine paths = \<lparr>po_platform = Linux, po_readable = (\<lambda>p. p \<in> set paths),
     po_loads = (\<lambda>l. False), po_env = Map.empty\<rparr>"

definition demoWorld :: os_world where
  "demoWorld = \<lparr>w_now = 0, w_ticks = [], w_machine = (\<lambda>t. demoMachine [''/dev/nvidia0''])\<rparr>"

text \<open>A ladder after its first selection, and after the tier it got was removed.\<close>

definition demoLadder :: "os_world DeviceLadder" where
  "demoLadder = newDeviceLadder osProbe [''cuda'', ''cpu''] 1000 0"

definition demoSelected :: "os_world DeviceLadder" where
  "demoSelected = fst (snd (select steadyNow demoLadder demoWorld))"

definition demoFaulted :: "os_world DeviceLadder" where
  "demoFaulted = fst (snd (reportFault steadyNow KRemoved ''lost'' demoSelected demoWorld))"

lemmas demo_simps = demoLadder_def demoSelected_def demoFaulted_def demoWorld_def demoMachine_def
  newDeviceLadder_def freshTier_def select_def usable_def probeTierCached_def steadyNow_def osProbe_def
  probeDevice_def findBackend_def kBackends_def backendRow_def probeCuda_def probeCpu_def
  anyPathReadable_def reportFault_def markFault_def set_tier_def Let_def

lemma demo_select: "select steadyNow demoLadder demoWorld = (True, demoSelected, demoWorld)"
  by (simp add: demo_simps)

lemma demo_fault:
  "reportFault steadyNow KRemoved ''lost'' demoSelected demoWorld = (True, demoFaulted, demoWorld)"
  by (simp add: demo_simps numeral_2_eq_2)

lemma demo_indices: "lad_activeIndex demoSelected = 0" "lad_activeIndex demoFaulted = 1"
  "lad_active demoSelected = ''cuda''" "lad_active demoFaulted = ''cpu''"
  "tier_sessionFatal (lad_tiers demoFaulted ! 0)" "length (lad_tiers demoFaulted) = 2"
  by (simp_all add: demo_simps numeral_2_eq_2)

lemma demo_steps:
  "ladder_step\<^sup>*\<^sup>* (demoLadder, demoWorld) (demoSelected, demoWorld)"
  "ladder_step\<^sup>*\<^sup>* (demoLadder, demoWorld) (demoFaulted, demoWorld)"
  using step_select [OF demo_select] step_fault [OF demo_fault] by auto

theorem ladder_invariant_witness:
  "ladder_step\<^sup>*\<^sup>* (demoLadder, demoWorld) (demoFaulted, demoWorld) \<and> ladder_ok demoFaulted"
  using ladder_invariant [OF demo_steps(2) [unfolded demoLadder_def]] demo_steps(2) by simp

text \<open>C2: a benched tier stays out. Once the ladder has left a tier that is quarantined until \<open>T\<close>, or
  lost for the session, no sequence of operations brings the worker back onto it before \<open>T\<close> (or ever,
  without a new session), whatever the probes say meanwhile.\<close>

theorem benched_tier_stays_out:
  assumes "ladder_step\<^sup>*\<^sup>* (newDeviceLadder osProbe order q p, w0) (L, w)"
    and "ladder_step\<^sup>*\<^sup>* (L, w) (L', w')"
    and "i < length (lad_tiers L)" and "lad_activeIndex L \<noteq> i"
    and "tier_sessionFatal (lad_tiers L ! i) \<or> w_now w' < tier_quarantinedUntil (lad_tiers L ! i)"
  shows "lad_activeIndex L' \<noteq> i"
proof -
  have good: "good_ladder L" using steps_keep [OF assms(1) new_ladder_good] by blast
  have "tier_barred i (w_now w' + 1) L" using assms(3,5) by (auto simp: tier_barred_def)
  with steps_keep [OF assms(2) good] assms(4) show ?thesis
    using op_keeps_barred by (metis less_add_one)
qed

theorem benched_tier_stays_out_witness:
  "lad_activeIndex demoFaulted = 1 \<and>
   (let (ok, L', w') = select steadyNow demoFaulted (demoWorld\<lparr>w_now := 7000000000\<rparr>)
    in ladder_step\<^sup>*\<^sup>* (demoFaulted, demoWorld) (L', w') \<and> lad_activeIndex L' \<noteq> 0)"
proof -
  obtain ok L' w' where s: "select steadyNow demoFaulted (demoWorld\<lparr>w_now := 7000000000\<rparr>) = (ok, L', w')"
    by (metis prod_cases3)
  have "ladder_step (demoFaulted, demoWorld) (demoFaulted, demoWorld\<lparr>w_now := 7000000000\<rparr>)"
    by (rule step_elapse) (simp add: demoWorld_def)
  with step_select [OF s] have "ladder_step\<^sup>*\<^sup>* (demoFaulted, demoWorld) (L', w')" by auto
  moreover from benched_tier_stays_out [OF demo_steps(2) [unfolded demoLadder_def] this, of 0]
  have "lad_activeIndex L' \<noteq> 0" using demo_indices by simp
  ultimately show ?thesis using s demo_indices by simp
qed

text \<open>A fault only ever moves the worker down. When \<^verbatim>\<open>reportFault\<close> says that another tier took
  over, that tier is strictly below the faulted one and is the active one by index and by name; when it
  says none did, the worker stays where it was instead of being left without a device.\<close>

theorem fault_moves_down:
  assumes "ladder_step\<^sup>*\<^sup>* (newDeviceLadder osProbe order q p, w0) (L, w)"
    and "reportFault steadyNow fault detail L w = (ok, L', w')"
  shows "if ok then lad_activeIndex L < lad_activeIndex L' \<and> lad_activeIndex L' < length order \<and>
           lad_active L' = order ! lad_activeIndex L'
         else lad_activeIndex L' = lad_activeIndex L \<and> lad_active L' = lad_active L"
proof -
  have good: "good_ladder L" using steps_keep [OF assms(1) new_ladder_good] by blast
  have "map tier_name (lad_tiers L) = order" using ladder_invariant [OF assms(1)] by simp
  then have "length (lad_tiers L) = length order" "\<And>i. i < length order \<Longrightarrow> tier_name (lad_tiers L ! i) = order ! i"
    by auto
  moreover have "lad_probe L = osProbe" "ladder_ok L" using good by (simp_all add: good_ladder_def)
  note f = osw.fault_keeps(3,4) [OF assms(2) this]
  ultimately show ?thesis using f by (cases ok) simp_all
qed

theorem fault_moves_down_witness:
  "reportFault steadyNow KRemoved ''lost'' demoSelected demoWorld = (True, demoFaulted, demoWorld) \<and>
   0 < lad_activeIndex demoFaulted \<and> lad_active demoFaulted = [''cuda'', ''cpu''] ! lad_activeIndex demoFaulted"
  using fault_moves_down [OF demo_steps(1) [unfolded demoLadder_def] demo_fault] demo_fault demo_indices
  by simp

text \<open>The CPU is a floor. On a ladder with a CPU tier that is not benched, \<^verbatim>\<open>select\<close> always finds a
  device: stale probe results, absent accelerators and the state of the other tiers cannot make it fail.\<close>

theorem cpu_tier_is_a_floor:
  assumes "ladder_step\<^sup>*\<^sup>* (newDeviceLadder osProbe order q p, w0) (L, w)"
    and "i < length order" and "order ! i = ''cpu''"
    and "\<not> tier_sessionFatal (lad_tiers L ! i)" and "tier_quarantinedUntil (lad_tiers L ! i) \<le> w_now w"
  shows "fst (select steadyNow L w)"
proof -
  have good: "good_ladder L" using steps_keep [OF assms(1) new_ladder_good] by blast
  have "map tier_name (lad_tiers L) = order" using ladder_invariant [OF assms(1)] by simp
  then have "i < length (lad_tiers L)" "tier_name (lad_tiers L ! i) = ''cpu''"
    using assms(2,3) by auto
  with good assms(4,5) show ?thesis
    by (auto simp: select_def good_ladder_def intro!: osw.selectFrom_total [of i])
qed

theorem cpu_tier_is_a_floor_witness: "fst (select steadyNow demoLadder demoWorld)"
proof -
  have "ladder_step\<^sup>*\<^sup>* (demoLadder, demoWorld) (demoLadder, demoWorld)" by simp
  then show ?thesis
    unfolding demoLadder_def
    by (rule cpu_tier_is_a_floor [where i = 1]) (simp_all add: newDeviceLadder_def freshTier_def demoWorld_def)
qed

end
