(* ===== verification/Worker_Liveness.thy ===== *)
theory Worker_Liveness
  imports Json_Text
begin

text \<open>
  \<^verbatim>\<open>backend/supervisor/workerLiveness.*\<close>: how the supervisor reads a heartbeat line and decides from the
  health record of a worker whether it is dead, together with the line \<^verbatim>\<open>Worker::heartbeatLoop\<close> sends. The
  main fact is that what the worker writes is what the supervisor reads.
\<close>

datatype WorkerLiveness = KHealthy | KStarting | KNoHeartbeat | KStuckRequest

fun workerLivenessName :: "WorkerLiveness \<Rightarrow> string" where
  "workerLivenessName KHealthy = ''healthy''"
| "workerLivenessName KStarting = ''starting''"
| "workerLivenessName KNoHeartbeat = ''no_heartbeat''"
| "workerLivenessName KStuckRequest = ''stuck_request''"

record LivenessLimits =
  lim_startupGraceMs :: int
  lim_heartbeatTimeoutMs :: int
  lim_stuckRequestMs :: int

definition defaultLiveness :: LivenessLimits where
  "defaultLiveness =
     \<lparr>lim_startupGraceMs = 120000, lim_heartbeatTimeoutMs = 15000, lim_stuckRequestMs = 180000\<rparr>"

record WorkerHealth =
  hl_spawnedAtMs :: int
  hl_lastHeartbeatMs :: int
  hl_busyMs :: int

definition freshHealth :: WorkerHealth where
  "freshHealth = \<lparr>hl_spawnedAtMs = 0, hl_lastHeartbeatMs = 0, hl_busyMs = 0\<rparr>"

text \<open>The number after the first \<^verbatim>\<open>"key":\<close>, by \<^verbatim>\<open>find\<close> and \<^verbatim>\<open>strtoll\<close>.\<close>

definition hbExtractNumber :: "string \<Rightarrow> string \<Rightarrow> int option" where
  "hbExtractNumber line key =
     (case after_sub (dquote # key @ [dquote, CHR '':'']) line of
        None \<Rightarrow> None
      | Some start \<Rightarrow> strtoll start)"

definition classifyWorker :: "int \<Rightarrow> WorkerHealth \<Rightarrow> LivenessLimits \<Rightarrow> WorkerLiveness" where
  "classifyWorker nowMs health limits =
     (if hl_lastHeartbeatMs health \<le> 0 then
        (if lim_startupGraceMs limits \<le> 0 \<or> nowMs - hl_spawnedAtMs health \<le> lim_startupGraceMs limits
         then KStarting else KNoHeartbeat)
      else if lim_heartbeatTimeoutMs limits > 0 \<and>
              nowMs - hl_lastHeartbeatMs health > lim_heartbeatTimeoutMs limits then KNoHeartbeat
      else if lim_stuckRequestMs limits > 0 \<and> hl_busyMs health > lim_stuckRequestMs limits then KStuckRequest
      else KHealthy)"

text \<open>The id is tested for a sign before it is narrowed to an \<^verbatim>\<open>int\<close>.\<close>

definition parseHeartbeat :: "string \<Rightarrow> (int \<times> int) option" where
  \<open>parseHeartbeat line =
     (if find_sub ''"type":"heartbeat"'' line = None then None
      else case hbExtractNumber line ''workerId'' of
        None \<Rightarrow> None
      | Some i \<Rightarrow>
          if i < 0 then None
          else Some (to_int32 i, case hbExtractNumber line ''busyMs'' of None \<Rightarrow> 0 | Some busy \<Rightarrow> busy))\<close>

text \<open>One heartbeat; a start time of 0 is an idle worker. The device name is not escaped.\<close>

definition heartbeatText :: "int \<Rightarrow> int \<Rightarrow> int \<Rightarrow> string \<Rightarrow> string" where
  \<open>heartbeatText workerId startedAt now device =
     (let busyMs = (if startedAt = 0 then 0 else now - startedAt) in
      ''{"type":"heartbeat","workerId":'' @ int_str workerId @ '',"status":"'' @
      (if startedAt = 0 then ''ready'' else ''busy'') @ ''","device":"'' @ device @
      ''","busyMs":'' @ int_str busyMs @ ''}'' @ [newline])\<close>

lemma after_sub_skip:
  "dquote \<notin> set p \<Longrightarrow> after_sub (dquote # n) (p @ s) = after_sub (dquote # n) s"
  by (induction p) auto

lemma int_str_no_quote [simp]: "dquote \<notin> set (int_str i)" "newline \<notin> set (int_str i)"
proof -
  have "\<not> is_digit dquote" "\<not> is_digit newline" by (simp_all add: is_digit_def)
  then have "dquote \<notin> set (nat_str n)" "newline \<notin> set (nat_str n)" for n
    using nat_str_digits by blast+
  then show "dquote \<notin> set (int_str i)" "newline \<notin> set (int_str i)"
    by (simp_all add: int_str_def)
qed

lemma quoted_word_differs:
  assumes "dquote \<notin> set d" and "dquote \<notin> set k" and "c \<noteq> c'"
  shows "strip_prefix (k @ [dquote, c]) (d @ dquote # c' # s) = None"
proof (rule ccontr)
  assume "strip_prefix (k @ [dquote, c]) (d @ dquote # c' # s) \<noteq> None"
  then obtain r where eq: "d @ dquote # c' # s = k @ dquote # c # r" by (auto simp: strip_prefix_Some)
  have "takeWhile (\<lambda>x. x \<noteq> dquote) (d @ dquote # c' # s) = d"
    "takeWhile (\<lambda>x. x \<noteq> dquote) (k @ dquote # c # r) = k"
    using assms by (auto simp: takeWhile_append)
  with eq assms(3) show False by simp
qed

lemma hb_prefix:
  \<open>find_sub ''"type":"heartbeat"'' (''{"type":"heartbeat","workerId":'' @ s) \<noteq> None\<close>
  by simp

lemma hb_workerId:
  \<open>hbExtractNumber (''{"type":"heartbeat","workerId":'' @ s) ''workerId'' = strtoll s\<close>
  by (simp add: hbExtractNumber_def)

lemma hb_busy:
  assumes "dquote \<notin> set device"
  shows \<open>hbExtractNumber (''{"type":"heartbeat","workerId":'' @ int_str i @ '',"status":"'' @
      (if b then ''ready'' else ''busy'') @ ''","device":"'' @ device @ ''","busyMs":'' @ s) ''busyMs''
    = strtoll s\<close>
  using assms quoted_word_differs [OF assms, of "''busyMs''" "CHR '':''" "CHR '',''"]
  by (cases b) (simp_all add: hbExtractNumber_def after_sub_skip)

text \<open>The line with its end, or as the supervisor cuts it out of what a client sent.\<close>

lemma parse_heartbeat_line:
  assumes "0 \<le> workerId" and "in_int32 workerId"
    and "in_int64 (now - startedAt)" and "dquote \<notin> set device"
  shows "parseHeartbeat (butlast (heartbeatText workerId startedAt now device) @ e) =
    Some (workerId, if startedAt = 0 then 0 else now - startedAt)"
proof -
  have ids: "in_int64 workerId" using assms(2) by (simp add: in_int32_def in_int64_def)
  define busy where "busy = (if startedAt = 0 then 0 else now - startedAt)"
  have busy: "in_int64 busy" using assms(3) by (simp add: busy_def in_int64_def)
  have "strtoll (int_str workerId @ CHR '','' # s) = Some workerId" for s
    using strtoll_int_str [OF ids, of "CHR '','' # s"] by (simp add: is_digit_def)
  moreover have "strtoll (int_str busy @ CHR ''}'' # s) = Some busy" for s
    using strtoll_int_str [OF busy, of "CHR ''}'' # s"] by (simp add: is_digit_def)
  ultimately show ?thesis
    using hb_prefix hb_workerId hb_busy [OF assms(4), of workerId "startedAt = 0"] assms(1) to_int32_id [OF assms(2)]
    unfolding heartbeatText_def parseHeartbeat_def Let_def busy_def [symmetric]
    by (simp add: busy_def butlast_append split del: if_split)
qed

lemma heartbeat_one_line:
  "newline \<notin> set device \<Longrightarrow> newline \<notin> set (butlast (heartbeatText workerId startedAt now device))"
  "butlast (heartbeatText workerId startedAt now device) @ [newline] = heartbeatText workerId startedAt now device"
  by (auto simp: heartbeatText_def Let_def butlast_append)

text \<open>The heartbeat protocol is lossless. For every worker id and every start time and clock in range,
  the line a worker sends is read by the supervisor as that worker's id and its busy time, 0 for an idle
  worker, whatever the device name, as long as it holds no quote.\<close>

theorem heartbeat_roundtrip:
  assumes "0 \<le> workerId" and "in_int32 workerId"
    and "in_int64 (now - startedAt)" and "dquote \<notin> set device"
  shows "parseHeartbeat (heartbeatText workerId startedAt now device) =
    Some (workerId, if startedAt = 0 then 0 else now - startedAt)"
  using parse_heartbeat_line [OF assms, of "[newline]"] by (simp only: heartbeat_one_line(2))

theorem heartbeat_roundtrip_witness:
  "parseHeartbeat (heartbeatText 3 1000 4500 ''cuda'') = Some (3, 3500)"
  using heartbeat_roundtrip [of 3 4500 1000 "''cuda''"] by (simp add: in_int32_def in_int64_def)

text \<open>A worker that beats in time and is not wedged is left alone; a silent one is not.\<close>

lemma classify_alive:
  assumes "0 < hl_lastHeartbeatMs h" and "nowMs - hl_lastHeartbeatMs h \<le> lim_heartbeatTimeoutMs l"
    and "hl_busyMs h \<le> lim_stuckRequestMs l"
  shows "classifyWorker nowMs h l = KHealthy"
  using assms by (simp add: classifyWorker_def)

lemma classify_dead_iff:
  "classifyWorker nowMs h l \<in> {KNoHeartbeat, KStuckRequest} \<longleftrightarrow>
    (if hl_lastHeartbeatMs h \<le> 0
     then 0 < lim_startupGraceMs l \<and> lim_startupGraceMs l < nowMs - hl_spawnedAtMs h
     else 0 < lim_heartbeatTimeoutMs l \<and> lim_heartbeatTimeoutMs l < nowMs - hl_lastHeartbeatMs h \<or>
          0 < lim_stuckRequestMs l \<and> lim_stuckRequestMs l < hl_busyMs h)"
  by (auto simp: classifyWorker_def)

lemma parseHeartbeat_range: "parseHeartbeat line = Some (i, b) \<Longrightarrow> in_int32 i"
  by (auto simp: parseHeartbeat_def to_int32_range split: if_splits option.splits)

end
