(* ===== verification/Crash_Control.thy ===== *)
theory Crash_Control
  imports Json_Text
begin

text \<open>
  The parts of \<^verbatim>\<open>backend/supervisor/supervisor.cpp\<close> that decide whether a crashed process may come
  back: the reading of a wait status, the circuit breaker in memory, and the crash log on disk with the
  count the supervisor takes from it.
\<close>

datatype ProcessType = KModelCache | KApiServer | KWorker

record ProcessInfo =
  pi_pid :: int
  pi_type :: ProcessType
  pi_workerId :: int
  pi_socketPath :: string
  pi_crashLog :: string
  pi_command :: "string list"

fun processTypeToString :: "ProcessType \<Rightarrow> string" where
  "processTypeToString KModelCache = ''model-cache''"
| "processTypeToString KApiServer = ''api-server''"
| "processTypeToString KWorker = ''worker''"

section \<open>Wait statuses\<close>

text \<open>The macros of \<^verbatim>\<open>sys/wait.h\<close> on Linux.\<close>

definition wTermSig :: "nat \<Rightarrow> nat" where
  "wTermSig status = status mod 128"

definition wExitStatus :: "nat \<Rightarrow> nat" where
  "wExitStatus status = (status div 256) mod 256"

definition wIfExited :: "nat \<Rightarrow> bool" where
  "wIfExited status \<longleftrightarrow> wTermSig status = 0"

definition wIfSignaled :: "nat \<Rightarrow> bool" where
  "wIfSignaled status \<longleftrightarrow> wTermSig status \<noteq> 0 \<and> wTermSig status \<noteq> 127"

definition wIfStopped :: "nat \<Rightarrow> bool" where
  "wIfStopped status \<longleftrightarrow> status mod 256 = 127"

definition statusToReason :: "nat \<Rightarrow> string" where
  "statusToReason status =
     (if wIfExited status then ''exit_'' @ nat_str (wExitStatus status)
      else if wIfSignaled status then ''signal_'' @ nat_str (wTermSig status)
      else if wIfStopped status then ''stopped_'' @ nat_str (wExitStatus status)
      else ''unknown'')"

definition exitStatus :: "nat \<Rightarrow> nat" where
  "exitStatus code = (code mod 256) * 256"

lemma wait_macros [simp]:
  "wIfExited (exitStatus c)" "wExitStatus (exitStatus c) = c mod 256" "\<not> wIfSignaled (exitStatus c)"
  by (simp_all add: wIfExited_def wTermSig_def exitStatus_def wExitStatus_def wIfSignaled_def mod_mult_eq)

section \<open>The breaker in memory\<close>

text \<open>The history of crash times per key, oldest first; a key never seen has the empty queue.\<close>

type_synonym crash_history = "int \<Rightarrow> int list"

definition kCrashThreshold :: nat where "kCrashThreshold = 3"

definition kWindow :: int where "kWindow = 60000000000"

definition kCircuitKeyModelCache :: int where "kCircuitKeyModelCache = -1001"

definition kCircuitKeyApiServer :: int where "kCircuitKeyApiServer = -1002"

definition pruneLocked :: "int \<Rightarrow> int \<Rightarrow> crash_history \<Rightarrow> crash_history" where
  "pruneLocked key now h = h(key := dropWhile (\<lambda>t. t < now - kWindow) (h key))"

definition registerCrash :: "int \<Rightarrow> int \<Rightarrow> crash_history \<Rightarrow> bool \<times> crash_history" where
  "registerCrash key now h =
     (let h = h(key := h key @ [now]); h = pruneLocked key now h
      in (length (h key) \<ge> kCrashThreshold, h))"

text \<open>A history of crashes: key and time, in the order they happened.\<close>

definition breakerAfter :: "(int \<times> int) list \<Rightarrow> crash_history" where
  "breakerAfter es = fold (\<lambda>(k, t) h. snd (registerCrash k t h)) es (\<lambda>k. [])"

definition crashTimes :: "int \<Rightarrow> (int \<times> int) list \<Rightarrow> int list" where
  "crashTimes k es = map snd (filter (\<lambda>e. fst e = k) es)"

lemma dropWhile_dropWhile_append:
  "(\<And>x. Q x \<Longrightarrow> P x) \<Longrightarrow> dropWhile P (dropWhile Q xs @ ys) = dropWhile P (xs @ ys)"
  by (induction xs) auto

lemma dropWhile_sorted:
  "sorted xs \<Longrightarrow> dropWhile (\<lambda>t. t < (b :: int)) xs = filter (\<lambda>t. b \<le> t) xs"
proof (induction xs)
  case (Cons x xs)
  then show ?case by (cases "x < b") (auto intro!: filter_True [symmetric])
qed simp

lemma breaker_history:
  "sorted (map snd es) \<Longrightarrow> \<exists>b. (\<forall>e \<in> set es. snd e \<le> T) \<longrightarrow>
     breakerAfter es k = dropWhile (\<lambda>t. t < b) (crashTimes k es) \<and> b \<le> T - kWindow"
proof (induction es arbitrary: T rule: rev_induct)
  case Nil
  then show ?case by (auto simp: breakerAfter_def crashTimes_def intro: exI [of _ "T - kWindow"])
next
  case (snoc e es)
  obtain k' t where e: "e = (k', t)" by force
  from snoc.prems have le: "sorted (map snd es)" "\<forall>e \<in> set es. snd e \<le> t"
    by (auto simp: sorted_append e)
  obtain b where b: "breakerAfter es k = dropWhile (\<lambda>t. t < b) (crashTimes k es)" "b \<le> t - kWindow"
    using snoc.IH [OF le(1), of t] le(2) by auto
  show ?case
  proof (cases "k' = k")
    case True
    then have "breakerAfter (es @ [e]) k =
        dropWhile (\<lambda>x. x < t - kWindow) (dropWhile (\<lambda>t. t < b) (crashTimes k es) @ [t])"
      using b by (simp add: breakerAfter_def e registerCrash_def pruneLocked_def Let_def)
    also have "\<dots> = dropWhile (\<lambda>x. x < t - kWindow) (crashTimes k es @ [t])"
      using b(2) by (intro dropWhile_dropWhile_append) simp
    finally show ?thesis
      using True by (intro exI [of _ "t - kWindow"]) (simp add: crashTimes_def e)
  next
    case False
    then show ?thesis
      using b by (intro exI [of _ b])
        (auto simp: breakerAfter_def e registerCrash_def pruneLocked_def Let_def crashTimes_def)
  qed
qed

text \<open>C13: the breaker implements its rule. On a clock that does not run backwards, whatever was recorded
  before for this or any other process, registering a crash opens the circuit exactly if it is at least
  the third crash of the same process in the last 60 seconds, ends included. Crashes of other processes
  never count, and pruning never forgets one that still counts.\<close>

theorem breaker_opens_iff_three_recent:
  assumes "sorted (map snd (es @ [(k, t)]))"
  shows "fst (registerCrash k t (breakerAfter es)) \<longleftrightarrow>
    3 \<le> length (filter (\<lambda>e. fst e = k \<and> t - 60000000000 \<le> snd e) (es @ [(k, t)]))"
proof -
  have le: "sorted (map snd es)" "\<forall>e \<in> set es. snd e \<le> t" using assms by (auto simp: sorted_append)
  obtain b where b: "breakerAfter es k = dropWhile (\<lambda>t. t < b) (crashTimes k es)" "b \<le> t - kWindow"
    using breaker_history [OF le(1), of t] le(2) by auto
  have srt: "sorted (crashTimes k es @ [t])"
    using le by (auto simp: crashTimes_def sorted_append intro: sorted_filter)
  have "snd (registerCrash k t (breakerAfter es)) k =
      dropWhile (\<lambda>x. x < t - kWindow) (crashTimes k es @ [t])"
    using b dropWhile_dropWhile_append [of "\<lambda>t. t < b" "\<lambda>x. x < t - kWindow"]
    by (simp add: registerCrash_def pruneLocked_def Let_def)
  also have "\<dots> = filter (\<lambda>x. t - kWindow \<le> x) (crashTimes k es @ [t])"
    using dropWhile_sorted [OF srt] .
  also have "\<dots> = map snd (filter (\<lambda>e. fst e = k \<and> t - 60000000000 \<le> snd e) (es @ [(k, t)]))"
    by (simp add: crashTimes_def kWindow_def filter_map comp_def)
  finally show ?thesis
    by (simp add: registerCrash_def Let_def kCrashThreshold_def)
qed

theorem breaker_opens_iff_three_recent_witness:
  "fst (registerCrash 1 60000000000 (breakerAfter [(1, 0), (2, 5), (1, 7)])) \<and>
   \<not> fst (registerCrash 2 60000000000 (breakerAfter [(1, 0), (2, 5), (1, 7)]))"
  using breaker_opens_iff_three_recent [of "[(1, 0), (2, 5), (1, 7)]" 1 60000000000]
    breaker_opens_iff_three_recent [of "[(1, 0), (2, 5), (1, 7)]" 2 60000000000] by simp

section \<open>The crash log\<close>

definition supEscapeChar :: "char \<Rightarrow> string" where
  "supEscapeChar ch =
     (if ch = bslash then [bslash, bslash]
      else if ch = dquote then [bslash, dquote]
      else if ch = newline then [bslash, CHR ''n'']
      else if ch = creturn then [bslash, CHR ''r'']
      else if ch = htab then [bslash, CHR ''t'']
      else [ch])"

definition supJsonEscape :: "string \<Rightarrow> string" where
  "supJsonEscape input = concat (map supEscapeChar input)"

lemma supJsonEscape_eq [simp]: "supJsonEscape = json_escape"
proof -
  have "supEscapeChar = json_escape_char"
    by (rule ext) (simp add: supEscapeChar_def json_escape_char_def)
  then show ?thesis by (intro ext) (simp add: supJsonEscape_def json_escape_def)
qed

text \<open>The line \<^verbatim>\<open>writeCrashLog\<close> appends, without its newline.\<close>

definition crashLine :: "int \<Rightarrow> ProcessInfo \<Rightarrow> nat \<Rightarrow> string \<Rightarrow> string" where
  \<open>crashLine ts info status reason =
     ''{"ts":'' @ int_str ts @ '',"pid":'' @ int_str (pi_pid info) @ '',"type":"'' @
     processTypeToString (pi_type info) @ ''","workerId":'' @ int_str (pi_workerId info) @
     '',"status":'' @ nat_str status @ '',"reason":"'' @ supJsonEscape reason @ ''"}''\<close>

definition val_literal :: "string \<Rightarrow> string \<Rightarrow> unit option" where
  "val_literal lit s = (if starts_with lit s then Some () else None)"

text \<open>
  One line of the log against the three patterns, in the order of the loop: does it count as a recent
  crash of \<open>info\<close>? \<open>Inl\<close> is the exception of \<^verbatim>\<open>stoll\<close> on a timestamp that does not fit.
\<close>

definition lineCounts :: "ProcessInfo \<Rightarrow> int \<Rightarrow> string \<Rightarrow> num_error + bool" where
  "lineCounts info minTs line =
     (case find_digits ''ts'' line of
        None \<Rightarrow> Inr False
      | Some ds \<Rightarrow>
          (case stoll ds of
             Inl e \<Rightarrow> Inl e
           | Inr ts \<Rightarrow>
               Inr (\<not> ts < minTs \<and>
                 re_search (match_field ''type''
                   (val_literal (dquote # processTypeToString (pi_type info) @ [dquote]))) line \<noteq> None \<and>
                 (pi_type info = KWorker \<longrightarrow>
                    re_search (match_field ''workerId'' (val_literal (int_str (pi_workerId info)))) line
                      \<noteq> None))))"

fun countCrashes :: "ProcessInfo \<Rightarrow> int \<Rightarrow> string list \<Rightarrow> num_error + nat" where
  "countCrashes info minTs [] = Inr 0"
| "countCrashes info minTs (line # ls) =
     (case lineCounts info minTs line of
        Inl e \<Rightarrow> Inl e
      | Inr b \<Rightarrow>
          (case countCrashes info minTs ls of
             Inl e \<Rightarrow> Inl e
           | Inr n \<Rightarrow> Inr (if b then Suc n else n)))"

text \<open>\<open>contents\<close> is the log, \<open>None\<close> when it does not open, and \<open>nowSec\<close> the epoch second.\<close>

definition crashLimitOpenFromDisk :: "string option \<Rightarrow> int \<Rightarrow> ProcessInfo \<Rightarrow> num_error + bool" where
  "crashLimitOpenFromDisk contents nowSec info =
     (case contents of
        None \<Rightarrow> Inr False
      | Some text \<Rightarrow>
          (case countCrashes info (nowSec - 60) (split_lines newline text) of
             Inl e \<Rightarrow> Inl e
           | Inr n \<Rightarrow> Inr (3 \<le> n)))"

lemma crashLine_ts:
  assumes "0 \<le> ts"
  shows "find_digits ''ts'' (crashLine ts info status reason) = Some (int_str ts)"
  using assms find_digits_here [of "CHR '','' # s" "''ts''" "nat ts" for s]
  by (simp add: crashLine_def find_digits_def int_str_def re_search_miss is_digit_def)

lemma reason_is_literal:
  "plain_key key \<Longrightarrow> hd key \<noteq> CHR ''}'' \<Longrightarrow>
   re_search (match_field key v) (dquote # json_escape reason @ [dquote, CHR ''}'']) = None"
  by (simp add: re_search_literal closes_value_def is_space_def)

lemma crashLine_type:
  "re_search (match_field ''type'' (val_literal (dquote # processTypeToString q @ [dquote])))
     (crashLine ts info status reason) \<noteq> None \<longleftrightarrow> pi_type info = q"
  by (cases q; cases "pi_type info")
    (simp_all add: crashLine_def re_search_miss re_search_hit match_field_def match_key_def
      val_literal_def starts_with_def is_space_def reason_is_literal plain_key_def)

text \<open>The pattern for a worker id has no boundary after its digits.\<close>

lemma strip_prefix_int:
  "strip_prefix (int_str i) (int_str j @ CHR '','' # s) \<noteq> None \<longleftrightarrow> take (length (int_str i)) (int_str j) = int_str i"
proof
  have nc: "CHR '','' \<notin> set (int_str k)" for k
  proof -
    have "\<not> is_digit (CHR '','')" by (simp add: is_digit_def)
    then have "CHR '','' \<notin> set (nat_str n)" for n using nat_str_digits by blast
    then show ?thesis by (simp add: int_str_def)
  qed
  assume "strip_prefix (int_str i) (int_str j @ CHR '','' # s) \<noteq> None"
  then obtain r where eq: "int_str j @ CHR '','' # s = int_str i @ r" by (auto simp: strip_prefix_Some)
  show "take (length (int_str i)) (int_str j) = int_str i"
  proof (cases "length (int_str i) \<le> length (int_str j)")
    case True
    have "int_str i = take (length (int_str i)) (int_str j @ CHR '','' # s)" using eq by simp
    with True show ?thesis by simp
  next
    case False
    then have "int_str i ! length (int_str j) = CHR '',''"
      using arg_cong [OF eq, of "\<lambda>x. x ! length (int_str j)"] by (simp add: nth_append)
    with False nc [of i] show ?thesis by (metis not_le nth_mem)
  qed
next
  assume "take (length (int_str i)) (int_str j) = int_str i"
  then have "int_str j @ CHR '','' # s = int_str i @ drop (length (int_str i)) (int_str j) @ CHR '','' # s"
    by (metis append.assoc append_take_drop_id)
  then have "strip_prefix (int_str i) (int_str j @ CHR '','' # s) =
      Some (drop (length (int_str i)) (int_str j) @ CHR '','' # s)"
    by (simp only: strip_prefix_Some)
  then show "strip_prefix (int_str i) (int_str j @ CHR '','' # s) \<noteq> None" by simp
qed

lemma int_str_start: "\<exists>c cs. int_str j = c # cs \<and> \<not> is_space c"
proof (cases "0 \<le> j")
  case True
  then show ?thesis
    using nat_str_hd_digit [of "nat j"] digit_not_space
    by (cases "nat_str (nat j)") (auto simp: int_str_def)
qed (simp add: int_str_def is_space_def)

lemma crashLine_worker:
  "re_search (match_field ''workerId'' (val_literal (int_str i))) (crashLine ts info status reason) \<noteq> None
   \<longleftrightarrow> take (length (int_str i)) (int_str (pi_workerId info)) = int_str i"
proof -
  let ?rest = "'',\"status\":'' @ nat_str status @ '',\"reason\":\"'' @ json_escape reason @ ''\"}''"
  let ?m = "match_field ''workerId'' (val_literal (int_str i))"
  obtain c cs where j: "int_str (pi_workerId info) = c # cs" "\<not> is_space c" using int_str_start by blast
  have tail: "re_search ?m (''workerId'' @ dquote # CHR '':'' # int_str (pi_workerId info) @ ?rest) = None"
    by (simp add: re_search_miss match_field_def match_key_def is_space_def reason_is_literal plain_key_def)
  define here where "here = dquote # ''workerId'' @ dquote # CHR '':'' # int_str (pi_workerId info) @ ?rest"
  have line: "re_search ?m (crashLine ts info status reason) = re_search ?m here"
    unfolding here_def by (cases "pi_type info")
      (simp_all add: crashLine_def re_search_miss match_field_def match_key_def is_space_def)
  have "re_search ?m here \<noteq> None \<longleftrightarrow> ?m here \<noteq> None"
    unfolding here_def using tail by (simp add: re_search.simps(2) split: option.split)
  moreover have "?m here \<noteq> None \<longleftrightarrow> take (length (int_str i)) (int_str (pi_workerId info)) = int_str i"
    unfolding here_def
    using strip_prefix_int [of i "pi_workerId info"] j match_key_here [OF j(2), of "''workerId''"]
    by (simp add: match_field_def val_literal_def starts_with_def)
  ultimately show ?thesis using line by simp
qed

text \<open>Whether a recorded crash counts against \<open>q\<close>: same type, and for workers an id that extends \<open>q\<close>'s.\<close>

definition countsAgainst :: "ProcessInfo \<Rightarrow> ProcessInfo \<Rightarrow> bool" where
  "countsAgainst q info \<longleftrightarrow> pi_type info = pi_type q \<and>
     (pi_type q = KWorker \<longrightarrow>
        take (length (int_str (pi_workerId q))) (int_str (pi_workerId info)) = int_str (pi_workerId q))"

lemma lineCounts_crashLine:
  assumes "0 \<le> ts" and "ts \<le> int64_max"
  shows "lineCounts q minTs (crashLine ts info status reason) = Inr (minTs \<le> ts \<and> countsAgainst q info)"
proof -
  have "stoll (int_str ts) = Inr ts" using assms by (simp add: stoll_def sto_range_int_str)
  then show ?thesis
    using crashLine_type [of "pi_type q" ts info status reason]
      crashLine_worker [of "pi_workerId q" ts info status reason]
    by (simp add: lineCounts_def crashLine_ts [OF assms(1)] countsAgainst_def not_less
        eq_commute [of "pi_type info"])
qed

lemma crashLine_no_newline: "newline \<notin> set (crashLine ts info status reason)"
proof -
  have "newline \<notin> set (json_escape r)" for r
    by (induction r) (auto simp: json_escape_char_def)
  moreover have "newline \<notin> set (nat_str n)" for n
  proof -
    have "\<not> is_digit newline" by (simp add: is_digit_def)
    then show ?thesis using nat_str_digits by blast
  qed
  ultimately show ?thesis
    by (cases "pi_type info") (auto simp: crashLine_def int_str_def)
qed

text \<open>A log as the supervisor writes it: one line per crash.\<close>

type_synonym crash_record = "int \<times> ProcessInfo \<times> nat \<times> string"

definition crashText :: "crash_record list \<Rightarrow> string" where
  "crashText es = concat (map (\<lambda>(ts, info, status, reason). crashLine ts info status reason @ [newline]) es)"

lemma countCrashes_text:
  assumes "list_all (\<lambda>(ts, info, status, reason). 0 \<le> ts \<and> ts \<le> int64_max) es"
  shows "countCrashes q minTs (split_lines newline (crashText es)) =
    Inr (length (filter (\<lambda>(ts, info, status, reason). minTs \<le> ts \<and> countsAgainst q info) es))"
  using assms
  by (induction es) (auto simp: crashText_def crashLine_no_newline lineCounts_crashLine split_lines_line split: if_splits)

text \<open>What the breaker on disk really counts. On a log the supervisor wrote, it is open exactly if at
  least three recorded crashes of the last 60 seconds are of the same process type and, for a worker, of a
  worker whose decimal id begins with this worker's id. Other process types never count, nor do older
  lines, nor the text of a reason; but the crashes of workers 10 to 19 do count against worker 1.\<close>

theorem disk_breaker_counts:
  assumes "list_all (\<lambda>(ts, info, status, reason). 0 \<le> ts \<and> ts \<le> int64_max) es"
  shows "crashLimitOpenFromDisk (Some (crashText es)) nowSec q =
    Inr (3 \<le> length (filter (\<lambda>(ts, info, status, reason). nowSec - 60 \<le> ts \<and> pi_type info = pi_type q \<and>
      (pi_type q = KWorker \<longrightarrow>
         take (length (int_str (pi_workerId q))) (int_str (pi_workerId info)) = int_str (pi_workerId q))) es))"
  using countCrashes_text [OF assms, of q "nowSec - 60"]
  by (simp add: crashLimitOpenFromDisk_def countsAgainst_def)

definition demoWorkerInfo :: "int \<Rightarrow> ProcessInfo" where
  "demoWorkerInfo i = \<lparr>pi_pid = 100 + i, pi_type = KWorker, pi_workerId = i, pi_socketPath = [],
     pi_crashLog = [], pi_command = []\<rparr>"

theorem disk_breaker_counts_witness:
  "crashLimitOpenFromDisk (Some (crashText (replicate 3 (1000, demoWorkerInfo 10, 139, ''signal_11''))))
     1010 (demoWorkerInfo 1) = Inr True \<and>
   crashLimitOpenFromDisk (Some (crashText (replicate 3 (1000, demoWorkerInfo 10, 139, ''signal_11''))))
     1010 (demoWorkerInfo 2) = Inr False"
proof -
  have ok: "list_all (\<lambda>(ts, info, status, reason). 0 \<le> ts \<and> ts \<le> int64_max)
      (replicate 3 (1000 :: int, demoWorkerInfo 10, 139 :: nat, ''signal_11''))" by (simp add: numeral_3_eq_3)
  show ?thesis
    unfolding disk_breaker_counts [OF ok]
    by (simp add: numeral_3_eq_3 demoWorkerInfo_def int_str_def digit_char_def
        nat_str.simps [of 10] nat_str.simps [of 2] nat_str.simps [of "Suc 0"])
qed

end
