(* ===== verification/Worker_Reassignment.thy ===== *)
theory Worker_Reassignment
  imports Capacity_Plan
begin

text \<open>
  \<^verbatim>\<open>backend/supervisor/workerReassignment.*\<close>: a worker that lost its GPU exits on purpose, its assignment
  is rewritten to the CPU, and a replacement is started under the new assignment. The vector of
  assignments belongs to the caller and is written through a reference before the hooks run, so the
  hooks see the new entry; \<open>put\<close> is that write. The hooks are functions on the caller's state, and what
  the caller must guarantee of them is the locale \<open>reassignment_client\<close>.
\<close>

datatype ReassignmentOutcome = KNotApplicable | KRestarted | KStartFailed

fun reassignmentOutcomeName :: "ReassignmentOutcome \<Rightarrow> string" where
  "reassignmentOutcomeName KNotApplicable = ''not_applicable''"
| "reassignmentOutcomeName KRestarted = ''restarted''"
| "reassignmentOutcomeName KStartFailed = ''start_failed''"

text \<open>An empty \<^verbatim>\<open>std::function\<close> is \<open>None\<close>.\<close>

record 's ReassignmentHooks =
  rh_startWorker :: "(int \<Rightarrow> 's \<Rightarrow> bool \<times> 's) option"
  rh_notifyCrash :: "(int \<Rightarrow> 's \<Rightarrow> 's) option"
  rh_notifyRestarted :: "(int \<Rightarrow> 's \<Rightarrow> 's) option"

definition reassignReason :: "string \<Rightarrow> string" where
  "reassignReason previous =
     ''device fault on '' @ previous @ '': released model and context, re-exec is the only way to give ''
     @ ''back the cuda primary context''"

text \<open>The first entry with the id, by position.\<close>

fun findAssignment :: "int \<Rightarrow> WorkerAssignment list \<Rightarrow> nat option" where
  "findAssignment workerId [] = None"
| "findAssignment workerId (a # as) =
     (if asg_workerId a = workerId then Some 0 else map_option Suc (findAssignment workerId as))"

definition applyWorkerReassignment ::
  "(WorkerAssignment list \<Rightarrow> 's \<Rightarrow> 's) \<Rightarrow> WorkerAssignment list \<Rightarrow> int \<Rightarrow> bool \<Rightarrow> bool \<Rightarrow>
   's ReassignmentHooks \<Rightarrow> 's \<Rightarrow> ReassignmentOutcome \<times> 's" where
  "applyWorkerReassignment put assignments workerId isReassignExit supervisorRunning hooks s =
     (if workerId < 0 \<or> \<not> isReassignExit \<or> \<not> supervisorRunning then (KNotApplicable, s)
      else case findAssignment workerId assignments of
        None \<Rightarrow> (KNotApplicable, s)
      | Some i \<Rightarrow>
          let target = assignments ! i in
          if asg_backend target \<noteq> KCuda then (KNotApplicable, s)
          else
            let previous = workerBackendName (asg_backend target);
                s = put (assignments[i := demoteToCpu target (reassignReason previous)]) s;
                s = (case rh_notifyCrash hooks of None \<Rightarrow> s | Some notify \<Rightarrow> notify workerId s);
                (started, s) = (case rh_startWorker hooks of None \<Rightarrow> (False, s) | Some start \<Rightarrow> start workerId s)
            in if \<not> started then (KStartFailed, s)
               else (KRestarted, case rh_notifyRestarted hooks of None \<Rightarrow> s | Some notify \<Rightarrow> notify workerId s))"

section \<open>Demotions\<close>

text \<open>One assignment may replace another if it is the same, or the same worker moved to the CPU.\<close>

definition demoted_to :: "WorkerAssignment \<Rightarrow> WorkerAssignment \<Rightarrow> bool" where
  "demoted_to a b \<longleftrightarrow> asg_workerId b = asg_workerId a \<and> asg_gpuIndex b = asg_gpuIndex a \<and>
     (b = a \<or> asg_backend b = KCpu)"

lemma demoted_refl [simp]: "demoted_to a a"
  by (simp add: demoted_to_def)

lemma demoted_trans: "demoted_to a b \<Longrightarrow> demoted_to b c \<Longrightarrow> demoted_to a c"
  by (auto simp: demoted_to_def)

lemma demoted_demote [simp]: "demoted_to a (demoteToCpu a reason)"
  by (simp add: demoted_to_def demoteToCpu_def)

definition demoted_all :: "WorkerAssignment list \<Rightarrow> WorkerAssignment list \<Rightarrow> bool" where
  "demoted_all = list_all2 demoted_to"

lemma demoted_all_refl [simp]: "demoted_all as as"
  by (simp add: demoted_all_def list.rel_refl)

lemma demoted_all_trans: "demoted_all as bs \<Longrightarrow> demoted_all bs cs \<Longrightarrow> demoted_all as cs"
  unfolding demoted_all_def by (rule list_all2_trans [OF demoted_trans])

lemma demoted_all_update: "i < length as \<Longrightarrow> demoted_to (as ! i) b \<Longrightarrow> demoted_all as (as[i := b])"
  by (auto simp: demoted_all_def list_all2_conv_all_nth nth_list_update)

lemma demoted_ids: "demoted_all as bs \<Longrightarrow> map asg_workerId bs = map asg_workerId as"
  unfolding demoted_all_def by (induction rule: list_all2_induct) (auto simp: demoted_to_def)

lemma demoted_gpu_count:
  "demoted_all as bs \<Longrightarrow>
   length (filter (\<lambda>a. asg_backend a = KCuda) bs) \<le> length (filter (\<lambda>a. asg_backend a = KCuda) as)"
  unfolding demoted_all_def by (induction rule: list_all2_induct) (auto simp: demoted_to_def)

lemma findAssignment_Some:
  "findAssignment w as = Some i \<Longrightarrow> i < length as \<and> asg_workerId (as ! i) = w"
  by (induction as arbitrary: i) (auto split: if_splits)

lemma findAssignment_None: "findAssignment w as = None \<longleftrightarrow> w \<notin> asg_workerId ` set as"
  by (induction as) auto

lemma findAssignment_cong:
  "map asg_workerId as = map asg_workerId bs \<Longrightarrow> findAssignment w as = findAssignment w bs"
proof (induction as arbitrary: bs)
  case (Cons a as)
  then show ?case by (cases bs) auto
qed simp

section \<open>The contract with the caller\<close>

text \<open>
  The caller keeps the assignments in its state; starting a worker and notifying the API server leave
  them as they are.
\<close>

locale reassignment_client =
  fixes get :: "'s \<Rightarrow> WorkerAssignment list" and put :: "WorkerAssignment list \<Rightarrow> 's \<Rightarrow> 's"
    and hooks :: "'s ReassignmentHooks"
  assumes get_put: "get (put as s) = as"
    and start_get: "rh_startWorker hooks = Some f \<Longrightarrow> get (snd (f w s)) = get s"
    and crash_get: "rh_notifyCrash hooks = Some g \<Longrightarrow> get (g w s) = get s"
    and restarted_get: "rh_notifyRestarted hooks = Some g \<Longrightarrow> get (g w s) = get s"
begin

abbreviation reassign :: "int \<Rightarrow> bool \<Rightarrow> bool \<Rightarrow> 's \<Rightarrow> ReassignmentOutcome \<times> 's" where
  "reassign w exit running s \<equiv> applyWorkerReassignment put (get s) w exit running hooks s"

lemma reassign_get:
  assumes "reassign w exit running s = (outcome, s')"
  shows "if outcome = KNotApplicable then s' = s
    else 0 \<le> w \<and> exit \<and> running \<and> (\<exists>i. findAssignment w (get s) = Some i \<and> asg_backend (get s ! i) = KCuda \<and>
      get s' = (get s)[i := demoteToCpu (get s ! i) (reassignReason ''cuda'')])"
proof (cases "w < 0 \<or> \<not> exit \<or> \<not> running \<or> findAssignment w (get s) = None")
  case True
  with assms show ?thesis by (auto simp: applyWorkerReassignment_def split: if_splits)
next
  case False
  then obtain i where i: "findAssignment w (get s) = Some i" by auto
  show ?thesis
  proof (cases "asg_backend (get s ! i) = KCuda")
    case False
    with assms i show ?thesis by (auto simp: applyWorkerReassignment_def split: if_splits)
  next
    case True
    let ?s1 = "put ((get s)[i := demoteToCpu (get s ! i) (reassignReason ''cuda'')]) s"
    let ?s2 = "case rh_notifyCrash hooks of None \<Rightarrow> ?s1 | Some notify \<Rightarrow> notify w ?s1"
    obtain ok s3 where s3: "(case rh_startWorker hooks of None \<Rightarrow> (False, ?s2) | Some start \<Rightarrow> start w ?s2) = (ok, s3)"
      by force
    have get2: "get ?s2 = get ?s1" using crash_get by (simp split: option.split)
    have get3: "get s3 = get ?s2" using s3 start_get by (auto split: option.splits) (metis snd_conv)+
    have out: "(outcome, s') = (if \<not> ok then (KStartFailed, s3)
        else (KRestarted, case rh_notifyRestarted hooks of None \<Rightarrow> s3 | Some notify \<Rightarrow> notify w s3))"
      using assms i True False s3 by (simp add: applyWorkerReassignment_def Let_def)
    have "get s' = get s3" using out restarted_get by (auto split: if_splits option.splits)
    with out get2 get3 i True False show ?thesis by (auto simp: get_put split: if_splits)
  qed
qed

lemma reassign_demotes:
  assumes "reassign w exit running s = (outcome, s')"
  shows "demoted_all (get s) (get s')"
  using reassign_get [OF assms] findAssignment_Some
  by (auto intro!: demoted_all_update split: if_splits)

text \<open>The same exit is never honoured twice.\<close>

lemma reassign_once:
  assumes "reassign w exit running s = (outcome, s')" and "outcome \<noteq> KNotApplicable"
  shows "fst (reassign w exit' running' s') = KNotApplicable"
proof -
  obtain i where i: "findAssignment w (get s) = Some i"
    "get s' = (get s)[i := demoteToCpu (get s ! i) (reassignReason ''cuda'')]"
    using reassign_get [OF assms(1)] assms(2) by auto
  note f = findAssignment_Some [OF i(1)]
  have "map asg_workerId (get s') = map asg_workerId (get s)"
    using demoted_ids [OF reassign_demotes [OF assms(1)]] .
  then have "findAssignment w (get s') = findAssignment w (get s)" by (rule findAssignment_cong)
  with i f show ?thesis by (simp add: applyWorkerReassignment_def demoteToCpu_def)
qed

end

end
