(* ===== verification/Supervisor.thy ===== *)
theory Supervisor
  imports Model_Cache Worker_Liveness Crash_Control Worker_Reassignment "HOL-Library.AList"
begin

text \<open>
  \<^verbatim>\<open>backend/supervisor/supervisor.*\<close>: the process that starts, watches and restarts the others. The
  members of the class are the record \<open>Supervisor\<close>; its three hash maps are association lists. What the
  operating system answers is the record \<open>sup_os\<close>: the fields that are lists are consumed from the front
  by the call they stand for, \<open>so_files\<close> is the file system, and every fork, kill, wait and notification
  is appended to the front of \<open>so_trace\<close>. Messages to stderr are left out.
\<close>

section \<open>State\<close>

record SupervisorConfig =
  cfg_modelPath :: string
  cfg_workerCount :: int
  cfg_shmName :: string
  cfg_supervisorSocketPath :: string
  cfg_apiNotifySocketPath :: string
  cfg_pollIntervalMs :: int
  cfg_modelReadyTimeoutSeconds :: int
  cfg_modelCacheBinary :: string
  cfg_workerBinary :: string
  cfg_apiBinary :: string
  cfg_apiEntry :: string
  cfg_capacity :: CapacityLimits
  cfg_meminfoPath :: string
  cfg_hardwareProbeTimeoutMs :: int
  cfg_liveness :: LivenessLimits

definition defaultSupervisorConfig :: SupervisorConfig where
  "defaultSupervisorConfig =
     \<lparr>cfg_modelPath = [], cfg_workerCount = 2, cfg_shmName = [], cfg_supervisorSocketPath = [],
      cfg_apiNotifySocketPath = [], cfg_pollIntervalMs = 50, cfg_modelReadyTimeoutSeconds = 30,
      cfg_modelCacheBinary = ''edge-model-cache'', cfg_workerBinary = ''edge-inference-worker'',
      cfg_apiBinary = ''node'', cfg_apiEntry = ''api-server/server.js'', cfg_capacity = defaultLimits,
      cfg_meminfoPath = ''/proc/meminfo'', cfg_hardwareProbeTimeoutMs = 10000,
      cfg_liveness = defaultLiveness\<rparr>"

record Supervisor =
  sup_config :: SupervisorConfig
  sup_hardware :: HardwareReport
  sup_plan :: CapacityPlan
  sup_assignments :: "WorkerAssignment list"
  sup_effective :: int
  sup_runNonce :: "64 word"
  sup_running :: bool
  sup_serverFd :: bool
  sup_breaker :: crash_history
  sup_processes :: "(int \<times> ProcessInfo) list"
  sup_workerPid :: "(int \<times> int) list"
  sup_workerHealth :: "(int \<times> WorkerHealth) list"

definition newSupervisor :: "SupervisorConfig \<Rightarrow> Supervisor" where
  "newSupervisor config =
     \<lparr>sup_config = config, sup_hardware = emptyReport, sup_plan = emptyPlan, sup_assignments = [],
      sup_effective = 0, sup_runNonce = 0, sup_running = False, sup_serverFd = False,
      sup_breaker = (\<lambda>k. []), sup_processes = [], sup_workerPid = [], sup_workerHealth = []\<rparr>"

section \<open>The operating system\<close>

datatype os_event =
    EvFork int "string list" "(string \<times> string) list"
  | EvKill int nat
  | EvWait int
  | EvNotify string int bool
  | EvUnlink string

abbreviation sigkill :: nat where "sigkill \<equiv> 9"
abbreviation sigterm :: nat where "sigterm \<equiv> 15"

text \<open>One turn of the loop around the probe's pipe, one \<^verbatim>\<open>read\<close> on a client, one \<^verbatim>\<open>accept\<close>.\<close>

datatype pipe_event = PollInterrupted | PollFailed | PollNothing | PipeData string | PipeEnd
  | PipeInterrupted | PipeFailed

datatype read_event = RdData string | RdInterrupted | RdEnd | RdFailed

datatype accept_event = AcClient "read_event list" | AcInterrupted | AcNone

record sup_os =
  so_env :: environ
  so_now :: int
  so_ticks :: "nat list"
  so_epochMs :: int
  so_nonces :: "(64 word option \<times> 64 word) list"
  so_pids :: "int list"
  so_children :: "int list"
  so_exits :: "(int \<times> nat) list"
  so_notify :: "bool list"
  so_polls :: "(bool \<times> byte list option) list"
  so_accepts :: "accept_event list"
  so_sockets :: "bool \<times> bool \<times> bool"
  so_pipeOk :: bool
  so_pipe :: "pipe_event list"
  so_probeStatus :: nat
  so_strerror :: string
  so_files :: "string \<Rightarrow> string option"
  so_unwritable :: "string \<Rightarrow> bool"
  so_trace :: "os_event list"

type_synonym sup_state = "Supervisor \<times> sup_os"

definition record_event :: "os_event \<Rightarrow> sup_os \<Rightarrow> sup_os" where
  "record_event e os = os\<lparr>so_trace := e # so_trace os\<rparr>"

text \<open>The steady clock in nanoseconds, and sleeping.\<close>

definition supSteady :: "sup_os \<Rightarrow> int \<times> sup_os" where
  "supSteady os =
     (so_now os, os\<lparr>so_now := so_now os + (case so_ticks os of [] \<Rightarrow> 0 | t # ts \<Rightarrow> int t),
                   so_ticks := tl (so_ticks os)\<rparr>)"

definition sleepMs :: "nat \<Rightarrow> sup_os \<Rightarrow> sup_os" where
  "sleepMs n os = os\<lparr>so_now := so_now os + int n * 1000000\<rparr>"

definition nowEpochMs :: "sup_os \<Rightarrow> int" where
  "nowEpochMs os = so_epochMs os"

definition nowEpochSec :: "sup_os \<Rightarrow> int" where
  "nowEpochSec os = so_epochMs os div 1000"

text \<open>
  \<^verbatim>\<open>fork\<close>: the kernel never hands out the id of a child that has not been reaped. \<^verbatim>\<open>waitpid(-1)\<close>
  reports a child that has ended, and with it reaps it.
\<close>

definition forkChild :: "sup_os \<Rightarrow> int \<times> sup_os" where
  "forkChild os =
     (case dropWhile (\<lambda>p. p \<le> 0 \<or> p \<in> set (so_children os)) (so_pids os) of
        [] \<Rightarrow> (-1, os\<lparr>so_pids := []\<rparr>)
      | p # ps \<Rightarrow> (p, os\<lparr>so_pids := ps, so_children := p # so_children os\<rparr>))"

definition waitAny :: "sup_os \<Rightarrow> int \<times> nat \<times> sup_os" where
  "waitAny os =
     (case so_exits os of
        [] \<Rightarrow> (0, 0, os)
      | (p, st) # es \<Rightarrow>
          if 0 < p \<and> p \<in> set (so_children os)
          then (p, st, os\<lparr>so_exits := es, so_children := removeAll p (so_children os)\<rparr>)
          else (0, 0, os\<lparr>so_exits := es\<rparr>))"

definition waitPid :: "int \<Rightarrow> sup_os \<Rightarrow> sup_os" where
  "waitPid pid os = record_event (EvWait pid) (os\<lparr>so_children := removeAll pid (so_children os)\<rparr>)"

definition killPid :: "int \<Rightarrow> nat \<Rightarrow> sup_os \<Rightarrow> sup_os" where
  "killPid pid sig os = record_event (EvKill pid sig) os"

definition unlinkFile :: "string \<Rightarrow> sup_os \<Rightarrow> sup_os" where
  "unlinkFile path os = record_event (EvUnlink path) (os\<lparr>so_files := (so_files os)(path := None)\<rparr>)"

definition truncateFile :: "string \<Rightarrow> string \<Rightarrow> sup_os \<Rightarrow> sup_os" where
  "truncateFile path text os =
     (if so_unwritable os path then os else os\<lparr>so_files := (so_files os)(path \<mapsto> text)\<rparr>)"

definition appendFile :: "string \<Rightarrow> string \<Rightarrow> sup_os \<Rightarrow> sup_os" where
  "appendFile path text os =
     (if so_unwritable os path then os
      else os\<lparr>so_files := (so_files os)(path \<mapsto> (case so_files os path of None \<Rightarrow> [] | Some s \<Rightarrow> s) @ text)\<rparr>)"

text \<open>The whole child branch, \<^verbatim>\<open>setenv\<close> and \<^verbatim>\<open>execvp\<close>, is the recorded argument vector and environment.\<close>

definition forkExec :: "string list \<Rightarrow> (string \<times> string) list \<Rightarrow> sup_os \<Rightarrow> int \<times> sup_os" where
  "forkExec args env os =
     (if args = [] then (-1, os)
      else let (pid, os) = forkChild os in
        if pid < 0 then (-1, os) else (pid, record_event (EvFork pid args env) os))"

section \<open>Pid files, log and messages\<close>

definition pidFileNameFor :: "ProcessInfo \<Rightarrow> string" where
  "pidFileNameFor info =
     (case pi_type info of
        KModelCache \<Rightarrow> ''backend-model-cache''
      | KApiServer \<Rightarrow> ''backend-api-server''
      | KWorker \<Rightarrow> ''backend-worker-'' @ int_str (pi_workerId info))"

definition writePidFile :: "string \<Rightarrow> int \<Rightarrow> sup_os \<Rightarrow> sup_os" where
  "writePidFile name pid os =
     (let path = pidFilePath (so_env os) name in
      if path = [] then os else truncateFile path (int_str pid @ [newline]) os)"

definition removePidFile :: "string \<Rightarrow> sup_os \<Rightarrow> sup_os" where
  "removePidFile name os =
     (let path = pidFilePath (so_env os) name in if path \<noteq> [] then unlinkFile path os else os)"

definition notifyApiServer :: "string \<Rightarrow> int \<Rightarrow> sup_os \<Rightarrow> bool \<times> sup_os" where
  "notifyApiServer msgType workerId os =
     (let ok = (case so_notify os of [] \<Rightarrow> False | b # bs \<Rightarrow> b)
      in (ok, record_event (EvNotify msgType workerId ok) (os\<lparr>so_notify := tl (so_notify os)\<rparr>)))"

text \<open>The message itself.\<close>

definition notifyText :: "string \<Rightarrow> int \<Rightarrow> string" where
  \<open>notifyText msgType workerId =
     ''{"type":"'' @ msgType @ ''","workerId":'' @ int_str workerId @ '',"requestId":""}'' @ [newline]\<close>

definition notifyApiServerWorkerCrash :: "int \<Rightarrow> sup_os \<Rightarrow> bool \<times> sup_os" where
  "notifyApiServerWorkerCrash workerId os = notifyApiServer ''worker_crashed'' workerId os"

definition notifyApiServerWorkerRestarted :: "int \<Rightarrow> sup_os \<Rightarrow> bool \<times> sup_os" where
  "notifyApiServerWorkerRestarted workerId os = notifyApiServer ''worker_restarted'' workerId os"

definition crashLogPath :: "ProcessInfo \<Rightarrow> sup_os \<Rightarrow> string" where
  "crashLogPath info os = (if pi_crashLog info = [] then crashLogEnv (so_env os) else pi_crashLog info)"

definition writeCrashLog :: "ProcessInfo \<Rightarrow> nat \<Rightarrow> string \<Rightarrow> sup_os \<Rightarrow> sup_os" where
  "writeCrashLog info status reason os =
     appendFile (crashLogPath info os) (crashLine (nowEpochSec os) info status reason @ [newline]) os"

definition writeModelConfig :: "Supervisor \<Rightarrow> sup_os \<Rightarrow> sup_os" where
  \<open>writeModelConfig S os =
     truncateFile (modelConfigPath (so_env os))
       (''{"modelPath":"'' @ supJsonEscape (cfg_modelPath (sup_config S)) @ ''","shmName":"'' @
        supJsonEscape (cfg_shmName (sup_config S)) @ ''","workerCount":'' @ int_str (sup_effective S) @
        '',"configuredWorkerCount":'' @ int_str (cfg_workerCount (sup_config S)) @
        '',"pollIntervalMs":'' @ int_str (cfg_pollIntervalMs (sup_config S)) @
        '',"hardware":'' @ hardwareReportToJson (sup_hardware S) @
        '',"capacity":'' @ capacityPlanToJson (sup_plan S) @
        '',"assignments":'' @ workerAssignmentsToJson (sup_assignments S) @ ''}'' @ [newline]) os\<close>

section \<open>Discovery\<close>

text \<open>The loop on the probe's pipe: output so far, and whether it timed out.\<close>

fun probeLoop :: "int \<Rightarrow> pipe_event list \<Rightarrow> string \<Rightarrow> sup_os \<Rightarrow> bool \<times> string \<times> sup_os" where
  "probeLoop deadline es output os =
     (let (now, os) = supSteady os in
      if deadline - now < 1000000 then (True, output, os)
      else case es of
        [] \<Rightarrow> (True, output, os)
      | PollInterrupted # es' \<Rightarrow> probeLoop deadline es' output os
      | PollFailed # es' \<Rightarrow> (False, output, os)
      | PollNothing # es' \<Rightarrow> (True, output, os)
      | PipeData bytes # es' \<Rightarrow>
          if bytes = [] then (False, output, os) else probeLoop deadline es' (output @ bytes) os
      | PipeEnd # es' \<Rightarrow> (False, output, os)
      | PipeInterrupted # es' \<Rightarrow> probeLoop deadline es' output os
      | PipeFailed # es' \<Rightarrow> (False, output, os))"

declare probeLoop.simps [simp del]

definition runHardwareProbeChild :: "Supervisor \<Rightarrow> sup_os \<Rightarrow> HardwareReport \<times> sup_os" where
  "runHardwareProbeChild S os =
     (let report = emptyReport\<lparr>rep_ram := readHostMemory (so_files os (cfg_meminfoPath (sup_config S)))\<rparr> in
      if \<not> so_pipeOk os then
        (report\<lparr>rep_note := ''pipe for hardware probe failed: '' @ so_strerror os\<rparr>, os)
      else let (pid, os) = forkChild os in
      if pid < 0 then
        (report\<lparr>rep_note := ''fork for hardware probe failed: '' @ so_strerror os\<rparr>, os)
      else
        let os = record_event (EvFork pid [cfg_workerBinary (sup_config S), ''--probe-hardware''] []) os;
            (now, os) = supSteady os;
            deadline = now + max 0 (cfg_hardwareProbeTimeoutMs (sup_config S)) * 1000000;
            (timedOut, output, os) = probeLoop deadline (so_pipe os) [] os;
            os = (if timedOut then killPid pid sigkill os else os);
            os = waitPid pid os;
            status = so_probeStatus os
        in if timedOut then
             (report\<lparr>rep_note := ''hardware probe timed out after '' @
                int_str (cfg_hardwareProbeTimeoutMs (sup_config S)) @ ''ms''\<rparr>, os)
           else if \<not> wIfExited status \<or> wExitStatus status \<noteq> 0 then
             (report\<lparr>rep_note := ''hardware probe exited '' @ statusToReason status\<rparr>, os)
           else case parseHardwareReport output of
             None \<Rightarrow> (report\<lparr>rep_note := ''hardware probe emitted output this build cannot parse''\<rparr>, os)
           | Some parsed \<Rightarrow> (parsed\<lparr>rep_ram := rep_ram report\<rparr>, os))"

definition discoverHardware :: "sup_state \<Rightarrow> sup_state" where
  "discoverHardware so =
     (let (S, os) = so;
          (hardware, os) = runHardwareProbeChild S os;
          config = sup_config S;
          config = config\<lparr>cfg_capacity := (cfg_capacity config)\<lparr>maxWorkers := cfg_workerCount config\<rparr>\<rparr>;
          plan = planCapacity hardware (cfg_capacity config);
          effective = placeableWorkerCount plan (cfg_workerCount config)
      in (S\<lparr>sup_hardware := hardware, sup_config := config, sup_plan := plan,
            sup_effective := effective, sup_assignments := assignWorkers plan effective\<rparr>, os))"

section \<open>Starting the processes\<close>

definition setupSupervisorSocket :: "sup_state \<Rightarrow> bool \<times> sup_state" where
  "setupSupervisorSocket so =
     (let (S, os) = so; path = cfg_supervisorSocketPath (sup_config S);
          os = (if path \<noteq> [] then unlinkFile path os else os);
          (socketOk, bindOk, listenOk) = so_sockets os
      in if \<not> socketOk then (False, S\<lparr>sup_serverFd := False\<rparr>, os)
         else let S = S\<lparr>sup_serverFd := True\<rparr> in
           if \<not> bindOk then (False, S, os)
           else if \<not> listenOk then (False, S, os)
           else (True, S, os))"

definition modelCacheArgs :: "SupervisorConfig \<Rightarrow> 64 word \<Rightarrow> string list" where
  "modelCacheArgs config nonce =
     [cfg_modelCacheBinary config, ''--model-path'', cfg_modelPath config, ''--shm-name'',
      cfg_shmName config, ''--run-nonce'', word_str nonce]"

definition nextNonce :: "sup_os \<Rightarrow> 64 word \<times> sup_os" where
  "nextNonce os =
     (case so_nonces os of
        [] \<Rightarrow> (generateRunNonce None 0, os)
      | (urandom, mixed) # ns \<Rightarrow> (generateRunNonce urandom mixed, os\<lparr>so_nonces := ns\<rparr>))"

text \<open>Registering a started process: pid file and process table.\<close>

definition adopt :: "ProcessInfo \<Rightarrow> sup_state \<Rightarrow> sup_state" where
  "adopt info so =
     (let (S, os) = so; os = writePidFile (pidFileNameFor info) (pi_pid info) os
      in (S\<lparr>sup_processes := AList.update (pi_pid info) info (sup_processes S)\<rparr>, os))"

definition startModelCache :: "sup_state \<Rightarrow> bool \<times> sup_state" where
  "startModelCache so =
     (let (S, os) = so; (nonce, os) = nextNonce os; S = S\<lparr>sup_runNonce := nonce\<rparr>;
          args = modelCacheArgs (sup_config S) nonce; (pid, os) = forkExec args [] os
      in if pid \<le> 0 then (False, S, os)
         else (True, adopt \<lparr>pi_pid = pid, pi_type = KModelCache, pi_workerId = -1, pi_socketPath = [],
                 pi_crashLog = crashLogEnv (so_env os), pi_command = args\<rparr> (S, os)))"

definition apiServerArgs :: "SupervisorConfig \<Rightarrow> string list" where
  "apiServerArgs config =
     [cfg_apiBinary config, cfg_apiEntry config, ''--supervisor-socket'', cfg_apiNotifySocketPath config]"

definition startApiServer :: "sup_state \<Rightarrow> bool \<times> sup_state" where
  "startApiServer so =
     (let (S, os) = so; args = apiServerArgs (sup_config S); (pid, os) = forkExec args [] os
      in if pid \<le> 0 then (False, S, os)
         else (True, adopt \<lparr>pi_pid = pid, pi_type = KApiServer, pi_workerId = -1,
                 pi_socketPath = cfg_apiNotifySocketPath (sup_config S),
                 pi_crashLog = crashLogEnv (so_env os), pi_command = args\<rparr> (S, os)))"

definition assignmentFor :: "int \<Rightarrow> WorkerAssignment list \<Rightarrow> WorkerAssignment option" where
  "assignmentFor workerId assignments = List.find (\<lambda>a. asg_workerId a = workerId) assignments"

definition workerArgs :: "SupervisorConfig \<Rightarrow> environ \<Rightarrow> int \<Rightarrow> string list" where
  "workerArgs config env workerId =
     [cfg_workerBinary config, ''--worker-id'', int_str workerId, ''--socket-path'', workerSock env workerId,
      ''--supervisor-socket'', cfg_supervisorSocketPath config, ''--shm-name'', cfg_shmName config,
      ''--model-path'', cfg_modelPath config]"

definition startWorker :: "int \<Rightarrow> sup_state \<Rightarrow> bool \<times> sup_state" where
  "startWorker workerId so =
     (let (S, os) = so; args = workerArgs (sup_config S) (so_env os) workerId;
          env = (case assignmentFor workerId (sup_assignments S) of None \<Rightarrow> [] | Some a \<Rightarrow> workerBackendEnv a);
          (pid, os) = forkExec args env os
      in if pid \<le> 0 then (False, S, os)
         else
           let (S, os) = adopt \<lparr>pi_pid = pid, pi_type = KWorker, pi_workerId = workerId,
                 pi_socketPath = workerSock (so_env os) workerId,
                 pi_crashLog = crashLogEnv (so_env os), pi_command = args\<rparr> (S, os)
           in (True, S\<lparr>sup_workerPid := AList.update workerId pid (sup_workerPid S),
                       sup_workerHealth := AList.update workerId
                         \<lparr>hl_spawnedAtMs = nowEpochMs os, hl_lastHeartbeatMs = 0, hl_busyMs = 0\<rparr>
                         (sup_workerHealth S)\<rparr>, os))"

fun startWorkersFrom :: "int list \<Rightarrow> sup_state \<Rightarrow> bool \<times> sup_state" where
  "startWorkersFrom [] so = (True, so)"
| "startWorkersFrom (w # ws) so =
     (let (ok, so) = startWorker w so in if \<not> ok then (False, so) else startWorkersFrom ws so)"

definition startWorkers :: "sup_state \<Rightarrow> bool \<times> sup_state" where
  "startWorkers so = startWorkersFrom [0..sup_effective (fst so) - 1] so"

text \<open>
  What one look at the shared header says: \<open>None\<close> when the object does not open, stat or map. Another
  thread's stop request is seen by the loop's own test, so each look carries one.
\<close>

definition pollHeader :: "byte list option \<Rightarrow> 64 word \<Rightarrow> ModelReadyState" where
  "pollHeader bytes nonce =
     (case bytes of
        None \<Rightarrow> KMalformed
      | Some mem \<Rightarrow>
          if length mem < kHeaderSize then KMalformed else evaluateModelHeader (Some mem) kHeaderSize nonce)"

definition nextPoll :: "sup_os \<Rightarrow> (bool \<times> byte list option) \<times> sup_os" where
  "nextPoll os =
     (case so_polls os of
        [] \<Rightarrow> ((False, None), os)
      | p # ps \<Rightarrow> (p, os\<lparr>so_polls := ps\<rparr>))"

function waitReadyLoop :: "int \<Rightarrow> sup_state \<Rightarrow> bool \<times> sup_state" where
  "waitReadyLoop deadline (S, os) =
     (let (poll, os) = nextPoll os; S = S\<lparr>sup_running := (sup_running S \<and> \<not> fst poll)\<rparr> in
      if \<not> sup_running S then (False, S, os)
      else let (now, os) = supSteady os in
        if \<not> now < deadline then (False, S, os)
        else if pollHeader (snd poll) (sup_runNonce S) = KReady then (True, S, os)
        else waitReadyLoop deadline (S, sleepMs 50 os))"
  by pat_completeness auto

termination
  by (relation "measure (\<lambda>(deadline, S, os). nat (deadline - so_now os))")
    (auto simp: nextPoll_def supSteady_def sleepMs_def split: list.splits)

declare waitReadyLoop.simps [simp del]

definition waitForModelReady :: "sup_state \<Rightarrow> bool \<times> sup_state" where
  "waitForModelReady so =
     (let (S, os) = so; (now, os) = supSteady os
      in waitReadyLoop (now + cfg_modelReadyTimeoutSeconds (sup_config S) * 1000000000) (S, os))"

definition supStart :: "sup_state \<Rightarrow> bool \<times> sup_state" where
  "supStart so =
     (let (ok, S, os) = setupSupervisorSocket (discoverHardware so) in
      if \<not> ok then (False, S, os)
      else let (ok, S, os) = startModelCache (S\<lparr>sup_running := True\<rparr>, os) in
      if \<not> ok then (False, S, os)
      else let os = writeModelConfig S os; (ok, S, os) = waitForModelReady (S, os) in
      if \<not> ok then (False, S, os)
      else let (ok, S, os) = startApiServer (S, os) in
      if \<not> ok then (False, S, os)
      else startWorkers (S, os))"

definition requestStop :: "sup_state \<Rightarrow> sup_state" where
  "requestStop so = (let (S, os) = so in (S\<lparr>sup_running := False\<rparr>, os))"

section \<open>Crashes\<close>

text \<open>The hooks \<^verbatim>\<open>handleWorkerReassignment\<close> hands over.\<close>

definition supHooks :: "sup_state ReassignmentHooks" where
  "supHooks =
     \<lparr>rh_startWorker = Some startWorker,
      rh_notifyCrash = Some (\<lambda>w (S, os). (S, snd (notifyApiServerWorkerCrash w os))),
      rh_notifyRestarted = Some (\<lambda>w (S, os). (S, snd (notifyApiServerWorkerRestarted w os)))\<rparr>"

definition putAssignments :: "WorkerAssignment list \<Rightarrow> sup_state \<Rightarrow> sup_state" where
  "putAssignments as so = (let (S, os) = so in (S\<lparr>sup_assignments := as\<rparr>, os))"

definition handleWorkerReassignment :: "ProcessInfo \<Rightarrow> nat \<Rightarrow> sup_state \<Rightarrow> bool \<times> sup_state" where
  "handleWorkerReassignment info status so =
     (if pi_type info \<noteq> KWorker then (False, so)
      else
        let isReassignExit = (wIfExited status \<and> wExitStatus status = kReassignCpu);
            (outcome, so) = applyWorkerReassignment putAssignments (sup_assignments (fst so))
              (pi_workerId info) isReassignExit (sup_running (fst so)) supHooks so
        in (outcome = KRestarted, so))"

definition restartStops :: "int \<Rightarrow> sup_state \<Rightarrow> sup_state" where
  "restartStops workerId so =
     (let (S, os) = so in
      case map_of (sup_workerPid S) workerId of
        None \<Rightarrow> (S, os)
      | Some pid \<Rightarrow>
          let os = killPid pid sigterm os; os = waitPid pid os;
              os = removePidFile (''backend-worker-'' @ int_str workerId) os
          in (S\<lparr>sup_processes := AList.delete pid (sup_processes S),
                sup_workerPid := AList.delete workerId (sup_workerPid S)\<rparr>, os))"

definition restartStarts :: "int \<Rightarrow> sup_state \<Rightarrow> sup_state" where
  "restartStarts workerId so =
     (if map_of (sup_workerPid (fst so)) workerId = None then
        (let (ok, S, os) = startWorker workerId so
         in if ok then (S, snd (notifyApiServerWorkerRestarted workerId os)) else (S, os))
      else so)"

definition restartWorkersAfterModelCacheRestart :: "sup_state \<Rightarrow> sup_state" where
  "restartWorkersAfterModelCacheRestart so =
     (let so = fold restartStops [0..cfg_workerCount (sup_config (fst so)) - 1] so
      in fold restartStarts [0..sup_effective (fst so) - 1] so)"

text \<open>
  Both halves of \<^verbatim>\<open>registerCrash(key) || crashLimitOpenFromDisk(info)\<close>; the second is not evaluated
  once the first is true. \<open>Inl\<close> is the exception of a malformed log line, which nothing catches.
\<close>

definition circuitOpen :: "int \<Rightarrow> ProcessInfo \<Rightarrow> sup_state \<Rightarrow> num_error + (bool \<times> sup_state)" where
  "circuitOpen key info so =
     (let (S, os) = so; (now, os) = supSteady os; (open, h) = registerCrash key now (sup_breaker S);
          S = S\<lparr>sup_breaker := h\<rparr>
      in if open then Inr (True, S, os)
         else case crashLimitOpenFromDisk (so_files os (crashLogPath info os)) (nowEpochSec os) info of
           Inl e \<Rightarrow> Inl e
         | Inr b \<Rightarrow> Inr (b, S, os))"

definition restartAfterCrash :: "ProcessInfo \<Rightarrow> sup_state \<Rightarrow> num_error + sup_state" where
  "restartAfterCrash info so =
     (case pi_type info of
        KWorker \<Rightarrow>
          (let (S, os) = so; (ok, os) = notifyApiServerWorkerCrash (pi_workerId info) os in
           case circuitOpen (pi_workerId info) info (S, os) of
             Inl e \<Rightarrow> Inl e
           | Inr (True, so) \<Rightarrow> Inr so
           | Inr (False, so) \<Rightarrow>
               (let (ok, S, os) = startWorker (pi_workerId info) so
                in Inr (if ok then (S, snd (notifyApiServerWorkerRestarted (pi_workerId info) os)) else (S, os))))
      | KModelCache \<Rightarrow>
          (case circuitOpen kCircuitKeyModelCache info so of
             Inl e \<Rightarrow> Inl e
           | Inr (True, so) \<Rightarrow> Inr so
           | Inr (False, so) \<Rightarrow>
               (let (ok, so) = startModelCache so in
                if \<not> ok then Inr so
                else let (ready, so) = waitForModelReady so
                  in Inr (if ready then restartWorkersAfterModelCacheRestart so else so)))
      | KApiServer \<Rightarrow>
          (case circuitOpen kCircuitKeyApiServer info so of
             Inl e \<Rightarrow> Inl e
           | Inr (True, so) \<Rightarrow> Inr so
           | Inr (False, so) \<Rightarrow> Inr (snd (startApiServer so))))"

text \<open>Taking an ended process off the tables.\<close>

definition forget :: "ProcessInfo \<Rightarrow> int \<Rightarrow> sup_state \<Rightarrow> sup_state" where
  "forget info pid so =
     (let (S, os) = so; S = S\<lparr>sup_processes := AList.delete pid (sup_processes S)\<rparr>;
          os = removePidFile (pidFileNameFor info) os
      in if pi_type info = KWorker \<and> 0 \<le> pi_workerId info
         then (S\<lparr>sup_workerPid := AList.delete (pi_workerId info) (sup_workerPid S),
                 sup_workerHealth := AList.delete (pi_workerId info) (sup_workerHealth S)\<rparr>, os)
         else (S, os))"

definition handleCrash :: "int \<Rightarrow> nat \<Rightarrow> sup_state \<Rightarrow> num_error + sup_state" where
  "handleCrash pid status so =
     (case map_of (sup_processes (fst so)) pid of
        None \<Rightarrow> Inr so
      | Some info \<Rightarrow>
          let so = forget info pid so in
          if wIfExited status \<and> wExitStatus status = 0 then Inr so
          else
            let (handled, S, os) = handleWorkerReassignment info status so in
            if handled then Inr (S, os)
            else
              let os = writeCrashLog info status (statusToReason status) os in
              if \<not> sup_running S then Inr (S, os) else restartAfterCrash info (S, os))"

section \<open>The monitor loop\<close>

text \<open>
  \<^verbatim>\<open>reapChildren\<close> stops at the first answer that names no child. Every child it takes is handled at
  once; an exception leaves the loop.
\<close>

fun reapFrom :: "nat \<Rightarrow> sup_state \<Rightarrow> num_error + sup_state" where
  "reapFrom 0 so = Inr so"
| "reapFrom (Suc n) so =
     (let (S, os) = so; (pid, status, os) = waitAny os in
      if pid \<le> 0 then Inr (S, os)
      else case handleCrash pid status (S, os) of
        Inl e \<Rightarrow> Inl e
      | Inr so \<Rightarrow> reapFrom n so)"

definition reapChildren :: "sup_state \<Rightarrow> num_error + sup_state" where
  "reapChildren so = reapFrom (Suc (length (so_exits (snd so)))) so"

definition recordHeartbeat :: "int \<Rightarrow> int \<Rightarrow> sup_state \<Rightarrow> sup_state" where
  "recordHeartbeat workerId busyMs so =
     (let (S, os) = so;
          health = (case map_of (sup_workerHealth S) workerId of None \<Rightarrow> freshHealth | Some h \<Rightarrow> h);
          health = health\<lparr>hl_lastHeartbeatMs := nowEpochMs os, hl_busyMs := busyMs\<rparr>
      in (S\<lparr>sup_workerHealth := AList.update workerId health (sup_workerHealth S)\<rparr>, os))"

definition heartbeatLine :: "string \<Rightarrow> sup_state \<Rightarrow> sup_state" where
  "heartbeatLine line so =
     (case parseHeartbeat line of None \<Rightarrow> so | Some (workerId, busyMs) \<Rightarrow> recordHeartbeat workerId busyMs so)"

text \<open>What a client sends until it closes, or until its connection fails.\<close>

fun readClient :: "read_event list \<Rightarrow> string" where
  "readClient [] = []"
| "readClient (RdData bytes # es) = (if bytes = [] then [] else bytes @ readClient es)"
| "readClient (RdInterrupted # es) = readClient es"
| "readClient (RdEnd # es) = []"
| "readClient (RdFailed # es) = []"

fun drainFrom :: "accept_event list \<Rightarrow> sup_state \<Rightarrow> sup_state" where
  "drainFrom [] so = (fst so, snd so\<lparr>so_accepts := []\<rparr>)"
| "drainFrom (AcNone # es) so = (fst so, snd so\<lparr>so_accepts := es\<rparr>)"
| "drainFrom (AcInterrupted # es) so = drainFrom es so"
| "drainFrom (AcClient rs # es) so =
     drainFrom es (fold heartbeatLine (split_lines newline (readClient rs)) so)"

definition drainSupervisorSocket :: "sup_state \<Rightarrow> sup_state" where
  "drainSupervisorSocket so =
     (if \<not> sup_serverFd (fst so) then so else drainFrom (so_accepts (snd so)) so)"

definition checkWorker :: "int \<Rightarrow> int \<times> int \<Rightarrow> sup_state \<Rightarrow> sup_state" where
  "checkWorker now entry so =
     (let (S, os) = so; (workerId, pid) = entry in
      case map_of (sup_workerHealth S) workerId of
        None \<Rightarrow> (S, os)
      | Some health \<Rightarrow>
          let verdict = classifyWorker now health (cfg_liveness (sup_config S)) in
          if verdict = KHealthy \<or> verdict = KStarting then (S, os)
          else (S\<lparr>sup_workerHealth := AList.update workerId
                    (health\<lparr>hl_lastHeartbeatMs := now, hl_busyMs := 0\<rparr>) (sup_workerHealth S)\<rparr>,
                killPid pid sigkill os))"

definition checkWorkerLiveness :: "sup_state \<Rightarrow> sup_state" where
  "checkWorkerLiveness so = fold (checkWorker (nowEpochMs (snd so))) (sup_workerPid (fst so)) so"

definition monitorOnce :: "sup_state \<Rightarrow> num_error + sup_state" where
  "monitorOnce so =
     (case reapChildren so of
        Inl e \<Rightarrow> Inl e
      | Inr so \<Rightarrow>
          let (S, os) = checkWorkerLiveness (drainSupervisorSocket so)
          in Inr (S, sleepMs (nat (cfg_pollIntervalMs (sup_config S))) os))"

section \<open>Shutdown\<close>

definition cleanupSocket :: "sup_state \<Rightarrow> sup_state" where
  "cleanupSocket so =
     (let (S, os) = so; S = S\<lparr>sup_serverFd := False\<rparr>; path = cfg_supervisorSocketPath (sup_config S)
      in (S, if path \<noteq> [] then unlinkFile path os else os))"

lemma waitAny_exits:
  "waitAny os = (pid, st, os') \<Longrightarrow> so_now os' = so_now os \<and>
     (0 < pid \<longrightarrow> length (so_exits os') < length (so_exits os)) \<and>
     length (so_exits os') \<le> length (so_exits os)"
  by (auto simp: waitAny_def split: list.splits if_splits)

lemma supSteady_mono:
  "supSteady os = (now, os') \<Longrightarrow> so_now os = now \<and> now \<le> so_now os' \<and> so_exits os' = so_exits os"
  by (auto simp: supSteady_def split: list.splits)

text \<open>The grace loop: take ended children off the table until none is left or two seconds have passed.\<close>

function graceLoop :: "int \<Rightarrow> (int \<times> ProcessInfo) list \<Rightarrow> sup_os \<Rightarrow> (int \<times> ProcessInfo) list \<times> sup_os" where
  "graceLoop deadline ps os =
     (if ps = [] then (ps, os)
      else let (now, os) = supSteady os in
        if \<not> now < deadline then (ps, os)
        else let (pid, status, os) = waitAny os in
          if pid > 0 then graceLoop deadline (AList.delete pid ps) os
          else graceLoop deadline ps (sleepMs 20 os))"
  by pat_completeness auto

termination
proof (relation "measure (\<lambda>(deadline, ps, os). length (so_exits os) + nat (deadline - so_now os))", goal_cases)
  case (2 deadline ps os x now os1 y pid z st os2)
  then show ?case using supSteady_mono [of os now os1] waitAny_exits [of os1 pid st os2] by auto
next
  case (3 deadline ps os x now os1 y pid z st os2)
  then show ?case
    using supSteady_mono [of os now os1] waitAny_exits [of os1 pid st os2] by (auto simp: sleepMs_def)
qed simp

declare graceLoop.simps [simp del]

definition shutdownChildren :: "sup_state \<Rightarrow> sup_state" where
  "shutdownChildren so =
     (let (S, os) = so in
      if sup_processes S = [] then (S, os)
      else
        let os = fold (\<lambda>e. killPid (fst e) sigterm) (sup_processes S) os;
            (now, os) = supSteady os;
            (ps, os) = graceLoop (now + 2000000000) (sup_processes S) os;
            os = fold (\<lambda>e os. waitPid (fst e) (killPid (fst e) sigkill os)) ps os;
            os = fold (\<lambda>e. removePidFile (pidFileNameFor (snd e))) ps os;
            os = removePidFile ''backend-model-cache'' os;
            os = removePidFile ''backend-api-server'' os;
            os = fold (\<lambda>w. removePidFile (''backend-worker-'' @ int_str w))
                   [0..cfg_workerCount (sup_config S) - 1] os
        in (S\<lparr>sup_processes := [], sup_workerPid := []\<rparr>, os))"

text \<open>
  \<^verbatim>\<open>monitorLoop\<close>. Each turn starts with what the outside did meanwhile: whether a signal asked to stop,
  and how it left the operating system's answers. \<open>None\<close>: the inputs ended and the loop is still
  running. \<open>Inl\<close> is an escaping exception, \<open>Inr\<close> the normal return of 0.
\<close>

fun monitorLoop :: "(bool \<times> (sup_os \<Rightarrow> sup_os)) list \<Rightarrow> sup_state \<Rightarrow> (num_error + sup_state) option" where
  "monitorLoop ins so =
     (case ins of
        [] \<Rightarrow> (if \<not> sup_running (fst so) then Some (Inr (cleanupSocket (shutdownChildren so))) else None)
      | (stop, outside) # ins' \<Rightarrow>
          let (S, os) = so; S = S\<lparr>sup_running := (sup_running S \<and> \<not> stop)\<rparr>; os = outside os in
          if \<not> sup_running S then Some (Inr (cleanupSocket (shutdownChildren (S, os))))
          else case monitorOnce (S, os) of
            Inl e \<Rightarrow> Some (Inl e)
          | Inr so \<Rightarrow> monitorLoop ins' so)"

text \<open>The destructor.\<close>

definition supDestroy :: "sup_state \<Rightarrow> sup_state" where
  "supDestroy so = cleanupSocket (shutdownChildren (requestStop so))"

end
