(* ===== verification/Supervisor_Safety.thy ===== *)
theory Supervisor_Safety
  imports Supervisor
begin

text \<open>
  What the supervisor keeps true while it runs. The proofs look at a state through \<open>sup_view\<close>: the
  process table, the worker table, the plan, the unreaped children, and for every pid the environment it
  was last forked with. An invariant on views is shown to survive each change the operations make to
  one, and the operations are then described as such changes.
\<close>

section \<open>Views\<close>

text \<open>The arguments and the environment of the last fork of a pid.\<close>

fun lastFork :: "os_event list \<Rightarrow> int \<Rightarrow> (string list \<times> (string \<times> string) list) option" where
  "lastFork [] p = None"
| "lastFork (EvFork q args env # es) p = (if p = q then Some (args, env) else lastFork es p)"
| "lastFork (EvKill q s # es) p = lastFork es p"
| "lastFork (EvWait q # es) p = lastFork es p"
| "lastFork (EvNotify t w ok # es) p = lastFork es p"
| "lastFork (EvUnlink f # es) p = lastFork es p"

definition forkedEnv :: "os_event list \<Rightarrow> int \<Rightarrow> (string \<times> string) list option" where
  "forkedEnv es p = map_option snd (lastFork es p)"

record view =
  v_procs :: "int \<rightharpoonup> ProcessInfo"
  v_workers :: "int \<rightharpoonup> int"
  v_effective :: int
  v_plan :: CapacityPlan
  v_asg :: "WorkerAssignment list"
  v_children :: "int set"
  v_args :: "int \<Rightarrow> string list"
  v_forked :: "int \<rightharpoonup> string list \<times> (string \<times> string) list"

definition sup_view :: "sup_state \<Rightarrow> view" where
  "sup_view so =
     \<lparr>v_procs = map_of (sup_processes (fst so)), v_workers = map_of (sup_workerPid (fst so)),
      v_effective = sup_effective (fst so), v_plan = sup_plan (fst so), v_asg = sup_assignments (fst so),
      v_children = set (so_children (snd so)), v_args = workerArgs (sup_config (fst so)) (so_env (snd so)),
      v_forked = lastFork (so_trace (snd so))\<rparr>"

definition procs_ok :: "view \<Rightarrow> bool" where
  "procs_ok v \<longleftrightarrow> (\<forall>p info. v_procs v p = Some info \<longrightarrow> p \<in> v_children v \<and>
     (pi_type info = KWorker \<longrightarrow> 0 \<le> pi_workerId info \<and> v_workers v (pi_workerId info) = Some p))"

definition workers_ok :: "view \<Rightarrow> bool" where
  "workers_ok v \<longleftrightarrow> (\<forall>w p. v_workers v w = Some p \<longrightarrow> 0 \<le> w \<and> w < v_effective v \<and>
     (\<exists>info. v_procs v p = Some info \<and> pi_type info = KWorker \<and> pi_workerId info = w) \<and>
     (\<exists>a. assignmentFor w (v_asg v) = Some a \<and> v_forked v p = Some (v_args v w, workerBackendEnv a)))"

definition single_ok :: "view \<Rightarrow> bool" where
  "single_ok v \<longleftrightarrow> (\<forall>p q i j. v_procs v p = Some i \<longrightarrow> v_procs v q = Some j \<longrightarrow>
     pi_type i = pi_type j \<longrightarrow> pi_type i \<noteq> KWorker \<longrightarrow> p = q)"

definition asg_ok :: "view \<Rightarrow> bool" where
  "asg_ok v \<longleftrightarrow> demoted_all (assignWorkers (v_plan v) (v_effective v)) (v_asg v)"

definition view_ok :: "view \<Rightarrow> bool" where
  "view_ok v \<longleftrightarrow> procs_ok v \<and> workers_ok v \<and> single_ok v \<and> asg_ok v"

lemmas view_ok_defs = view_ok_def procs_ok_def workers_ok_def single_ok_def asg_ok_def

lemma assigned:
  assumes "asg_ok v" and "0 \<le> w" and "w < v_effective v"
  shows "\<exists>a. assignmentFor w (v_asg v) = Some a"
proof -
  have "map asg_workerId (v_asg v) = map asg_workerId (assignWorkers (v_plan v) (v_effective v))"
    using assms(1) demoted_ids by (simp add: asg_ok_def)
  also have "\<dots> = [0..v_effective v - 1]"
    using assms(2,3) by (simp add: assignWorkers_def assignWorker_def comp_def map_idI)
  finally have "w \<in> asg_workerId ` set (v_asg v)"
    using assms(2,3) by (metis atLeastAtMost_iff list.set_map set_upto zle_diff1_eq)
  then show ?thesis
    by (auto simp: assignmentFor_def find_None_iff not_None_eq [symmetric] simp del: not_None_eq)
qed

lemma fresh_pid: "view_ok v \<Longrightarrow> p \<notin> v_children v \<Longrightarrow> v_procs v p = None"
  by (cases "v_procs v p") (auto simp: view_ok_def procs_ok_def)

lemma worker_entry:
  "view_ok v \<Longrightarrow> v_workers v w = Some p \<Longrightarrow>
   p \<in> v_children v \<and> (\<forall>info. v_procs v p = Some info \<longrightarrow> pi_type info = KWorker \<and> pi_workerId info = w)"
  unfolding view_ok_def procs_ok_def workers_ok_def by (metis option.inject)

lemma proc_entry:
  "view_ok v \<Longrightarrow> v_procs v p = Some info \<Longrightarrow> pi_type info = KWorker \<Longrightarrow> v_workers v (pi_workerId info) = Some p"
  by (auto simp: view_ok_def procs_ok_def)

text \<open>Changes of a view.\<close>

definition v_start :: "ProcessInfo \<Rightarrow> (string \<times> string) list \<Rightarrow> view \<Rightarrow> view" where
  "v_start info env v = v\<lparr>v_procs := (v_procs v)(pi_pid info \<mapsto> info),
     v_workers := (if pi_type info = KWorker then (v_workers v)(pi_workerId info \<mapsto> pi_pid info) else v_workers v),
     v_children := insert (pi_pid info) (v_children v),
     v_forked := (v_forked v)(pi_pid info \<mapsto> (pi_command info, env))\<rparr>"

definition v_remove :: "int \<Rightarrow> ProcessInfo \<Rightarrow> view \<Rightarrow> view" where
  "v_remove p info v = v\<lparr>v_procs := (v_procs v)(p := None),
     v_workers := (if pi_type info = KWorker then (v_workers v)(pi_workerId info := None) else v_workers v),
     v_children := v_children v - {p}\<rparr>"

lemma v_start_worker:
  assumes "view_ok v" and "pi_type info = KWorker" and "pi_workerId info = w"
    and "0 \<le> w" "w < v_effective v" "v_workers v w = None" "pi_pid info \<notin> v_children v"
    and "assignmentFor w (v_asg v) = Some a" and "pi_command info = v_args v w"
  shows "view_ok (v_start info (workerBackendEnv a) v)"
proof -
  have fresh: "v_procs v (pi_pid info) = None" using fresh_pid [OF assms(1,7)] .
  have other: "p \<noteq> pi_pid info" if "v_workers v u = Some p" for u p
    using worker_entry [OF assms(1) that] assms(7) by auto
  have slot: "pi_workerId i \<noteq> w" if "v_procs v p = Some i" "pi_type i = KWorker" for p i
    using proc_entry [OF assms(1) that] assms(6) by auto
  have "procs_ok (v_start info (workerBackendEnv a) v)"
    using assms fresh slot by (auto simp: view_ok_def procs_ok_def v_start_def)
  moreover have "workers_ok (v_start info (workerBackendEnv a) v)"
    using assms fresh other by (auto simp: view_ok_def workers_ok_def v_start_def)
  moreover have "single_ok (v_start info (workerBackendEnv a) v)"
    using assms fresh by (auto simp: view_ok_def single_ok_def v_start_def)
  ultimately show ?thesis using assms(1) by (simp add: view_ok_def asg_ok_def v_start_def)
qed

lemma v_start_single:
  assumes "view_ok v" and "pi_type info \<noteq> KWorker" and "pi_pid info \<notin> v_children v"
    and "\<And>p i. v_procs v p = Some i \<Longrightarrow> pi_type i \<noteq> pi_type info"
  shows "view_ok (v_start info env v)"
proof -
  have fresh: "v_procs v (pi_pid info) = None" using fresh_pid [OF assms(1,3)] .
  have other: "p \<noteq> pi_pid info" if "v_workers v u = Some p" for u p
    using worker_entry [OF assms(1) that] assms(3) by auto
  have "procs_ok (v_start info env v)"
    using assms fresh by (auto simp: view_ok_def procs_ok_def v_start_def)
  moreover have "workers_ok (v_start info env v)"
    using assms fresh other by (fastforce simp: view_ok_def workers_ok_def v_start_def)
  moreover have "single_ok (v_start info env v)"
    using assms(1) assms(4) by (auto simp: view_ok_def single_ok_def v_start_def) (metis assms(4))+
  ultimately show ?thesis using assms(1) by (simp add: view_ok_def asg_ok_def v_start_def)
qed

lemma v_remove_ok:
  assumes "view_ok v" and "v_procs v p = Some info"
  shows "view_ok (v_remove p info v)"
proof -
  have w: "pi_type info = KWorker \<Longrightarrow> v_workers v (pi_workerId info) = Some p"
    using assms by (auto simp: view_ok_defs)
  have uniq: "u = pi_workerId info \<and> pi_type info = KWorker" if "v_workers v u = Some p" for u
    using worker_entry [OF assms(1) that] assms(2) by auto
  have inj: "q = p" if "v_procs v q = Some i" "pi_type i = KWorker" "pi_workerId i = pi_workerId info"
      "pi_type info = KWorker" for q i
    using proc_entry [OF assms(1) that(1,2)] w [OF that(4)] that(3) by (metis option.inject)
  have "procs_ok (v_remove p info v)"
    unfolding procs_ok_def
  proof (intro allI impI)
    fix q i
    assume "v_procs (v_remove p info v) q = Some i"
    then have q: "q \<noteq> p" "v_procs v q = Some i" by (auto simp: v_remove_def split: if_splits)
    then have "q \<in> v_children v \<and> (pi_type i = KWorker \<longrightarrow> 0 \<le> pi_workerId i \<and> v_workers v (pi_workerId i) = Some q)"
      using assms(1) by (simp add: view_ok_def procs_ok_def)
    with q inj [OF q(2)] show "q \<in> v_children (v_remove p info v) \<and> (pi_type i = KWorker \<longrightarrow>
        0 \<le> pi_workerId i \<and> v_workers (v_remove p info v) (pi_workerId i) = Some q)"
      by (auto simp: v_remove_def)
  qed
  moreover have "workers_ok (v_remove p info v)"
    unfolding workers_ok_def
  proof (intro allI impI)
    fix u q
    assume "v_workers (v_remove p info v) u = Some q"
    then have u: "v_workers v u = Some q" "\<not> (pi_type info = KWorker \<and> u = pi_workerId info)"
      by (auto simp: v_remove_def split: if_splits)
    then have "q \<noteq> p" using uniq by blast
    with u(1) assms(1) show "0 \<le> u \<and> u < v_effective (v_remove p info v) \<and>
        (\<exists>i. v_procs (v_remove p info v) q = Some i \<and> pi_type i = KWorker \<and> pi_workerId i = u) \<and>
        (\<exists>a. assignmentFor u (v_asg (v_remove p info v)) = Some a \<and>
             v_forked (v_remove p info v) q = Some (v_args (v_remove p info v) u, workerBackendEnv a))"
      by (simp add: view_ok_def workers_ok_def v_remove_def)
  qed
  moreover have "single_ok (v_remove p info v)"
    using assms by (auto simp: view_ok_def single_ok_def v_remove_def)
  ultimately show ?thesis using assms(1) by (simp add: view_ok_def asg_ok_def v_remove_def)
qed

text \<open>Rewriting the assignment of a worker that is not running.\<close>

lemma assignmentFor_update_other:
  "i < length as \<Longrightarrow> asg_workerId b = asg_workerId (as ! i) \<Longrightarrow> asg_workerId (as ! i) \<noteq> w \<Longrightarrow>
   assignmentFor w (as[i := b]) = assignmentFor w as"
  unfolding assignmentFor_def by (induction as arbitrary: i) (auto split: nat.split)

lemma v_demote_ok:
  assumes "view_ok v" and "i < length (v_asg v)" and "v_workers v (asg_workerId (v_asg v ! i)) = None"
  shows "view_ok (v\<lparr>v_asg := (v_asg v)[i := demoteToCpu (v_asg v ! i) reason]\<rparr>)"
proof -
  let ?b = "demoteToCpu (v_asg v ! i) reason"
  have "workers_ok (v\<lparr>v_asg := (v_asg v)[i := ?b]\<rparr>)"
    using assms assignmentFor_update_other [OF assms(2), of ?b]
    by (auto simp: view_ok_def workers_ok_def demoteToCpu_def) (metis option.distinct(1))+
  moreover have "asg_ok (v\<lparr>v_asg := (v_asg v)[i := ?b]\<rparr>)"
    using assms demoted_all_trans demoted_all_update [OF assms(2), of ?b]
    by (auto simp: view_ok_def asg_ok_def)
  ultimately show ?thesis
    using assms(1) by (auto simp: view_ok_def procs_ok_def single_ok_def)
qed

section \<open>What the calls do to a view\<close>

lemma lastFork_other [os_simps]:
  "lastFork (EvKill q s # es) = lastFork es" "lastFork (EvWait q # es) = lastFork es"
  "lastFork (EvNotify t w ok # es) = lastFork es" "lastFork (EvUnlink f # es) = lastFork es"
  by (rule ext, simp)+

lemma quiet_files [os_simps]:
  "so_children (truncateFile path text os) = so_children os" "so_trace (truncateFile path text os) = so_trace os"
  "so_children (appendFile path text os) = so_children os" "so_trace (appendFile path text os) = so_trace os"
  "so_children (unlinkFile path os) = so_children os"
  "so_trace (unlinkFile path os) = EvUnlink path # so_trace os"
  "so_children (killPid p sig os) = so_children os" "so_trace (killPid p sig os) = EvKill p sig # so_trace os"
  "so_children (sleepMs n os) = so_children os" "so_trace (sleepMs n os) = so_trace os"
  "so_env (truncateFile path text os) = so_env os" "so_env (appendFile path text os) = so_env os"
  "so_env (unlinkFile path os) = so_env os" "so_env (killPid p sig os) = so_env os" "so_env (sleepMs n os) = so_env os"
  by (simp_all add: truncateFile_def appendFile_def unlinkFile_def killPid_def record_event_def sleepMs_def)

lemma quiet_calls [os_simps]:
  "so_children (writePidFile name p os) = so_children os" "so_env (writePidFile name p os) = so_env os"
  "lastFork (so_trace (writePidFile name p os)) = lastFork (so_trace os)"
  "so_children (removePidFile name os) = so_children os" "so_env (removePidFile name os) = so_env os"
  "lastFork (so_trace (removePidFile name os)) = lastFork (so_trace os)"
  "so_children (writeCrashLog info st reason os) = so_children os" "so_env (writeCrashLog info st reason os) = so_env os"
  "lastFork (so_trace (writeCrashLog info st reason os)) = lastFork (so_trace os)"
  "so_children (snd (notifyApiServerWorkerCrash w os)) = so_children os" "so_env (snd (notifyApiServerWorkerCrash w os)) = so_env os"
  "lastFork (so_trace (snd (notifyApiServerWorkerCrash w os))) = lastFork (so_trace os)"
  "so_children (snd (notifyApiServerWorkerRestarted w os)) = so_children os" "so_env (snd (notifyApiServerWorkerRestarted w os)) = so_env os"
  "lastFork (so_trace (snd (notifyApiServerWorkerRestarted w os))) = lastFork (so_trace os)"
  by (simp_all add: writePidFile_def removePidFile_def writeCrashLog_def notifyApiServerWorkerCrash_def
      notifyApiServerWorkerRestarted_def notifyApiServer_def record_event_def Let_def os_simps)

lemma quiet_steps:
  "supSteady os = (now, os') \<Longrightarrow> so_children os' = so_children os \<and> so_trace os' = so_trace os \<and> so_env os' = so_env os"
  "nextNonce os = (n, os') \<Longrightarrow> so_children os' = so_children os \<and> so_trace os' = so_trace os \<and> so_env os' = so_env os"
  "nextPoll os = (b, os') \<Longrightarrow> so_children os' = so_children os \<and> so_trace os' = so_trace os \<and> so_env os' = so_env os"
  "notifyApiServerWorkerCrash w os = (ok, os') \<Longrightarrow>
     so_children os' = so_children os \<and> lastFork (so_trace os') = lastFork (so_trace os) \<and> so_env os' = so_env os"
  by (auto simp: supSteady_def nextNonce_def nextPoll_def notifyApiServerWorkerCrash_def
      notifyApiServer_def record_event_def os_simps split: list.splits)

lemma sup_view_cong:
  "so_children os' = so_children os \<Longrightarrow> lastFork (so_trace os') = lastFork (so_trace os) \<Longrightarrow> so_env os' = so_env os \<Longrightarrow>
   sup_view (S, os') = sup_view (S, os)"
  by (simp add: sup_view_def)

lemma forkExec_spec:
  assumes "forkExec args env os = (pid, os')"
  shows "if pid \<le> 0 then so_children os' = so_children os \<and> so_trace os' = so_trace os \<and> so_env os' = so_env os
    else pid \<notin> set (so_children os) \<and> so_children os' = pid # so_children os \<and>
      lastFork (so_trace os') = (lastFork (so_trace os))(pid \<mapsto> (args, env)) \<and> so_env os' = so_env os"
proof -
  define usable where "usable = dropWhile (\<lambda>p. p \<le> 0 \<or> p \<in> set (so_children os)) (so_pids os)"
  show ?thesis
  proof (cases "args = [] \<or> usable = []")
    case True
    with assms show ?thesis
      unfolding forkExec_def forkChild_def usable_def [symmetric] by (auto simp: Let_def split: if_splits)
  next
    case False
    then obtain p ps where u: "usable = p # ps" by (cases usable) auto
    then have p: "0 < p" "p \<notin> set (so_children os)"
      using hd_dropWhile [of "\<lambda>p. p \<le> 0 \<or> p \<in> set (so_children os)" "so_pids os"]
      unfolding usable_def by auto
    have "(pid, os') = (p, record_event (EvFork p args env) (os\<lparr>so_pids := ps, so_children := p # so_children os\<rparr>))"
      using assms False p(1) u
      unfolding forkExec_def forkChild_def usable_def [symmetric] by (auto simp: Let_def)
    with p show ?thesis by (simp add: record_event_def fun_eq_iff)
  qed
qed

text \<open>Starting a worker either leaves the view alone or adds exactly the one process.\<close>

lemma startWorker_spec:
  assumes "startWorker w so = (ok, so')"
  shows "sup_effective (fst so') = sup_effective (fst so) \<and> sup_config (fst so') = sup_config (fst so) \<and>
    sup_running (fst so') = sup_running (fst so) \<and>
    (if ok then \<exists>info. pi_type info = KWorker \<and> pi_workerId info = w \<and> pi_command info = v_args (sup_view so) w \<and>
        pi_pid info \<notin> v_children (sup_view so) \<and>
        sup_view so' = v_start info (case assignmentFor w (sup_assignments (fst so)) of
          None \<Rightarrow> [] | Some a \<Rightarrow> workerBackendEnv a) (sup_view so)
     else sup_view so' = sup_view so)"
proof -
  obtain S os where so: "so = (S, os)" by force
  let ?args = "workerArgs (sup_config S) (so_env os) w"
  let ?env = "case assignmentFor w (sup_assignments S) of None \<Rightarrow> [] | Some a \<Rightarrow> workerBackendEnv a"
  obtain pid os1 where fork: "forkExec ?args ?env os = (pid, os1)" by force
  note f = forkExec_spec [OF fork]
  show ?thesis
  proof (cases "pid \<le> 0")
    case True
    with assms so fork f show ?thesis by (auto simp: startWorker_def Let_def sup_view_def)
  next
    case False
    let ?info = "\<lparr>pi_pid = pid, pi_type = KWorker, pi_workerId = w, pi_socketPath = workerSock (so_env os1) w,
      pi_crashLog = crashLogEnv (so_env os1), pi_command = ?args\<rparr>"
    have "sup_view so' = v_start ?info ?env (sup_view so)" "ok"
      using assms so fork f False
      by (auto simp: startWorker_def adopt_def Let_def sup_view_def v_start_def update_conv' os_simps)
    moreover have "sup_effective (fst so') = sup_effective (fst so) \<and> sup_config (fst so') = sup_config (fst so) \<and>
        sup_running (fst so') = sup_running (fst so)"
      using assms so fork False by (auto simp: startWorker_def adopt_def Let_def)
    ultimately show ?thesis
      using f False so by (intro conjI) (auto intro!: exI [of _ ?info] simp: sup_view_def)
  qed
qed

lemma startWorker_ok:
  assumes "startWorker w so = (ok, so')" and "view_ok (sup_view so)"
    and "0 \<le> w" and "w < sup_effective (fst so)" and "map_of (sup_workerPid (fst so)) w = None"
  shows "view_ok (sup_view so')"
proof -
  note s = startWorker_spec [OF assms(1)]
  obtain a where a: "assignmentFor w (sup_assignments (fst so)) = Some a"
    using assigned [of "sup_view so" w] assms by (auto simp: view_ok_def sup_view_def)
  show ?thesis
  proof (cases ok)
    case True
    then obtain info where i: "pi_type info = KWorker" "pi_workerId info = w" "pi_command info = v_args (sup_view so) w"
      "pi_pid info \<notin> v_children (sup_view so)" "sup_view so' = v_start info (workerBackendEnv a) (sup_view so)"
      using s a by auto
    show ?thesis unfolding i(5)
      by (rule v_start_worker [OF assms(2) i(1,2)]) (use assms i a in \<open>simp_all add: sup_view_def\<close>)
  next
    case False
    with s assms(2) show ?thesis by simp
  qed
qed

text \<open>The two single processes: allowed when none of their type is on the table.\<close>

definition none_of :: "ProcessType \<Rightarrow> view \<Rightarrow> bool" where
  "none_of T v \<longleftrightarrow> (\<forall>p i. v_procs v p = Some i \<longrightarrow> pi_type i \<noteq> T)"

lemma adopt_view:
  assumes "pi_type info \<noteq> KWorker"
  shows "sup_view (adopt info (S, os)) =
    (sup_view (S, os))\<lparr>v_procs := (v_procs (sup_view (S, os)))(pi_pid info \<mapsto> info)\<rparr>"
  by (simp add: adopt_def sup_view_def update_conv' os_simps)

lemma start_single:
  assumes "forkExec args [] os = (pid, os')" and "0 < pid" and "view_ok (sup_view (S, os))"
    and "pi_type info \<noteq> KWorker" and "pi_pid info = pid" and "pi_command info = args" and "none_of (pi_type info) (sup_view (S, os))"
    and "sup_config S' = sup_config S" "sup_processes S' = sup_processes S" "sup_workerPid S' = sup_workerPid S" "sup_effective S' = sup_effective S"
      "sup_plan S' = sup_plan S" "sup_assignments S' = sup_assignments S"
  shows "view_ok (sup_view (adopt info (S', os')))"
proof -
  have f: "pid \<notin> set (so_children os)" "so_children os' = pid # so_children os"
    "lastFork (so_trace os') = (lastFork (so_trace os))(pid \<mapsto> (args, []))" "so_env os' = so_env os"
    using forkExec_spec [OF assms(1)] assms(2) by auto
  have "sup_view (adopt info (S', os')) = v_start info [] (sup_view (S, os))"
    using assms f by (simp add: adopt_view) (simp add: sup_view_def v_start_def)
  moreover have "view_ok (v_start info [] (sup_view (S, os)))"
    using assms(3,4,5,7) f(1) by (intro v_start_single) (auto simp: none_of_def sup_view_def)
  ultimately show ?thesis by simp
qed

lemma startModelCache_ok:
  assumes "startModelCache so = (ok, so')" and "view_ok (sup_view so)" and "none_of KModelCache (sup_view so)"
  shows "view_ok (sup_view so') \<and> sup_effective (fst so') = sup_effective (fst so)"
proof -
  obtain S os where so: "so = (S, os)" by force
  obtain n os1 where n: "nextNonce os = (n, os1)" by force
  obtain pid os2 where f: "forkExec (modelCacheArgs (sup_config S) n) [] os1 = (pid, os2)" by force
  have v: "sup_view (S, os1) = sup_view so" using quiet_steps(2) [OF n] so by (simp add: sup_view_def)
  show ?thesis
  proof (cases "pid \<le> 0")
    case True
    with assms so n f forkExec_spec [OF f] v show ?thesis
      by (auto simp: startModelCache_def Let_def sup_view_def)
  next
    case False
    with assms so n f show ?thesis
      by (auto simp: startModelCache_def Let_def v intro!: start_single [OF f, of S]) (simp add: adopt_def Let_def)
  qed
qed

lemma startApiServer_ok:
  assumes "startApiServer so = (ok, so')" and "view_ok (sup_view so)" and "none_of KApiServer (sup_view so)"
  shows "view_ok (sup_view so') \<and> sup_effective (fst so') = sup_effective (fst so)"
proof -
  obtain S os where so: "so = (S, os)" by force
  obtain pid os2 where f: "forkExec (apiServerArgs (sup_config S)) [] os = (pid, os2)" by force
  show ?thesis
  proof (cases "pid \<le> 0")
    case True
    with assms so f forkExec_spec [OF f] show ?thesis by (auto simp: startApiServer_def Let_def sup_view_def)
  next
    case False
    with assms so f show ?thesis
      by (auto simp: startApiServer_def Let_def intro!: start_single [OF f, of S]) (simp add: adopt_def Let_def)
  qed
qed

lemma waitReadyLoop_view:
  "waitReadyLoop deadline so = (ok, so') \<Longrightarrow> sup_view so' = sup_view so \<and>
     sup_effective (fst so') = sup_effective (fst so) \<and> sup_config (fst so') = sup_config (fst so)"
proof (induction deadline so arbitrary: ok so' rule: waitReadyLoop.induct)
  case (1 deadline S os)
  obtain poll os1 where p: "nextPoll os = (poll, os1)" by (meson surj_pair)
  obtain now os2 where c: "supSteady os1 = (now, os2)" by force
  have view: "sup_view (S\<lparr>sup_running := r\<rparr>, sleepMs n os2) = sup_view (S, os)"
    "sup_view (S\<lparr>sup_running := r\<rparr>, os2) = sup_view (S, os)" "sup_view (S\<lparr>sup_running := r\<rparr>, os1) = sup_view (S, os)" for r n
    using quiet_steps(3) [OF p] quiet_steps(1) [OF c] by (simp_all add: sup_view_def os_simps)
  show ?case
    using 1 p c view unfolding waitReadyLoop.simps [of deadline S os]
    by (auto simp: Let_def split: if_splits)
qed

lemma waitForModelReady_view:
  "waitForModelReady so = (ok, so') \<Longrightarrow> sup_view so' = sup_view so \<and>
     sup_effective (fst so') = sup_effective (fst so) \<and> sup_config (fst so') = sup_config (fst so)"
proof -
  assume run: "waitForModelReady so = (ok, so')"
  obtain S os where so: "so = (S, os)" by force
  obtain now os1 where c: "supSteady os = (now, os1)" by force
  have "waitReadyLoop (now + cfg_modelReadyTimeoutSeconds (sup_config S) * 1000000000) (S, os1) = (ok, so')"
    using run so c by (simp add: waitForModelReady_def)
  moreover have "sup_view (S, os1) = sup_view so" using quiet_steps(1) [OF c] so by (simp add: sup_view_def)
  ultimately show ?thesis using waitReadyLoop_view [of _ "(S, os1)"] so by fastforce
qed

section \<open>Restarting the workers\<close>

lemma restartStops_ok:
  assumes "view_ok (sup_view so)"
  shows "view_ok (sup_view (restartStops w so)) \<and> sup_effective (fst (restartStops w so)) = sup_effective (fst so)"
proof -
  obtain S os where so: "so = (S, os)" by force
  show ?thesis
  proof (cases "map_of (sup_workerPid S) w")
    case None
    with assms so show ?thesis by (simp add: restartStops_def)
  next
    case (Some pid)
    then obtain info where i: "v_procs (sup_view so) pid = Some info" "pi_type info = KWorker" "pi_workerId info = w"
      using assms so by (auto simp: view_ok_def workers_ok_def sup_view_def)
    have "sup_view (restartStops w so) = v_remove pid info (sup_view so)"
      using so Some i
      by (auto simp: restartStops_def sup_view_def v_remove_def delete_conv' waitPid_def record_event_def os_simps Let_def)
    moreover have "sup_effective (fst (restartStops w so)) = sup_effective (fst so)"
      using so Some by (simp add: restartStops_def Let_def)
    ultimately show ?thesis using v_remove_ok [OF assms i(1)] by simp
  qed
qed

lemma restartStarts_ok:
  assumes "view_ok (sup_view so)" and "0 \<le> w" and "w < sup_effective (fst so)"
  shows "view_ok (sup_view (restartStarts w so)) \<and> sup_effective (fst (restartStarts w so)) = sup_effective (fst so)"
proof (cases "map_of (sup_workerPid (fst so)) w")
  case None
  obtain ok S os where s: "startWorker w so = (ok, S, os)" by (metis prod_cases3)
  have view: "sup_view (restartStarts w so) = sup_view (S, os)"
    "sup_effective (fst (restartStarts w so)) = sup_effective S"
    using None s by (simp_all add: restartStarts_def sup_view_def os_simps)
  show ?thesis
    unfolding view using startWorker_ok [OF s assms None] startWorker_spec [OF s] by simp
next
  case (Some p)
  with assms show ?thesis by (simp add: restartStarts_def)
qed

lemma fold_keeps:
  assumes "\<And>x so. x \<in> set xs \<Longrightarrow> P so \<Longrightarrow> P (f x so)" and "P so"
  shows "P (fold f xs so)"
  using assms by (induction xs arbitrary: so) auto

lemma restartWorkers_ok:
  assumes "view_ok (sup_view so)"
  shows "view_ok (sup_view (restartWorkersAfterModelCacheRestart so))"
proof -
  define so1 where "so1 = fold restartStops [0..cfg_workerCount (sup_config (fst so)) - 1] so"
  have 1: "view_ok (sup_view so1)"
    unfolding so1_def by (rule fold_keeps [where P = "\<lambda>so. view_ok (sup_view so)"]) (use assms restartStops_ok in auto)
  have "view_ok (sup_view (fold restartStarts [0..sup_effective (fst so1) - 1] so1)) \<and>
      sup_effective (fst (fold restartStarts [0..sup_effective (fst so1) - 1] so1)) = sup_effective (fst so1)"
    by (rule fold_keeps [where P = "\<lambda>so. view_ok (sup_view so) \<and> sup_effective (fst so) = sup_effective (fst so1)"])
      (use 1 restartStarts_ok in auto)
  then show ?thesis
    by (simp add: restartWorkersAfterModelCacheRestart_def Let_def so1_def [symmetric])
qed

section \<open>A crash\<close>

text \<open>The client of the reassignment: its three hooks leave the assignments alone.\<close>

interpretation supx: reassignment_client "\<lambda>so. sup_assignments (fst so)" putAssignments supHooks
  by unfold_locales
    (auto simp: putAssignments_def supHooks_def startWorker_def adopt_def Let_def split: prod.splits if_splits)

lemma putAssignments_view:
  "sup_view (putAssignments as so) = (sup_view so)\<lparr>v_asg := as\<rparr>"
  "sup_effective (fst (putAssignments as so)) = sup_effective (fst so)"
  "sup_workerPid (fst (putAssignments as so)) = sup_workerPid (fst so)"
  "sup_running (fst (putAssignments as so)) = sup_running (fst so)"
  by (simp_all add: putAssignments_def sup_view_def split: prod.splits)

lemma notify_view:
  "sup_view (S, snd (notifyApiServerWorkerCrash w os)) = sup_view (S, os)"
  "sup_view (S, snd (notifyApiServerWorkerRestarted w os)) = sup_view (S, os)"
  by (simp_all add: sup_view_def os_simps)

lemma handleWorkerReassignment_ok:
  assumes "handleWorkerReassignment info status so = (handled, so')" and "view_ok (sup_view so)"
    and "pi_type info = KWorker \<Longrightarrow> 0 \<le> pi_workerId info \<and> pi_workerId info < sup_effective (fst so) \<and>
           map_of (sup_workerPid (fst so)) (pi_workerId info) = None"
  shows "view_ok (sup_view so') \<and> sup_effective (fst so') = sup_effective (fst so) \<and>
    (\<not> handled \<longrightarrow> v_procs (sup_view so') = v_procs (sup_view so) \<and> v_workers (sup_view so') = v_workers (sup_view so))"
proof (cases "pi_type info = KWorker")
  case False
  with assms show ?thesis by (simp add: handleWorkerReassignment_def)
next
  case True
  let ?w = "pi_workerId info" and ?as = "sup_assignments (fst so)"
  obtain outcome so1 where run: "supx.reassign ?w (wIfExited status \<and> wExitStatus status = kReassignCpu)
      (sup_running (fst so)) so = (outcome, so1)" by (meson surj_pair)
  have so1: "so' = so1" "handled = (outcome = KRestarted)"
    using assms(1) True run by (simp_all add: handleWorkerReassignment_def)
  show ?thesis
  proof (cases "outcome = KNotApplicable")
    case True
    with supx.reassign_get [OF run] so1 assms(2) show ?thesis by simp
  next
    case False
    then obtain i where i: "findAssignment ?w ?as = Some i" "asg_backend (?as ! i) = KCuda"
      "0 \<le> ?w" "wIfExited status \<and> wExitStatus status = kReassignCpu" "sup_running (fst so)"
      using supx.reassign_get [OF run] by auto
    define so2 where "so2 = putAssignments (?as[i := demoteToCpu (?as ! i) (reassignReason ''cuda'')]) so"
    define so3 where "so3 = (fst so2, snd (notifyApiServerWorkerCrash ?w (snd so2)))"
    obtain ok S4 os4 where start: "startWorker ?w so3 = (ok, S4, os4)" by (metis prod_cases3)
    have len: "i < length ?as" "asg_workerId (?as ! i) = ?w" using findAssignment_Some [OF i(1)] by auto
    have v2: "sup_view so2 = (sup_view so)\<lparr>v_asg := ?as[i := demoteToCpu (?as ! i) (reassignReason ''cuda'')]\<rparr>"
      by (simp add: so2_def putAssignments_view)
    have "view_ok (sup_view so2)"
      unfolding v2 using v_demote_ok [OF assms(2), of i "reassignReason ''cuda''"] len assms(3) True
      by (simp add: sup_view_def)
    moreover have v3: "sup_view so3 = sup_view so2"
      unfolding so3_def by (cases so2) (simp add: notify_view)
    ultimately have ok3: "view_ok (sup_view so3)" by simp
    have tab: "sup_effective (fst so3) = sup_effective (fst so)" "sup_workerPid (fst so3) = sup_workerPid (fst so)"
      by (simp_all add: so3_def so2_def putAssignments_view)
    have ok4: "view_ok (sup_view (S4, os4))"
      using startWorker_ok [OF start ok3] assms(3) True tab by simp
    note sp = startWorker_spec [OF start]
    have out: "(outcome, so1) = (if \<not> ok then (KStartFailed, S4, os4)
        else (KRestarted, S4, snd (notifyApiServerWorkerRestarted ?w os4)))"
      using run i start by (auto simp: applyWorkerReassignment_def supHooks_def Let_def so2_def so3_def
          split: prod.splits)
    show ?thesis
    proof (cases ok)
      case True
      with out so1 have "so' = (S4, snd (notifyApiServerWorkerRestarted ?w os4))" "handled" by auto
      with ok4 sp tab show ?thesis by (simp add: notify_view)
    next
      case False
      with out so1 have so': "so' = (S4, os4)" "\<not> handled" by auto
      have "sup_view (S4, os4) = sup_view so2" using sp False v3 by simp
      with so' ok4 sp tab show ?thesis by (simp add: v2)
    qed
  qed
qed

lemma circuitOpen_view:
  assumes "circuitOpen key info so = Inr (b, so')"
  shows "sup_view so' = sup_view so \<and> sup_effective (fst so') = sup_effective (fst so) \<and>
    sup_workerPid (fst so') = sup_workerPid (fst so)"
proof -
  obtain S os where so: "so = (S, os)" by force
  obtain now os1 where c: "supSteady os = (now, os1)" by force
  obtain b1 h where h: "registerCrash key now (sup_breaker S) = (b1, h)" by force
  have "so' = (S\<lparr>sup_breaker := h\<rparr>, os1)"
    using assms so c h by (auto simp: circuitOpen_def Let_def split: if_splits sum.splits)
  with so quiet_steps(1) [OF c] show ?thesis by (simp add: sup_view_def)
qed

lemma restartAfterCrash_ok:
  assumes "restartAfterCrash info so = Inr so'" and "view_ok (sup_view so)"
    and "if pi_type info = KWorker then 0 \<le> pi_workerId info \<and> pi_workerId info < sup_effective (fst so) \<and>
           map_of (sup_workerPid (fst so)) (pi_workerId info) = None
         else none_of (pi_type info) (sup_view so)"
  shows "view_ok (sup_view so')"
proof (cases "pi_type info")
  case KWorker
  obtain S os where so: "so = (S, os)" by force
  obtain nok os1 where n: "notifyApiServerWorkerCrash (pi_workerId info) os = (nok, os1)" by force
  have v1: "sup_view (S, os1) = sup_view so" using quiet_steps(4) [OF n] so by (simp add: sup_view_def)
  obtain b so2 where circuit: "circuitOpen (pi_workerId info) info (S, os1) = Inr (b, so2)"
    using assms(1) KWorker so n by (auto simp: restartAfterCrash_def Let_def split: sum.splits)
  note v2 = circuitOpen_view [OF circuit]
  have ok2: "view_ok (sup_view so2)" using v1 v2 assms(2) by simp
  obtain ok S3 os3 where start: "startWorker (pi_workerId info) so2 = (ok, S3, os3)" by (metis prod_cases3)
  have "view_ok (sup_view (S3, os3))"
    using startWorker_ok [OF start ok2] assms(3) KWorker v2 so by simp
  moreover have "sup_view so' = (if b then sup_view so2 else sup_view (S3, os3))"
    using assms(1) KWorker so n circuit start
    by (cases b) (auto simp: restartAfterCrash_def Let_def notify_view split: if_splits)
  ultimately show ?thesis using ok2 by simp
next
  case KModelCache
  obtain b so2 where circuit: "circuitOpen kCircuitKeyModelCache info so = Inr (b, so2)"
    using assms(1) KModelCache by (auto simp: restartAfterCrash_def split: sum.splits)
  note v2 = circuitOpen_view [OF circuit]
  have ok2: "view_ok (sup_view so2)" using v2 assms(2) by simp
  obtain ok so3 where start: "startModelCache so2 = (ok, so3)" by (meson surj_pair)
  have ok3: "view_ok (sup_view so3)"
    using startModelCache_ok [OF start ok2] assms(3) KModelCache v2 by simp
  obtain ready so4 where wait: "waitForModelReady so3 = (ready, so4)" by (meson surj_pair)
  have ok4: "view_ok (sup_view so4)" using waitForModelReady_view [OF wait] ok3 by simp
  have "so' = (if b then so2 else if \<not> ok then so3
      else if ready then restartWorkersAfterModelCacheRestart so4 else so4)"
    using assms(1) KModelCache circuit start wait by (cases b) (auto simp: restartAfterCrash_def)
  then show ?thesis using ok2 ok3 ok4 restartWorkers_ok [OF ok4] by simp
next
  case KApiServer
  obtain b so2 where circuit: "circuitOpen kCircuitKeyApiServer info so = Inr (b, so2)"
    using assms(1) KApiServer by (auto simp: restartAfterCrash_def split: sum.splits)
  note v2 = circuitOpen_view [OF circuit]
  have ok2: "view_ok (sup_view so2)" using v2 assms(2) by simp
  obtain ok so3 where start: "startApiServer so2 = (ok, so3)" by (meson surj_pair)
  have ok3: "view_ok (sup_view so3)"
    using startApiServer_ok [OF start ok2] assms(3) KApiServer v2 by simp
  have "so' = (if b then so2 else so3)"
    using assms(1) KApiServer circuit start by (cases b) (auto simp: restartAfterCrash_def)
  then show ?thesis using ok2 ok3 by simp
qed

text \<open>The reaped child is still on the table when its crash is handled.\<close>

lemma forget_view:
  assumes "map_of (sup_processes (fst so)) pid = Some info" and "pid \<notin> v_children (sup_view so)"
    and "pi_type info = KWorker \<Longrightarrow> 0 \<le> pi_workerId info"
  shows "sup_view (forget info pid so) =
      v_remove pid info ((sup_view so)\<lparr>v_children := insert pid (v_children (sup_view so))\<rparr>)"
    and "sup_effective (fst (forget info pid so)) = sup_effective (fst so)"
proof -
  obtain S os where so: "so = (S, os)" by force
  show "sup_view (forget info pid so) =
      v_remove pid info ((sup_view so)\<lparr>v_children := insert pid (v_children (sup_view so))\<rparr>)"
    using assms so by (auto simp: forget_def sup_view_def v_remove_def delete_conv' os_simps Let_def)
  show "sup_effective (fst (forget info pid so)) = sup_effective (fst so)"
    using so by (simp add: forget_def Let_def)
qed

lemma v_remove_none:
  assumes "view_ok v" and "v_procs v p = Some info" and "pi_type info \<noteq> KWorker"
  shows "none_of (pi_type info) (v_remove p info v)"
proof -
  have "single_ok v" using assms(1) by (simp add: view_ok_def)
  then have "q = p" if "v_procs v q = Some i" "pi_type i = pi_type info" for q i
    using assms(2,3) that unfolding single_ok_def by metis
  then show ?thesis by (auto simp: none_of_def v_remove_def)
qed

lemma handleCrash_ok:
  assumes "handleCrash pid status so = Inr so'" and "pid \<notin> v_children (sup_view so)"
    and ok: "view_ok ((sup_view so)\<lparr>v_children := insert pid (v_children (sup_view so))\<rparr>)"
  shows "view_ok (sup_view so')"
proof (cases "map_of (sup_processes (fst so)) pid")
  case None
  then have ne: "v_procs (sup_view so) p = Some info \<Longrightarrow> p \<noteq> pid" for p info
    by (auto simp: sup_view_def)
  have "procs_ok (sup_view so)"
    using ok ne by (fastforce simp: view_ok_def procs_ok_def)
  moreover have "workers_ok (sup_view so)" "single_ok (sup_view so)" "asg_ok (sup_view so)"
    using ok by (simp_all add: view_ok_defs)
  ultimately have "view_ok (sup_view so)" by (simp add: view_ok_def)
  with None assms(1) show ?thesis by (simp add: handleCrash_def)
next
  case (Some info)
  let ?v = "(sup_view so)\<lparr>v_children := insert pid (v_children (sup_view so))\<rparr>"
  have info: "v_procs ?v pid = Some info" using Some by (simp add: sup_view_def)
  have w: "0 \<le> pi_workerId info \<and> pi_workerId info < sup_effective (fst so)" if "pi_type info = KWorker"
  proof -
    have "v_workers ?v (pi_workerId info) = Some pid" using proc_entry [OF ok info that] .
    with ok show ?thesis by (auto simp: view_ok_def workers_ok_def sup_view_def)
  qed
  define so1 where "so1 = forget info pid so"
  have v1: "sup_view so1 = v_remove pid info ?v" "sup_effective (fst so1) = sup_effective (fst so)"
    unfolding so1_def using forget_view [OF Some assms(2)] w by auto
  have ok1: "view_ok (sup_view so1)" unfolding v1(1) by (rule v_remove_ok [OF ok info])
  have free: "map_of (sup_workerPid (fst so1)) (pi_workerId info) = None" if "pi_type info = KWorker"
    using arg_cong [OF v1(1), of "\<lambda>v. v_workers v (pi_workerId info)"] that
    by (simp add: v_remove_def sup_view_def)
  have none: "none_of (pi_type info) (sup_view so1)" if "pi_type info \<noteq> KWorker"
    using v_remove_none [OF ok info that] v1(1) by simp
  show ?thesis
  proof (cases "wIfExited status \<and> wExitStatus status = 0")
    case True
    with assms(1) Some ok1 show ?thesis by (simp add: handleCrash_def so1_def Let_def)
  next
    case False
    obtain handled S os where h: "handleWorkerReassignment info status so1 = (handled, S, os)" by (metis prod_cases3)
    note r = handleWorkerReassignment_ok [OF h ok1]
    have r: "view_ok (sup_view (S, os))" "sup_effective S = sup_effective (fst so)"
      "\<not> handled \<Longrightarrow> v_procs (sup_view (S, os)) = v_procs (sup_view so1) \<and>
         v_workers (sup_view (S, os)) = v_workers (sup_view so1)"
      using r w free v1(2) by auto
    let ?os = "writeCrashLog info status (statusToReason status) os"
    have same: "sup_view (S, ?os) = sup_view (S, os)" by (simp add: sup_view_def os_simps)
    have run: "Inr so' = (if handled then Inr (S, os) else if \<not> sup_running S then Inr (S, ?os)
        else restartAfterCrash info (S, ?os))"
      using assms(1) Some False h by (auto simp: handleCrash_def so1_def [symmetric] Let_def)
    have "view_ok (sup_view so')" if "restartAfterCrash info (S, ?os) = Inr so'" "\<not> handled"
      using that r w free none same
      by (intro restartAfterCrash_ok [OF that(1)]) (auto simp: none_of_def sup_view_def)
    with run r(1) same show ?thesis by (auto split: if_splits)
  qed
qed

lemma reapFrom_ok:
  "reapFrom n so = Inr so' \<Longrightarrow> view_ok (sup_view so) \<Longrightarrow> view_ok (sup_view so')"
proof (induction n arbitrary: so)
  case 0
  then show ?case by simp
next
  case (Suc n)
  obtain S os where so: "so = (S, os)" by force
  obtain pid st os1 where w: "waitAny os = (pid, st, os1)" by (metis prod_cases3)
  show ?case
  proof (cases "pid \<le> 0")
    case True
    then have "sup_view (S, os1) = sup_view so"
      using w so by (auto simp: waitAny_def sup_view_def split: list.splits if_splits)
    with True Suc.prems so w show ?thesis by (auto simp: Let_def)
  next
    case False
    then have child: "pid \<in> set (so_children os)" "so_children os1 = removeAll pid (so_children os)"
      "so_trace os1 = so_trace os" "so_env os1 = so_env os"
      using w by (auto simp: waitAny_def split: list.splits if_splits)
    obtain so1 where crash: "handleCrash pid st (S, os1) = Inr so1" and rest: "reapFrom n so1 = Inr so'"
      using Suc.prems(1) so w False by (auto simp: Let_def split: sum.splits)
    have "(sup_view (S, os1))\<lparr>v_children := insert pid (v_children (sup_view (S, os1)))\<rparr> = sup_view so"
      using child so by (auto simp: sup_view_def)
    then have "view_ok (sup_view so1)"
      using handleCrash_ok [OF crash] Suc.prems(2) child by (simp add: sup_view_def)
    with Suc.IH [OF rest] show ?thesis .
  qed
qed

lemma heartbeatLine_view: "sup_view (heartbeatLine line so) = sup_view so"
  by (cases so) (auto simp: heartbeatLine_def recordHeartbeat_def sup_view_def Let_def split: option.split)

lemma drainFrom_view: "sup_view (drainFrom es so) = sup_view so"
proof (induction es so rule: drainFrom.induct)
  case (4 rs es so)
  have "sup_view (fold heartbeatLine ls so) = sup_view so" for ls so
    by (induction ls arbitrary: so) (simp_all add: heartbeatLine_view)
  with 4 show ?case by simp
qed (simp_all add: sup_view_def)

lemma checkWorkerLiveness_view: "sup_view (checkWorkerLiveness so) = sup_view so"
proof -
  have "sup_view (checkWorker now e so) = sup_view so" for now e so
    by (cases so; cases e) (auto simp: checkWorker_def sup_view_def os_simps Let_def split: option.split)
  then have "sup_view (fold (checkWorker now) es so) = sup_view so" for now es so
    by (induction es arbitrary: so) simp_all
  then show ?thesis by (simp add: checkWorkerLiveness_def)
qed

lemma monitorOnce_ok:
  assumes "monitorOnce so = Inr so'" and "view_ok (sup_view so)"
  shows "view_ok (sup_view so')"
proof -
  obtain so1 where reap: "reapChildren so = Inr so1" using assms(1) by (auto simp: monitorOnce_def split: sum.splits)
  have 1: "view_ok (sup_view so1)" using reapFrom_ok [OF reap [unfolded reapChildren_def] assms(2)] .
  obtain S os where c: "checkWorkerLiveness (drainSupervisorSocket so1) = (S, os)" by force
  have "sup_view (drainSupervisorSocket so1) = sup_view so1"
    by (simp add: drainSupervisorSocket_def drainFrom_view)
  then have "sup_view (S, os) = sup_view so1" using c checkWorkerLiveness_view by metis
  with assms(1) reap c 1 show ?thesis by (auto simp: monitorOnce_def sup_view_def os_simps)
qed

section \<open>Start-up\<close>

lemma discoverHardware_ok:
  assumes "sup_processes S = []" and "sup_workerPid S = []"
  shows "view_ok (sup_view (discoverHardware (S, os)))"
    and "none_of T (sup_view (discoverHardware (S, os)))"
    and "v_workers (sup_view (discoverHardware (S, os))) = Map.empty"
proof -
  obtain hw os1 where "runHardwareProbeChild S os = (hw, os1)" by (meson surj_pair)
  with assms show "view_ok (sup_view (discoverHardware (S, os)))"
    "none_of T (sup_view (discoverHardware (S, os)))"
    "v_workers (sup_view (discoverHardware (S, os))) = Map.empty"
    by (auto simp: discoverHardware_def view_ok_defs sup_view_def none_of_def Let_def)
qed

lemma startWorkersFrom_ok:
  assumes "startWorkersFrom ws so = (ok, so')" and "view_ok (sup_view so)" and "distinct ws"
    and "\<forall>w \<in> set ws. 0 \<le> w \<and> w < sup_effective (fst so) \<and> v_workers (sup_view so) w = None"
  shows "view_ok (sup_view so')"
  using assms
proof (induction ws arbitrary: so)
  case Nil
  then show ?case by simp
next
  case (Cons w ws)
  obtain ok1 so1 where s: "startWorker w so = (ok1, so1)" by (meson surj_pair)
  have ok: "view_ok (sup_view so1)"
    using startWorker_ok [OF s Cons.prems(2)] Cons.prems(4) by (simp add: sup_view_def)
  note sp = startWorker_spec [OF s]
  show ?case
  proof (cases ok1)
    case False
    with Cons.prems s ok show ?thesis by simp
  next
    case True
    then obtain info env where v: "pi_type info = KWorker" "pi_workerId info = w"
      "sup_view so1 = v_start info env (sup_view so)" "sup_effective (fst so1) = sup_effective (fst so)"
      using sp by auto
    have "\<forall>u \<in> set ws. 0 \<le> u \<and> u < sup_effective (fst so1) \<and> v_workers (sup_view so1) u = None"
      using Cons.prems(3,4) v by (auto simp: v_start_def)
    moreover have "startWorkersFrom ws so1 = (ok, so')" using Cons.prems(1) s True by simp
    ultimately show ?thesis using Cons.IH ok Cons.prems(3) by simp
  qed
qed

end
