(* ===== verification/Supervisor_Runs.thy ===== *)
theory Supervisor_Runs
  imports Supervisor_Safety
begin

text \<open>
  Runs of the supervisor: what every operation leaves alone, the states it can reach after a successful
  start, and what holds in all of them.
\<close>

section \<open>What every operation keeps\<close>

text \<open>
  The configuration, the discovered hardware and the plan never change once discovery has run, the
  assignments only ever move from CUDA to CPU, a table keyed by worker stays a table, no call invents an
  ended child, and the supervisor's own environment stays as it is.
\<close>

definition sup_fixed :: "Supervisor \<Rightarrow> SupervisorConfig \<times> HardwareReport \<times> CapacityPlan \<times> int" where
  "sup_fixed S = (sup_config S, sup_hardware S, sup_plan S, sup_effective S)"

definition sup_keeps :: "sup_state \<Rightarrow> sup_state \<Rightarrow> bool" where
  "sup_keeps so so' \<longleftrightarrow> sup_fixed (fst so') = sup_fixed (fst so) \<and>
     demoted_all (sup_assignments (fst so)) (sup_assignments (fst so')) \<and>
     (distinct (map fst (sup_workerPid (fst so))) \<longrightarrow> distinct (map fst (sup_workerPid (fst so')))) \<and>
     length (so_exits (snd so')) \<le> length (so_exits (snd so)) \<and> so_env (snd so') = so_env (snd so)"

lemma sup_keeps_refl [simp]: "sup_keeps so so"
  by (simp add: sup_keeps_def)

lemma sup_keeps_trans: "sup_keeps so so1 \<Longrightarrow> sup_keeps so1 so2 \<Longrightarrow> sup_keeps so so2"
  by (auto simp: sup_keeps_def intro: demoted_all_trans)

text \<open>A change of fields that are none of these.\<close>

lemma sup_keeps_same:
  "sup_fixed S' = sup_fixed S \<Longrightarrow> sup_assignments S' = sup_assignments S \<Longrightarrow>
   sup_workerPid S' = sup_workerPid S \<Longrightarrow> length (so_exits os') \<le> length (so_exits os) \<Longrightarrow> so_env os' = so_env os \<Longrightarrow> sup_keeps (S, os) (S', os')"
  by (simp add: sup_keeps_def)

lemma fold_sup_keeps:
  assumes "\<And>x so. sup_keeps so (f x so)"
  shows "sup_keeps so (fold f xs so)"
proof (induction xs arbitrary: so)
  case (Cons x xs)
  show ?case using sup_keeps_trans [OF assms Cons] by simp
qed simp

lemma exits_files [os_simps]:
  "so_exits (truncateFile path text os) = so_exits os"
  "so_exits (appendFile path text os) = so_exits os"
  "so_exits (unlinkFile path os) = so_exits os"
  "so_exits (killPid p sig os) = so_exits os"
  "so_exits (waitPid p os) = so_exits os"
  "so_exits (sleepMs n os) = so_exits os"
  "so_exits (record_event e os) = so_exits os"
  "so_env (waitPid p os) = so_env os" "so_env (record_event e os) = so_env os"
  by (simp_all add: truncateFile_def appendFile_def unlinkFile_def killPid_def waitPid_def record_event_def sleepMs_def)

lemma exits_calls [os_simps]:
  "so_exits (writePidFile name p os) = so_exits os"
  "so_exits (removePidFile name os) = so_exits os"
  "so_exits (writeCrashLog info st reason os) = so_exits os"
  "so_exits (snd (notifyApiServerWorkerCrash w os)) = so_exits os"
  "so_exits (snd (notifyApiServerWorkerRestarted w os)) = so_exits os"
  by (simp_all add: writePidFile_def removePidFile_def writeCrashLog_def notifyApiServerWorkerCrash_def
      notifyApiServerWorkerRestarted_def notifyApiServer_def Let_def os_simps)

lemma exits_steps:
  "supSteady os = (now, os') \<Longrightarrow> so_exits os' = so_exits os \<and> so_env os' = so_env os"
  "nextNonce os = (n, os') \<Longrightarrow> so_exits os' = so_exits os \<and> so_env os' = so_env os"
  "nextPoll os = (b, os') \<Longrightarrow> so_exits os' = so_exits os \<and> so_env os' = so_env os"
  "forkExec args env os = (pid, os') \<Longrightarrow> so_exits os' = so_exits os \<and> so_env os' = so_env os"
  by (auto simp: supSteady_def nextNonce_def nextPoll_def forkExec_def forkChild_def Let_def os_simps
      split: list.splits if_splits)

lemma startWorker_keeps: "startWorker w so = (ok, so') \<Longrightarrow> sup_keeps so so'"
  by (cases so) (auto simp: startWorker_def adopt_def sup_keeps_def sup_fixed_def Let_def os_simps
      dest!: exits_steps(4) intro: distinct_update split: prod.splits if_splits)

lemma startModelCache_keeps: "startModelCache so = (ok, so') \<Longrightarrow> sup_keeps so so'"
  by (cases so) (auto simp: startModelCache_def adopt_def sup_keeps_def sup_fixed_def Let_def os_simps
      dest!: exits_steps(2,4) split: prod.splits if_splits)

lemma startApiServer_keeps: "startApiServer so = (ok, so') \<Longrightarrow> sup_keeps so so'"
  by (cases so) (auto simp: startApiServer_def adopt_def sup_keeps_def sup_fixed_def Let_def os_simps
      dest!: exits_steps(4) split: prod.splits if_splits)

lemma startWorkersFrom_keeps: "startWorkersFrom ws so = (ok, so') \<Longrightarrow> sup_keeps so so'"
proof (induction ws arbitrary: so)
  case (Cons w ws)
  obtain ok1 so1 where s: "startWorker w so = (ok1, so1)" by (meson surj_pair)
  show ?case
  proof (cases ok1)
    case True
    with Cons.prems s have "startWorkersFrom ws so1 = (ok, so')" by simp
    from sup_keeps_trans [OF startWorker_keeps [OF s] Cons.IH [OF this]] show ?thesis .
  next
    case False
    with Cons.prems s startWorker_keeps [OF s] show ?thesis by simp
  qed
qed simp

lemma waitReadyLoop_keeps: "waitReadyLoop deadline so = (ok, so') \<Longrightarrow> sup_keeps so so'"
proof (induction deadline so arbitrary: ok so' rule: waitReadyLoop.induct)
  case (1 deadline S os)
  obtain poll os1 where p: "nextPoll os = (poll, os1)" by (meson surj_pair)
  obtain now os2 where c: "supSteady os1 = (now, os2)" by force
  have here: "sup_keeps (S, os) (S\<lparr>sup_running := r\<rparr>, os1)" "sup_keeps (S, os) (S\<lparr>sup_running := r\<rparr>, os2)"
    "sup_keeps (S, os) (S\<lparr>sup_running := r\<rparr>, sleepMs n os2)" for r n
    using exits_steps(3) [OF p] exits_steps(1) [OF c]
    by (auto intro!: sup_keeps_same simp: sup_fixed_def os_simps)
  let ?S = "S\<lparr>sup_running := (sup_running S \<and> \<not> fst poll)\<rparr>"
  show ?case
  proof (cases "sup_running ?S \<and> now < deadline \<and> pollHeader (snd poll) (sup_runNonce S) \<noteq> KReady")
    case True
    then have "waitReadyLoop deadline (?S, sleepMs 50 os2) = (ok, so')"
      using 1(2) p c unfolding waitReadyLoop.simps [of deadline S os] by (simp add: Let_def)
    with 1(1) [OF p [symmetric] refl refl _ c [symmetric] refl] True have "sup_keeps (?S, sleepMs 50 os2) so'" by simp
    then show ?thesis using here(3) sup_keeps_trans by blast
  next
    case False
    with 1(2) p c here show ?thesis unfolding waitReadyLoop.simps [of deadline S os]
      by (auto simp: Let_def split: if_splits)
  qed
qed

lemma waitForModelReady_keeps: "waitForModelReady so = (ok, so') \<Longrightarrow> sup_keeps so so'"
proof -
  assume run: "waitForModelReady so = (ok, so')"
  obtain S os where so: "so = (S, os)" by force
  obtain now os1 where c: "supSteady os = (now, os1)" by force
  have "waitReadyLoop (now + cfg_modelReadyTimeoutSeconds (sup_config S) * 1000000000) (S, os1) = (ok, so')"
    using run so c by (simp add: waitForModelReady_def)
  from waitReadyLoop_keeps [OF this] exits_steps(1) [OF c] so show ?thesis by (simp add: sup_keeps_def)
qed

lemma restartStops_keeps: "sup_keeps so (restartStops w so)"
  by (cases so) (auto simp: restartStops_def sup_keeps_def sup_fixed_def Let_def os_simps
      distinct_delete split: option.split)

lemma restartStarts_keeps: "sup_keeps so (restartStarts w so)"
proof -
  obtain ok S os where s: "startWorker w so = (ok, S, os)" by (metis prod_cases3)
  from startWorker_keeps [OF s] show ?thesis
    by (auto simp: restartStarts_def s sup_keeps_def os_simps)
qed

lemma restartWorkers_keeps: "sup_keeps so (restartWorkersAfterModelCacheRestart so)"
  unfolding restartWorkersAfterModelCacheRestart_def Let_def
  by (meson fold_sup_keeps sup_keeps_trans restartStops_keeps restartStarts_keeps)

text \<open>A crash.\<close>

lemma handleWorkerReassignment_keeps:
  assumes "handleWorkerReassignment info status so = (handled, so')"
  shows "sup_keeps so so'"
proof (cases "pi_type info = KWorker")
  case True
  obtain outcome so1 where run: "supx.reassign (pi_workerId info) (wIfExited status \<and> wExitStatus status = kReassignCpu)
      (sup_running (fst so)) so = (outcome, so1)" by (meson surj_pair)
  have so1: "so' = so1" using assms True run by (simp add: handleWorkerReassignment_def)
  obtain S os where so: "so = (S, os)" by force
  have "sup_fixed (fst so') = sup_fixed (fst so) \<and>
      (distinct (map fst (sup_workerPid (fst so))) \<longrightarrow> distinct (map fst (sup_workerPid (fst so')))) \<and>
      length (so_exits (snd so')) \<le> length (so_exits (snd so)) \<and> so_env (snd so') = so_env (snd so)"
    using run [unfolded so1 [symmetric] applyWorkerReassignment_def]
    by (auto simp: so supHooks_def putAssignments_def Let_def os_simps sup_keeps_def sup_fixed_def
        dest!: startWorker_keeps split: if_splits option.splits prod.splits)
  with supx.reassign_demotes [OF run] so1 show ?thesis by (simp add: sup_keeps_def)
qed (use assms in \<open>simp add: handleWorkerReassignment_def\<close>)

lemma circuitOpen_keeps: "circuitOpen key info so = Inr (b, so') \<Longrightarrow> sup_keeps so so'"
  by (cases so) (auto simp: circuitOpen_def sup_keeps_def sup_fixed_def Let_def
      dest!: exits_steps(1) split: prod.splits if_splits sum.splits)

lemma restartAfterCrash_keeps:
  assumes "restartAfterCrash info so = Inr so'"
  shows "sup_keeps so so'"
proof (cases "pi_type info")
  case KWorker
  obtain S os where so: "so = (S, os)" by force
  obtain nok os1 where n: "notifyApiServerWorkerCrash (pi_workerId info) os = (nok, os1)" by force
  then have k1: "sup_keeps so (S, os1)" using so by (auto simp: sup_keeps_def os_simps dest!: arg_cong [of _ _ snd])
  obtain b so2 where circuit: "circuitOpen (pi_workerId info) info (S, os1) = Inr (b, so2)"
    using assms KWorker so n by (auto simp: restartAfterCrash_def Let_def split: sum.splits)
  obtain ok S3 os3 where start: "startWorker (pi_workerId info) so2 = (ok, S3, os3)" by (metis prod_cases3)
  note k = k1 circuitOpen_keeps [OF circuit] startWorker_keeps [OF start]
  have "so' = (if b then so2 else if ok then (S3, snd (notifyApiServerWorkerRestarted (pi_workerId info) os3)) else (S3, os3))"
    using assms KWorker so n circuit start by (cases b) (auto simp: restartAfterCrash_def Let_def)
  moreover have "sup_keeps (S3, os3) (S3, snd (notifyApiServerWorkerRestarted (pi_workerId info) os3))"
    by (simp add: sup_keeps_def os_simps)
  ultimately show ?thesis using k by (auto intro: sup_keeps_trans)
next
  case KModelCache
  obtain b so2 where circuit: "circuitOpen kCircuitKeyModelCache info so = Inr (b, so2)"
    using assms KModelCache by (auto simp: restartAfterCrash_def split: sum.splits)
  obtain ok so3 where start: "startModelCache so2 = (ok, so3)" by (meson surj_pair)
  obtain ready so4 where wait: "waitForModelReady so3 = (ready, so4)" by (meson surj_pair)
  note k = circuitOpen_keeps [OF circuit] startModelCache_keeps [OF start] waitForModelReady_keeps [OF wait]
    restartWorkers_keeps [of so4]
  have "so' = (if b then so2 else if \<not> ok then so3
      else if ready then restartWorkersAfterModelCacheRestart so4 else so4)"
    using assms KModelCache circuit start wait by (cases b) (auto simp: restartAfterCrash_def)
  with k show ?thesis by (auto intro: sup_keeps_trans)
next
  case KApiServer
  obtain b so2 where circuit: "circuitOpen kCircuitKeyApiServer info so = Inr (b, so2)"
    using assms KApiServer by (auto simp: restartAfterCrash_def split: sum.splits)
  obtain ok so3 where start: "startApiServer so2 = (ok, so3)" by (meson surj_pair)
  have "so' = (if b then so2 else so3)"
    using assms KApiServer circuit start by (cases b) (auto simp: restartAfterCrash_def)
  with circuitOpen_keeps [OF circuit] startApiServer_keeps [OF start] show ?thesis by (auto intro: sup_keeps_trans)
qed

lemma forget_keeps: "sup_keeps so (forget info pid so)"
  by (cases so) (auto simp: forget_def sup_keeps_def sup_fixed_def Let_def os_simps distinct_delete)

lemma handleCrash_keeps:
  assumes "handleCrash pid status so = Inr so'"
  shows "sup_keeps so so'"
proof (cases "map_of (sup_processes (fst so)) pid")
  case (Some info)
  let ?so1 = "forget info pid so"
  obtain handled S os where h: "handleWorkerReassignment info status ?so1 = (handled, S, os)" by (metis prod_cases3)
  let ?so2 = "(S, writeCrashLog info status (statusToReason status) os)"
  note k = forget_keeps [of so info pid] handleWorkerReassignment_keeps [OF h]
  have k2: "sup_keeps (S, os) ?so2" by (simp add: sup_keeps_def os_simps)
  have "Inr so' = (if wIfExited status \<and> wExitStatus status = 0 then Inr ?so1 else if handled then Inr (S, os)
      else if \<not> sup_running S then Inr ?so2 else restartAfterCrash info ?so2)"
    using assms Some h by (auto simp: handleCrash_def Let_def)
  with k k2 restartAfterCrash_keeps [of info ?so2 so'] show ?thesis
    by (auto split: if_splits intro: sup_keeps_trans)
qed (use assms in \<open>simp add: handleCrash_def\<close>)

end
