(* ===== verification/Supervisor_Reach.thy ===== *)
theory Supervisor_Reach
  imports Supervisor_Runs
begin

text \<open>
  The states the supervisor reaches: those of a successful start, closed under turns of the monitor loop,
  stop requests and whatever the outside does in between. Every one of them satisfies the invariant of
  \<open>Supervisor_Safety\<close> and has kept what \<open>Supervisor_Runs\<close> says is kept; the properties of the supervisor as
  a whole follow.
\<close>

section \<open>A turn of the loop\<close>

text \<open>The environment through the calls that answer from lists.\<close>

lemma env_steps:
  "waitAny os = (pid, st, os') \<Longrightarrow> so_env os' = so_env os"
  "forkChild os = (pid, os') \<Longrightarrow> so_env os' = so_env os"
  by (auto simp: waitAny_def forkChild_def split: list.splits if_splits)

lemma probeLoop_env: "probeLoop deadline es out os = (late, got, os') \<Longrightarrow> so_env os' = so_env os"
proof (induction deadline es out os rule: probeLoop.induct)
  case (1 deadline es out os)
  obtain now os1 where c: "supSteady os = (now, os1)" by force
  show ?case
    using 1(4) 1(1-3) [OF c [symmetric]] quiet_steps(1) [OF c] unfolding probeLoop.simps [of deadline es out os]
    by (auto simp: c split: if_splits list.splits pipe_event.splits)
qed

lemma reapFrom_keeps: "reapFrom n so = Inr so' \<Longrightarrow> sup_keeps so so'"
proof (induction n arbitrary: so)
  case (Suc n)
  obtain S os where so: "so = (S, os)" by force
  obtain pid st os1 where w: "waitAny os = (pid, st, os1)" by (metis prod_cases3)
  then have k: "sup_keeps so (S, os1)"
    using so waitAny_exits [OF w] env_steps(1) [OF w] by (intro sup_keeps_same [of S S os1 os, folded so]) auto
  show ?case
  proof (cases "pid \<le> 0")
    case True
    with Suc.prems so w k show ?thesis by (simp add: Let_def)
  next
    case False
    then obtain so1 where "handleCrash pid st (S, os1) = Inr so1" and "reapFrom n so1 = Inr so'"
      using Suc.prems so w by (auto simp: Let_def split: sum.splits)
    with k handleCrash_keeps Suc.IH show ?thesis by (blast intro: sup_keeps_trans)
  qed
qed simp

lemma heartbeatLine_keeps: "sup_keeps so (heartbeatLine line so)"
  by (cases so) (auto simp: heartbeatLine_def recordHeartbeat_def sup_keeps_def sup_fixed_def Let_def split: option.split)

lemma drainFrom_keeps: "sup_keeps so (drainFrom es so)"
proof (induction es so rule: drainFrom.induct)
  case (4 rs es so)
  show ?case using sup_keeps_trans [OF fold_sup_keeps [OF heartbeatLine_keeps] 4] by simp
qed (simp_all add: sup_keeps_def)

lemma checkWorker_keeps: "sup_keeps so (checkWorker now e so)"
  by (cases so; cases e) (auto simp: checkWorker_def sup_keeps_def sup_fixed_def os_simps Let_def split: option.split)

lemma checkWorkerLiveness_keeps: "sup_keeps so (checkWorkerLiveness so)"
  unfolding checkWorkerLiveness_def by (rule fold_sup_keeps [OF checkWorker_keeps])

lemma monitorOnce_keeps:
  assumes "monitorOnce so = Inr so'"
  shows "sup_keeps so so'"
proof -
  obtain so1 where reap: "reapChildren so = Inr so1" using assms by (auto simp: monitorOnce_def split: sum.splits)
  obtain S os where c: "checkWorkerLiveness (drainSupervisorSocket so1) = (S, os)" by force
  have "sup_keeps so so1" using reapFrom_keeps [OF reap [unfolded reapChildren_def]] .
  moreover have "sup_keeps so1 (drainSupervisorSocket so1)"
    by (simp add: drainSupervisorSocket_def drainFrom_keeps)
  moreover have "sup_keeps (drainSupervisorSocket so1) (S, os)" using checkWorkerLiveness_keeps c by metis
  moreover have "sup_keeps (S, os) so'"
    using assms reap c by (auto simp: monitorOnce_def os_simps intro!: sup_keeps_same)
  ultimately show ?thesis by (blast intro: sup_keeps_trans)
qed

section \<open>Start-up\<close>

lemma setupSupervisorSocket_view:
  assumes "setupSupervisorSocket so = (ok, so')"
  shows "sup_view so' = sup_view so \<and> sup_keeps so so'"
  using assms by (cases so) (auto simp: setupSupervisorSocket_def sup_view_def sup_keeps_def sup_fixed_def
      os_simps Let_def split: prod.splits if_splits)

lemma startModelCache_others:
  assumes "startModelCache so = (ok, so')" and "T \<noteq> KModelCache"
  shows "v_workers (sup_view so') = v_workers (sup_view so) \<and>
    (none_of T (sup_view so) \<longrightarrow> none_of T (sup_view so'))"
  using assms by (cases so, auto simp: startModelCache_def adopt_def sup_view_def none_of_def update_conv' Let_def
      split: prod.splits if_splits) metis+

lemma startApiServer_others:
  assumes "startApiServer so = (ok, so')"
  shows "v_workers (sup_view so') = v_workers (sup_view so)"
  using assms by (cases so) (auto simp: startApiServer_def adopt_def sup_view_def Let_def
      split: prod.splits if_splits)

definition discovered :: "Supervisor \<Rightarrow> bool" where
  "discovered S \<longleftrightarrow> maxWorkers (cfg_capacity (sup_config S)) = cfg_workerCount (sup_config S) \<and>
     sup_plan S = planCapacity (sup_hardware S) (cfg_capacity (sup_config S)) \<and>
     sup_effective S = placeableWorkerCount (sup_plan S) (cfg_workerCount (sup_config S))"

lemma discovered_fixed: "sup_fixed S' = sup_fixed S \<Longrightarrow> discovered S \<Longrightarrow> discovered S'"
  by (simp add: sup_fixed_def discovered_def)

lemma discoverHardware_discovered:
  "sup_workerPid (fst so) = [] \<Longrightarrow>
   discovered (fst (discoverHardware so)) \<and> sup_workerPid (fst (discoverHardware so)) = []"
  by (auto simp: discoverHardware_def discovered_def Let_def split: prod.splits)

lemma discoverHardware_config:
  "sup_config (fst (discoverHardware (newSupervisor config, os))) =
     config\<lparr>cfg_capacity := (cfg_capacity config)\<lparr>maxWorkers := cfg_workerCount config\<rparr>\<rparr> \<and>
   so_env (snd (discoverHardware (newSupervisor config, os))) = so_env os"
proof -
  have "so_env (snd (runHardwareProbeChild S os)) = so_env os" for S
  proof -
    obtain pid os1 where f: "forkChild os = (pid, os1)" by force
    let ?os1 = "record_event (EvFork pid [cfg_workerBinary (sup_config S), ''--probe-hardware''] []) os1"
    obtain now os2 where c: "supSteady ?os1 = (now, os2)" by force
    obtain late got os3 where p: "probeLoop (now + max 0 (cfg_hardwareProbeTimeoutMs (sup_config S)) * 1000000)
        (so_pipe os2) [] os2 = (late, got, os3)" by (metis prod_cases3)
    have "so_env os1 = so_env os" "so_env os2 = so_env os1" "so_env os3 = so_env os2"
      using env_steps(2) [OF f] quiet_steps(1) [OF c] probeLoop_env [OF p] by (simp_all add: os_simps)
    then show ?thesis using f c p by (simp add: runHardwareProbeChild_def Let_def os_simps split: option.split)
  qed
  then show ?thesis by (simp add: discoverHardware_def newSupervisor_def Let_def split: prod.split) (metis snd_conv)
qed

lemma supStart_ok:
  assumes "supStart (newSupervisor config, os) = (True, so)"
  shows "view_ok (sup_view so)" and "discovered (fst so)" and "distinct (map fst (sup_workerPid (fst so)))"
    and "sup_config (fst so) = config\<lparr>cfg_capacity := (cfg_capacity config)\<lparr>maxWorkers := cfg_workerCount config\<rparr>\<rparr>"
    and "so_env (snd so) = so_env os"
proof -
  define so1 where "so1 = discoverHardware (newSupervisor config, os)"
  have new: "sup_processes (newSupervisor config) = []" "sup_workerPid (newSupervisor config) = []"
    by (simp_all add: newSupervisor_def)
  have 1: "view_ok (sup_view so1)" "\<And>T. none_of T (sup_view so1)" "v_workers (sup_view so1) = Map.empty"
    unfolding so1_def by (rule discoverHardware_ok [OF new])+
  have d: "discovered (fst so1)" "sup_workerPid (fst so1) = []"
    using discoverHardware_discovered [of "(newSupervisor config, os)"] new by (simp_all add: so1_def)
  obtain ok2 S2 os2 where sock: "setupSupervisorSocket so1 = (ok2, S2, os2)" by (metis prod_cases3)
  obtain ok3 S3 os3 where cache: "startModelCache (S2\<lparr>sup_running := True\<rparr>, os2) = (ok3, S3, os3)" by (metis prod_cases3)
  obtain ok4 S4 os4 where wait: "waitForModelReady (S3, writeModelConfig S3 os3) = (ok4, S4, os4)" by (metis prod_cases3)
  obtain ok5 S5 os5 where api: "startApiServer (S4, os4) = (ok5, S5, os5)" by (metis prod_cases3)
  obtain ok6 so6 where workers: "startWorkers (S5, os5) = (ok6, so6)" by (meson surj_pair)
  have all: "ok2" "ok3" "ok4" "ok5" "ok6" "so = so6"
    using assms sock cache wait api workers
    by (auto simp: supStart_def so1_def [symmetric] Let_def split: if_splits)
  have v2: "sup_view (S2\<lparr>sup_running := True\<rparr>, os2) = sup_view so1"
    using setupSupervisorSocket_view [OF sock] by (simp add: sup_view_def)
  have v3: "sup_view (S3, writeModelConfig S3 os3) = sup_view (S3, os3)"
    by (simp add: sup_view_def writeModelConfig_def os_simps)
  have v4: "sup_view (S4, os4) = sup_view (S3, os3)" using waitForModelReady_view [OF wait] v3 by simp
  note others = startModelCache_others [OF cache, of KApiServer, unfolded v2]
  have "view_ok (sup_view (S3, os3))" using startModelCache_ok [OF cache] 1 v2 by simp
  then have ok5: "view_ok (sup_view (S5, os5))"
    using startApiServer_ok [OF api] others 1(2) v4 by simp
  have "v_workers (sup_view (S5, os5)) = Map.empty"
    using startApiServer_others [OF api] v4 others 1(3) by simp
  then show "view_ok (sup_view so)"
    using startWorkersFrom_ok [OF workers [unfolded startWorkers_def] ok5] all by simp
  have k2: "sup_keeps so1 (S2\<lparr>sup_running := True\<rparr>, os2)"
    using setupSupervisorSocket_view [OF sock] by (simp add: sup_keeps_def sup_fixed_def)
  have k3: "sup_keeps (S3, os3) (S3, writeModelConfig S3 os3)"
    by (simp add: sup_keeps_def writeModelConfig_def os_simps)
  note startWorkersFrom_keeps [OF workers [unfolded startWorkers_def]]
  with k2 startModelCache_keeps [OF cache] k3 waitForModelReady_keeps [OF wait] startApiServer_keeps [OF api]
  have "sup_keeps so1 so6" by (blast intro: sup_keeps_trans)
  with all d show "discovered (fst so)" "distinct (map fst (sup_workerPid (fst so)))"
    by (auto simp: sup_keeps_def intro: discovered_fixed)
  have "sup_config (fst so1) = config\<lparr>cfg_capacity := (cfg_capacity config)\<lparr>maxWorkers := cfg_workerCount config\<rparr>\<rparr>"
    "so_env (snd so1) = so_env os"
    using discoverHardware_config unfolding so1_def by blast+
  with \<open>sup_keeps so1 so6\<close> all
  show "sup_config (fst so) = config\<lparr>cfg_capacity := (cfg_capacity config)\<lparr>maxWorkers := cfg_workerCount config\<rparr>\<rparr>"
    "so_env (snd so) = so_env os" by (simp_all add: sup_keeps_def sup_fixed_def)
qed

section \<open>Reachable states\<close>

inductive sup_step :: "sup_state \<Rightarrow> sup_state \<Rightarrow> bool" where
  monitor: "sup_running (fst so) \<Longrightarrow> monitorOnce so = Inr so' \<Longrightarrow> sup_step so so'"
| stop: "sup_step so (requestStop so)"
| outside: "so_children os' = so_children os \<Longrightarrow> so_trace os' = so_trace os \<Longrightarrow> so_env os' = so_env os \<Longrightarrow>
    sup_step (S, os) (S, os')"

inductive sup_reach :: "SupervisorConfig \<Rightarrow> sup_os \<Rightarrow> sup_state \<Rightarrow> bool" for config os where
  started: "supStart (newSupervisor config, os) = (True, so) \<Longrightarrow> sup_reach config os so"
| step: "sup_reach config os so \<Longrightarrow> sup_step so so' \<Longrightarrow> sup_reach config os so'"

lemma sup_step_keeps:
  assumes "sup_step so so'"
  shows "sup_fixed (fst so') = sup_fixed (fst so) \<and>
    demoted_all (sup_assignments (fst so)) (sup_assignments (fst so')) \<and>
    (distinct (map fst (sup_workerPid (fst so))) \<longrightarrow> distinct (map fst (sup_workerPid (fst so')))) \<and>
    (view_ok (sup_view so) \<longrightarrow> view_ok (sup_view so')) \<and> so_env (snd so') = so_env (snd so)"
  using assms
proof cases
  case monitor
  with monitorOnce_keeps monitorOnce_ok show ?thesis by (simp add: sup_keeps_def)
qed (auto simp: requestStop_def sup_fixed_def sup_view_def split: prod.splits)

lemma reach_invariant:
  assumes "sup_reach config os so"
  shows "view_ok (sup_view so) \<and> discovered (fst so) \<and> distinct (map fst (sup_workerPid (fst so)))"
  using assms
proof induction
  case (started so)
  then show ?case using supStart_ok by blast
next
  case (step so so')
  then show ?case using sup_step_keeps [OF step(2)] discovered_fixed by blast
qed

lemma reach_config:
  assumes "sup_reach config os so"
  shows "sup_config (fst so) = config\<lparr>cfg_capacity := (cfg_capacity config)\<lparr>maxWorkers := cfg_workerCount config\<rparr>\<rparr> \<and>
    so_env (snd so) = so_env os"
  using assms
proof induction
  case (started so)
  then show ?case using supStart_ok(4,5) by blast
next
  case (step so so')
  then show ?case using sup_step_keeps [OF step(2)] by (simp add: sup_fixed_def)
qed

end
