(* ===== verification/Supervisor_Demo.thy ===== *)
theory Supervisor_Demo
  imports Supervisor_Reach
begin

text \<open>
  A concrete run, on which the facts about reachable states are applied: a machine whose probe reports one
  GPU with room for one worker, an environment with the names every process needs, and two workers
  configured.
\<close>

definition demoConfig :: SupervisorConfig where
  "demoConfig = defaultSupervisorConfig\<lparr>cfg_modelPath := ''/m.gguf'', cfg_shmName := ''/edge'',
     cfg_supervisorSocketPath := ''/s.sock'', cfg_apiNotifySocketPath := ''/a.sock''\<rparr>"

definition demoReport :: HardwareReport where
  "demoReport = emptyReport\<lparr>rep_probeOk := True,
     rep_gpus := [\<lparr>gpu_name = ''CUDA0'', gpu_description = ''g'', gpu_freeBytes = 3 * 1073741824,
                    gpu_totalBytes = 4 * 1073741824\<rparr>]\<rparr>"

definition demoSupEnv :: environ where
  "demoSupEnv = [''EDGE_MODEL_PATH'' \<mapsto> ''/m.gguf'', ''EDGE_SHM_NAME'' \<mapsto> ''/edge'',
     ''EDGE_SUPERVISOR_SOCK'' \<mapsto> ''/s.sock'', ''EDGE_API_NOTIFY_SOCK'' \<mapsto> ''/a.sock'',
     ''EDGE_WORKER_SOCKET_PREFIX'' \<mapsto> ''/w'', ''EDGE_CRASH_LOG'' \<mapsto> ''/c'', ''EDGE_MODEL_CONFIG_PATH'' \<mapsto> ''/j'']"

lemma demo_state_dir [simp]: "demoSupEnv ''EDGE_STATE_DIR'' = None"
  by (simp add: demoSupEnv_def)

definition demoSupOs :: sup_os where
  "demoSupOs = \<lparr>so_env = demoSupEnv, so_now = 0, so_ticks = [], so_epochMs = 5000000,
     so_nonces = [(Some 7, 0)], so_pids = [10, 11, 12, 13, 14, 15], so_children = [],
     so_exits = [], so_notify = [], so_polls = [(False, Some (publishedBytes 7 3 0 0))], so_accepts = [],
     so_sockets = (True, True, True), so_pipeOk = True,
     so_pipe = [PipeData (hardwareReportToJson demoReport), PipeEnd], so_probeStatus = 0, so_strerror = [],
     so_files = Map.empty, so_unwritable = (\<lambda>p. True), so_trace = []\<rparr>"

definition demoLimits :: CapacityLimits where
  "demoLimits = defaultLimits\<lparr>maxWorkers := 2\<rparr>"

definition demoPlan :: CapacityPlan where
  "demoPlan = planCapacity demoReport demoLimits"

lemma demo_config:
  "cfg_workerCount demoConfig = 2" "cfg_capacity demoConfig = defaultLimits"
  "cfg_modelReadyTimeoutSeconds demoConfig = 30" "cfg_hardwareProbeTimeoutMs demoConfig = 10000"
  "cfg_supervisorSocketPath demoConfig = ''/s.sock''" "cfg_workerBinary demoConfig = ''edge-inference-worker''"
  "cfg_liveness demoConfig = defaultLiveness"
  by (simp_all add: demoConfig_def defaultSupervisorConfig_def)

lemma demo_parse: "parseHardwareReport (hardwareReportToJson demoReport) = Some demoReport"
proof -
  have "escapedReport demoReport = demoReport"
    by (simp add: escapedReport_id_iff demoReport_def needs_no_escape_def emptyReport_def)
  then show ?thesis using parse_toJson [of demoReport] by simp
qed

lemma demo_json: "hardwareReportToJson demoReport \<noteq> []"
  by (simp add: hardwareReportToJson_def)

definition demoAfterProbe :: sup_os where
  "demoAfterProbe = demoSupOs\<lparr>so_pids := [11, 12, 13, 14, 15],
     so_trace := [EvWait 10, EvFork 10 [''edge-inference-worker'', ''--probe-hardware''] []]\<rparr>"

lemma demo_ram: "demoReport\<lparr>rep_ram := emptyMemory\<rparr> = demoReport"
  by (simp add: demoReport_def emptyReport_def)

lemma demo_probe: "runHardwareProbeChild (newSupervisor demoConfig) demoSupOs = (demoReport, demoAfterProbe)"
proof -
  have st: "wIfExited 0" "wExitStatus 0 = 0" by (simp_all add: wIfExited_def wExitStatus_def wTermSig_def)
  have cfg: "sup_config (newSupervisor demoConfig) = demoConfig" by (simp add: newSupervisor_def)
  have "readHostMemory None = emptyMemory" "rep_ram (emptyReport\<lparr>rep_ram := emptyMemory\<rparr>) = emptyMemory"
    by (simp_all add: readHostMemory_def)
  with st show ?thesis
    by (simp add: runHardwareProbeChild_def cfg demo_config demoSupOs_def forkChild_def record_event_def
        supSteady_def probeLoop.simps Let_def demo_parse demo_json demoAfterProbe_def demo_ram
        waitPid_def)
qed

lemma demo_gpu: "gpuWorkerCapacity (planGpu demoReport demoLimits 2) = 1"
  "gpuIndex (planGpu demoReport demoLimits 2) = 0" "usableGpuMb (planGpu demoReport demoLimits 2) = 2560"
  by (simp_all add: planGpu_def demoReport_def demoLimits_def defaultLimits_def emptyReport_def bytesToMb_def
      reserveOrZero_def budgetUsable_def clampToRange_def deviceOrdinalFromName_def is_digit_def digit_val_def emptyPlan_def)

lemma demo_plan: "gpuWorkerCapacity demoPlan = 1" "cpuWorkerCapacity demoPlan = 0" "gpuIndex demoPlan = 0"
  "placeableWorkerCount demoPlan 2 = 1"
proof -
  have eq: "demoPlan = planCpu demoReport demoLimits 2 (planGpu demoReport demoLimits 2)"
    by (simp add: demoPlan_def planCapacity_eq demoLimits_def)
  show "gpuWorkerCapacity demoPlan = 1" "gpuIndex demoPlan = 0" by (simp_all add: eq demo_gpu)
  moreover have "mem_availableBytes (rep_ram demoReport) = 0" by (simp add: demoReport_def emptyReport_def emptyMemory_def)
  then show "cpuWorkerCapacity demoPlan = 0"
    unfolding eq by (simp add: planCpu_def Let_def planGpu_bounds)
  ultimately show "placeableWorkerCount demoPlan 2 = 1"
    by (simp add: placeableWorkerCount_def)
qed

definition demoAssignment :: WorkerAssignment where
  "demoAssignment = assignWorker demoPlan 0"

definition demoDiscovered :: Supervisor where
  "demoDiscovered = (newSupervisor demoConfig)\<lparr>sup_hardware := demoReport,
     sup_config := demoConfig\<lparr>cfg_capacity := demoLimits\<rparr>, sup_plan := demoPlan, sup_effective := 1,
     sup_assignments := [demoAssignment]\<rparr>"

lemma demo_discover: "discoverHardware (newSupervisor demoConfig, demoSupOs) = (demoDiscovered, demoAfterProbe)"
proof -
  have "sup_config (newSupervisor demoConfig) = demoConfig" by (simp add: newSupervisor_def)
  moreover have "assignWorkers demoPlan 1 = [demoAssignment]" by (simp add: assignWorkers_def demoAssignment_def)
  ultimately show ?thesis
    by (simp add: discoverHardware_def demo_probe demo_config demo_plan demoDiscovered_def demoLimits_def [symmetric]
        demoPlan_def [symmetric] Let_def)
qed

lemma demo_poll: "pollHeader (Some (publishedBytes 7 3 0 0)) 7 = KReady"
  by code_simp

lemma demo_env: "workerBackendEnv demoAssignment = [(''EDGE_WORKER_BACKEND'', ''cuda''), (''CUDA_VISIBLE_DEVICES'', ''0'')]"
proof -
  have "int_str 0 = ''0''" by code_simp
  then show ?thesis by (simp add: workerBackendEnv_def demoAssignment_def assignWorker_def demo_plan)
qed

definition demoState :: sup_state where
  "demoState = snd (supStart (newSupervisor demoConfig, demoSupOs))"

lemmas demo_run_defs = setupSupervisorSocket_def startModelCache_def nextNonce_def forkExec_def forkChild_def
  record_event_def adopt_def writePidFile_def pidFilePath_def stateDir_def envValue_def pidFileNameFor_def
  waitForModelReady_def waitReadyLoop.simps nextPoll_def supSteady_def startApiServer_def startWorkers_def
  startWorker_def assignmentFor_def unlinkFile_def modelCacheArgs_def apiServerArgs_def workerArgs_def
  writeModelConfig_def truncateFile_def demoAfterProbe_def demoSupOs_def demoDiscovered_def newSupervisor_def
  generateRunNonce_def Let_def

lemma demo_start:
  "fst (supStart (newSupervisor demoConfig, demoSupOs)) \<and> sup_workerPid (fst demoState) = [(0, 13)] \<and>
   so_children (snd demoState) = [13, 12, 11] \<and>
   forkedEnv (so_trace (snd demoState)) 13 = Some (workerBackendEnv demoAssignment) \<and>
   map fst (sup_processes (fst demoState)) = [11, 12, 13] \<and>
   sup_assignments (fst demoState) = [demoAssignment] \<and>
   sup_workerHealth (fst demoState) = [(0, \<lparr>hl_spawnedAtMs = 5000000, hl_lastHeartbeatMs = 0, hl_busyMs = 0\<rparr>)] \<and>
   cfg_liveness (sup_config (fst demoState)) = defaultLiveness"
proof -
  have "asg_workerId demoAssignment = 0" by (simp add: demoAssignment_def assignWorker_def)
  then show ?thesis
    unfolding demoState_def supStart_def demo_discover
    by (simp add: demo_run_defs demo_config demo_poll nowEpochMs_def forkedEnv_def)
qed

lemma demo_listening: "sup_serverFd (fst demoState) \<and> so_epochMs (snd demoState) = 5000000"
  unfolding demoState_def supStart_def demo_discover
  by (simp add: demo_run_defs demo_config demo_poll nowEpochMs_def)

lemma demo_assigned:
  "assignmentFor 0 (sup_assignments (fst demoState)) = Some demoAssignment" "asg_backend demoAssignment = KCuda"
  using demo_start by (simp_all add: assignmentFor_def demoAssignment_def assignWorker_def demo_plan)

text \<open>The last state of the model cache's run in \<open>Model_Cache\<close>, as a reader polls it.\<close>

lemma demo_published:
  assumes "mcInitialize demoCacheOs demoCache [Map.empty] = Some (True, mc', hist)"
  shows "hist \<noteq> []" and "pollHeader (hd hist (shmMetaName ''/edge'')) 7 = KReady"
proof -
  obtain n where "hist \<noteq> []" "publishedState demoCacheOs (mc_shmName demoCache) 7 n (hd hist)"
    using initialize_spec [OF demo_stale assms] by (auto simp: demoCache_def)
  then show "hist \<noteq> []" "pollHeader (hd hist (shmMetaName ''/edge'')) 7 = KReady"
    using observe_published [of "hd hist" "''/edge''" 7]
    by (auto simp: publishedState_def demoCache_def observeHeader_def pollHeader_def)
qed

end
