(* ===== verification/Supervisor_Properties.thy ===== *)
theory Supervisor_Properties
  imports Supervisor_Demo
begin

text \<open>
  The properties of the supervisor as a whole: what holds in every reachable state, what a crash, a
  silent worker, a reassignment and a shutdown do, and how its calls fit the processes it starts.
\<close>

section \<open>Reachable states\<close>

lemma demo_reach: "sup_reach demoConfig demoSupOs demoState"
proof -
  have "supStart (newSupervisor demoConfig, demoSupOs) = (True, demoState)"
    using demo_start by (cases "supStart (newSupervisor demoConfig, demoSupOs)") (simp add: demoState_def)
  then show ?thesis by (rule sup_reach.started)
qed

text \<open>C10: every running worker is in its slot. In every reachable state, an entry of the worker table names
  an unreaped child that the process table knows under the same worker id, whose id lies in the planned
  range, and the last fork of that pid was given exactly the arguments of that worker id and the
  environment of the worker's present assignment, so no worker runs on a device the plan has since taken
  from it.\<close>

theorem running_workers_match_plan:
  assumes "sup_reach config os so" and "map_of (sup_workerPid (fst so)) w = Some p"
  shows "0 \<le> w \<and> w < sup_effective (fst so) \<and> p \<in> set (so_children (snd so)) \<and>
    (\<exists>info. map_of (sup_processes (fst so)) p = Some info \<and> pi_type info = KWorker \<and> pi_workerId info = w) \<and>
    (\<exists>a. assignmentFor w (sup_assignments (fst so)) = Some a \<and>
       lastFork (so_trace (snd so)) p =
         Some (workerArgs (sup_config (fst so)) (so_env (snd so)) w, workerBackendEnv a))"
proof -
  have ok: "view_ok (sup_view so)" using reach_invariant [OF assms(1)] by simp
  have "v_workers (sup_view so) w = Some p" using assms(2) by (simp add: sup_view_def)
  with ok worker_entry [OF ok this] show ?thesis
    by (auto simp: view_ok_def workers_ok_def sup_view_def)
qed

theorem running_workers_match_plan_witness:
  "\<exists>a. assignmentFor 0 (sup_assignments (fst demoState)) = Some a \<and>
     lastFork (so_trace (snd demoState)) 13 =
       Some (workerArgs (sup_config (fst demoState)) (so_env (snd demoState)) 0, workerBackendEnv a)"
  using running_workers_match_plan [OF demo_reach, of 0 13] demo_start by simp

text \<open>C11: no process is ever started twice. In every reachable state two entries of the process table with
  the same role, and for workers the same id, are the same process.\<close>

theorem one_process_per_role:
  assumes "sup_reach config os so"
    and "map_of (sup_processes (fst so)) p = Some i" and "map_of (sup_processes (fst so)) q = Some j"
    and "pi_type i = pi_type j" and "pi_type i = KWorker \<Longrightarrow> pi_workerId i = pi_workerId j"
  shows "p = q"
proof -
  have ok: "view_ok (sup_view so)" using reach_invariant [OF assms(1)] by simp
  have v: "v_procs (sup_view so) p = Some i" "v_procs (sup_view so) q = Some j"
    using assms(2,3) by (simp_all add: sup_view_def)
  show ?thesis
  proof (cases "pi_type i = KWorker")
    case True
    with proc_entry [OF ok v(1)] proc_entry [OF ok v(2)] assms(4,5) show ?thesis by simp
  next
    case False
    with ok v assms(4) show ?thesis unfolding view_ok_def single_ok_def by blast
  qed
qed

lemma demo_process: "map_of (sup_processes (fst demoState)) 11 \<noteq> None"
  using demo_start by (metis list.set_intros(1) list.set_map map_of_eq_None_iff)

theorem one_process_per_role_witness:
  "\<exists>i. map_of (sup_processes (fst demoState)) 11 = Some i \<and>
     (map_of (sup_processes (fst demoState)) 12 = Some i \<longrightarrow> (11::int) = 12)"
  using demo_process one_process_per_role [OF demo_reach, of 11 _ 12] by force

text \<open>The entries of the worker table whose process was forked with a GPU in sight.\<close>

definition gpuWorkersRunning :: "sup_state \<Rightarrow> (int \<times> int) list" where
  "gpuWorkersRunning so = filter (\<lambda>(w, p). case forkedEnv (so_trace (snd so)) p of
       None \<Rightarrow> False
     | Some env \<Rightarrow> map_of env ''CUDA_VISIBLE_DEVICES'' \<noteq> Some ''-1'') (sup_workerPid (fst so))"

lemma gpu_running_assigned:
  assumes "view_ok (sup_view so)" and "distinct (map fst (sup_workerPid (fst so)))"
    and "(w, p) \<in> set (gpuWorkersRunning so)"
  shows "w \<in> asg_workerId ` set (filter (\<lambda>a. asg_backend a = KCuda) (sup_assignments (fst so)))"
proof -
  have "map_of (sup_workerPid (fst so)) w = Some p"
    using assms(2,3) by (auto simp: gpuWorkersRunning_def)
  then have "v_workers (sup_view so) w = Some p" by (simp add: sup_view_def)
  then obtain a where a: "assignmentFor w (sup_assignments (fst so)) = Some a"
    "forkedEnv (so_trace (snd so)) p = Some (workerBackendEnv a)"
    using assms(1) unfolding view_ok_def workers_ok_def by (fastforce simp: sup_view_def forkedEnv_def)
  then have "a \<in> set (sup_assignments (fst so))" "asg_workerId a = w"
    by (auto simp: assignmentFor_def find_Some_iff)
  moreover have "asg_backend a = KCuda"
    using assms(3) a(2) by (auto simp: gpuWorkersRunning_def workerBackendEnv_def split: if_splits)
      (metis WorkerBackend.exhaust)
  ultimately show ?thesis by auto
qed

text \<open>C18: the GPU is never oversubscribed, however workers crash, are restarted or reassigned. In every
  reachable state the workers running with a GPU in sight number at most the capacity of the plan made
  from the discovered hardware, and together their budgets fit the usable VRAM.\<close>

theorem gpu_never_oversubscribed:
  assumes "sup_reach config os so"
  shows "let plan = planCapacity (sup_hardware (fst so)) (cfg_capacity (sup_config (fst so)));
             n = int (length (gpuWorkersRunning so)) in
    sup_plan (fst so) = plan \<and> n \<le> gpuWorkerCapacity plan \<and>
    n * workerGpuMb (cfg_capacity (sup_config (fst so))) \<le> usableGpuMb plan"
proof -
  let ?S = "fst so" and ?limits = "cfg_capacity (sup_config (fst so))"
  let ?gpu = "filter (\<lambda>a. asg_backend a = KCuda)"
  have inv: "view_ok (sup_view so)" "discovered ?S" "distinct (map fst (sup_workerPid ?S))"
    using reach_invariant [OF assms] by simp_all
  have plan: "sup_plan ?S = planCapacity (sup_hardware ?S) ?limits" using inv(2) by (simp add: discovered_def)
  have "distinct (map fst (gpuWorkersRunning so))"
    using inv(3) by (simp add: gpuWorkersRunning_def distinct_map_filter)
  then have "length (gpuWorkersRunning so) = card (fst ` set (gpuWorkersRunning so))"
    by (metis distinct_card length_map list.set_map)
  also have "\<dots> \<le> card (asg_workerId ` set (?gpu (sup_assignments ?S)))"
    by (rule card_mono) (use gpu_running_assigned [OF inv(1,3)] in auto)
  also have "\<dots> \<le> length (?gpu (sup_assignments ?S))"
    by (metis card_length length_map list.set_map)
  also have "\<dots> \<le> length (?gpu (assignWorkers (sup_plan ?S) (sup_effective ?S)))"
    using inv(1) by (intro demoted_gpu_count) (simp add: view_ok_def asg_ok_def sup_view_def)
  finally have "int (length (gpuWorkersRunning so)) \<le> backendCount KCuda (assignWorkers (sup_plan ?S) (sup_effective ?S))"
    by (simp add: backendCount_def)
  then have n: "int (length (gpuWorkersRunning so)) \<le> gpuWorkerCapacity (sup_plan ?S)"
    using planCapacity_bounds(1) [of "sup_hardware ?S" ?limits] plan by (simp add: backendCount_cuda)
  have "int (length (gpuWorkersRunning so)) * workerGpuMb ?limits \<le> usableGpuMb (sup_plan ?S)"
  proof (cases "0 < workerGpuMb ?limits")
    case True
    then have "int (length (gpuWorkersRunning so)) * workerGpuMb ?limits \<le> gpuWorkerCapacity (sup_plan ?S) * workerGpuMb ?limits"
      using n by (simp add: mult_right_mono)
    then show ?thesis using planCapacity_bounds(4) [of "sup_hardware ?S" ?limits] plan by simp
  next
    case False
    then have "gpuWorkerCapacity (sup_plan ?S) = 0" using planCapacity_unusable(1) plan by simp
    then show ?thesis using n planCapacity_bounds(4) [of "sup_hardware ?S" ?limits] plan by simp
  qed
  with n plan show ?thesis by (simp add: Let_def)
qed

theorem gpu_never_oversubscribed_witness:
  "length (gpuWorkersRunning demoState) = 1 \<and>
   int (length (gpuWorkersRunning demoState)) \<le> gpuWorkerCapacity (sup_plan (fst demoState))"
proof -
  have "gpuWorkersRunning demoState = [(0, 13)]"
    using demo_start by (simp add: gpuWorkersRunning_def demo_env)
  then show ?thesis using gpu_never_oversubscribed [OF demo_reach] by (simp add: Let_def)
qed

section \<open>Reassignment\<close>

lemma assignmentFor_demoted:
  "demoted_all as bs \<Longrightarrow> assignmentFor w as = Some a \<Longrightarrow>
   \<exists>b. assignmentFor w bs = Some b \<and> demoted_to a b"
  unfolding demoted_all_def assignmentFor_def
  by (induction rule: list_all2_induct) (auto simp: demoted_to_def split: if_splits)

lemma steps_demote:
  "sup_step\<^sup>*\<^sup>* so so' \<Longrightarrow> demoted_all (sup_assignments (fst so)) (sup_assignments (fst so'))"
  by (induction rule: rtranclp_induct) (use sup_step_keeps demoted_all_trans in \<open>auto\<close>)

text \<open>Demotion is for good. A worker that has been moved to the CPU stays on the CPU through any number
  of crashes, restarts and further reassignments, and keeps its id and the index of its device.\<close>

theorem demotion_is_permanent:
  assumes "sup_step\<^sup>*\<^sup>* so so'" and "assignmentFor w (sup_assignments (fst so)) = Some a" and "asg_backend a = KCpu"
  shows "\<exists>b. assignmentFor w (sup_assignments (fst so')) = Some b \<and> asg_backend b = KCpu \<and>
    asg_workerId b = asg_workerId a \<and> asg_gpuIndex b = asg_gpuIndex a"
  using assignmentFor_demoted [OF steps_demote [OF assms(1)] assms(2)] assms(3)
  by (auto simp: demoted_to_def)

definition demoDemoted :: sup_state where
  "demoDemoted = putAssignments [demoteToCpu demoAssignment ''x''] demoState"

theorem demotion_is_permanent_witness:
  "\<exists>b. assignmentFor 0 (sup_assignments (fst (requestStop demoDemoted))) = Some b \<and> asg_backend b = KCpu"
proof -
  have "assignmentFor 0 (sup_assignments (fst demoDemoted)) = Some (demoteToCpu demoAssignment ''x'')"
    by (simp add: demoDemoted_def putAssignments_def assignmentFor_def demoteToCpu_def demoAssignment_def
        assignWorker_def split: prod.splits)
  moreover have "sup_step\<^sup>*\<^sup>* demoDemoted (requestStop demoDemoted)" using sup_step.stop by blast
  ultimately show ?thesis
    using demotion_is_permanent [of demoDemoted "requestStop demoDemoted" 0 "demoteToCpu demoAssignment ''x''"]
    by (auto simp: demoteToCpu_def)
qed

lemma assignmentFor_update:
  "findAssignment w as = Some i \<Longrightarrow> asg_workerId b = w \<Longrightarrow> assignmentFor w (as[i := b]) = Some b"
  unfolding assignmentFor_def by (induction as arbitrary: i) (auto split: if_splits)

lemma assignmentFor_find:
  "assignmentFor w as = Some a \<Longrightarrow> \<exists>i. findAssignment w as = Some i \<and> as ! i = a"
  unfolding assignmentFor_def by (induction as) (auto split: if_splits)

text \<open>What a worker that asks for the CPU gets. When a running supervisor reaps a worker on the GPU that
  exited with the reassignment code, its assignment is the CPU one from then on, and if the supervisor
  reports the exit handled, the worker runs again with every GPU hidden from it. Nothing happens to any
  other exit.\<close>

theorem reassigned_worker_sees_no_gpu:
  assumes "handleWorkerReassignment info status so = (handled, so')" and "pi_type info = KWorker"
    and "0 \<le> pi_workerId info" and "sup_running (fst so)"
    and "assignmentFor (pi_workerId info) (sup_assignments (fst so)) = Some a" and "asg_backend a = KCuda"
  shows "if wIfExited status \<and> wExitStatus status = kReassignCpu
    then (\<exists>reason. assignmentFor (pi_workerId info) (sup_assignments (fst so')) = Some (demoteToCpu a reason)) \<and>
      (handled \<longrightarrow> (\<exists>p env. map_of (sup_workerPid (fst so')) (pi_workerId info) = Some p \<and>
        forkedEnv (so_trace (snd so')) p = Some env \<and> map_of env ''CUDA_VISIBLE_DEVICES'' = Some ''-1''))
    else \<not> handled \<and> so' = so"
proof -
  let ?w = "pi_workerId info" and ?as = "sup_assignments (fst so)"
  let ?exit = "wIfExited status \<and> wExitStatus status = kReassignCpu"
  obtain outcome so1 where run: "supx.reassign ?w ?exit (sup_running (fst so)) so = (outcome, so1)" by (meson surj_pair)
  have so1: "so' = so1" "handled = (outcome = KRestarted)"
    using assms(1,2) run by (simp_all add: handleWorkerReassignment_def)
  obtain i where i: "findAssignment ?w ?as = Some i" "?as ! i = a" using assignmentFor_find [OF assms(5)] by auto
  note len = findAssignment_Some [OF i(1)]
  define so2 where "so2 = putAssignments (?as[i := demoteToCpu a (reassignReason ''cuda'')]) so"
  define so3 where "so3 = (fst so2, snd (notifyApiServerWorkerCrash ?w (snd so2)))"
  obtain ok S4 os4 where start: "startWorker ?w so3 = (ok, S4, os4)" by (metis prod_cases3)
  note sp = startWorker_spec [OF start]
  have as3: "assignmentFor ?w (sup_assignments (fst so3)) = Some (demoteToCpu a (reassignReason ''cuda''))"
    using assignmentFor_update [OF i(1), of "demoteToCpu a (reassignReason ''cuda'')"] len i(2)
    by (simp add: so3_def so2_def supx.get_put demoteToCpu_def)
  show ?thesis
  proof (cases ?exit)
    case False
    with run so1 show ?thesis by (auto simp: applyWorkerReassignment_def split: if_splits)
  next
    case True
    then have out: "(outcome, so1) = (if \<not> ok then (KStartFailed, S4, os4)
        else (KRestarted, S4, snd (notifyApiServerWorkerRestarted ?w os4)))"
      using run i start assms(3,4,6)
      by (auto simp: applyWorkerReassignment_def supHooks_def Let_def so2_def so3_def split: prod.splits)
    have "sup_assignments S4 = sup_assignments (fst so3)"
      using supx.start_get [of startWorker ?w so3] start by (simp add: supHooks_def)
    then have asg: "assignmentFor ?w (sup_assignments (fst so')) = Some (demoteToCpu a (reassignReason ''cuda''))"
      using as3 out so1 by (auto split: if_splits)
    have "\<exists>p env. map_of (sup_workerPid (fst so')) ?w = Some p \<and>
        forkedEnv (so_trace (snd so')) p = Some env \<and> map_of env ''CUDA_VISIBLE_DEVICES'' = Some ''-1''" if handled
    proof -
      have "ok" "so' = (S4, snd (notifyApiServerWorkerRestarted ?w os4))" using that out so1 by (auto split: if_splits)
      then obtain inf where inf: "pi_type inf = KWorker" "pi_workerId inf = ?w"
        "sup_view so' = v_start inf (workerBackendEnv (demoteToCpu a (reassignReason ''cuda''))) (sup_view so3)"
        using sp as3 by (auto simp: notify_view)
      then have "v_workers (sup_view so') ?w = Some (pi_pid inf)"
        "v_forked (sup_view so') (pi_pid inf) = Some (pi_command inf, workerBackendEnv (demoteToCpu a (reassignReason ''cuda'')))"
        by (simp_all add: v_start_def)
      then show ?thesis by (auto simp: sup_view_def workerBackendEnv_def demoteToCpu_def forkedEnv_def)
    qed
    with True asg show ?thesis by auto
  qed
qed

theorem reassigned_worker_sees_no_gpu_witness:
  "\<exists>handled so' reason. handleWorkerReassignment
       \<lparr>pi_pid = 13, pi_type = KWorker, pi_workerId = 0, pi_socketPath = [], pi_crashLog = [], pi_command = []\<rparr>
       (exitStatus 70) (fst demoState\<lparr>sup_running := True\<rparr>, snd demoState) = (handled, so') \<and>
     assignmentFor 0 (sup_assignments (fst so')) = Some (demoteToCpu demoAssignment reason)"
proof -
  let ?info = "\<lparr>pi_pid = 13, pi_type = KWorker, pi_workerId = 0, pi_socketPath = [], pi_crashLog = [], pi_command = []\<rparr>"
  let ?so = "(fst demoState\<lparr>sup_running := True\<rparr>, snd demoState)"
  obtain handled so' where h: "handleWorkerReassignment ?info (exitStatus 70) ?so = (handled, so')" by (meson surj_pair)
  have "assignmentFor 0 (sup_assignments (fst ?so)) = Some demoAssignment \<and> asg_backend demoAssignment = KCuda"
    using demo_assigned by simp
  with reassigned_worker_sees_no_gpu [OF h, of demoAssignment] h show ?thesis
    by (auto simp: kReassignCpu_def)
qed

section \<open>Waiting for the model\<close>

lemma pollHeader_ready:
  "pollHeader bytes nonce = KReady \<longleftrightarrow>
   (\<exists>mem. bytes = Some mem \<and> kHeaderSize \<le> length mem \<and> evaluateModelHeader (Some mem) kHeaderSize nonce = KReady)"
  by (auto simp: pollHeader_def split: option.splits if_splits)

lemma waitReadyLoop_ready:
  "waitReadyLoop deadline so = (True, so') \<Longrightarrow>
   (\<exists>poll \<in> insert (False, None) (set (so_polls (snd so))). \<not> fst poll \<and> pollHeader (snd poll) (sup_runNonce (fst so)) = KReady) \<and>
   sup_runNonce (fst so') = sup_runNonce (fst so) \<and> sup_running (fst so')"
proof (induction deadline so arbitrary: so' rule: waitReadyLoop.induct)
  case (1 deadline S os)
  obtain poll os1 where p: "nextPoll os = (poll, os1)" by (meson surj_pair)
  obtain now os2 where c: "supSteady os1 = (now, os2)" by force
  let ?S = "S\<lparr>sup_running := (sup_running S \<and> \<not> fst poll)\<rparr>"
  have polls: "poll \<in> insert (False, None) (set (so_polls os))" "set (so_polls os2) \<subseteq> set (so_polls os)"
    using p c by (auto simp: nextPoll_def supSteady_def split: list.splits)
  have run: "sup_running ?S" "now < deadline"
    using 1(2) p c unfolding waitReadyLoop.simps [of deadline S os] by (auto simp: Let_def split: if_splits)
  show ?case
  proof (cases "pollHeader (snd poll) (sup_runNonce S) = KReady")
    case True
    then have "so' = (?S, os2)"
      using 1(2) p c run unfolding waitReadyLoop.simps [of deadline S os] by (auto simp: Let_def)
    with True polls run show ?thesis by auto
  next
    case False
    then have "waitReadyLoop deadline (?S, sleepMs 50 os2) = (True, so')"
      using 1(2) p c run unfolding waitReadyLoop.simps [of deadline S os] by (simp add: Let_def)
    with 1(1) [OF p [symmetric] refl refl _ c [symmetric] refl] run False polls(2)
    show ?thesis by (auto simp: sleepMs_def)
  qed
qed

text \<open>The supervisor goes on to start workers only after it has itself seen a header of at least 256
  bytes that is valid, carries the nonce of this very run and is marked ready, and only if no stop was
  requested meanwhile.\<close>

theorem model_ready_was_seen:
  assumes "waitForModelReady (S, os) = (True, S', os')"
  shows "sup_runNonce S' = sup_runNonce S \<and> sup_running S' \<and>
    (\<exists>mem. (False, Some mem) \<in> set (so_polls os) \<and> kHeaderSize \<le> length mem \<and>
       take 4 (hdr_magic (readHeader mem)) = edgeMagic \<and> hdr_runNonce (readHeader mem) = sup_runNonce S \<and>
       hdr_ready (readHeader mem) = 1)"
proof -
  obtain now os1 where c: "supSteady os = (now, os1)" by force
  have polls: "so_polls os1 = so_polls os" using c by (auto simp: supSteady_def)
  have "waitReadyLoop (now + cfg_modelReadyTimeoutSeconds (sup_config S) * 1000000000) (S, os1) = (True, S', os')"
    using assms c by (simp add: waitForModelReady_def)
  from waitReadyLoop_ready [OF this]
  obtain poll where "poll \<in> insert (False, None) (set (so_polls os))" "\<not> fst poll"
    "pollHeader (snd poll) (sup_runNonce S) = KReady" "sup_runNonce S' = sup_runNonce S" "sup_running S'"
    unfolding fst_conv snd_conv polls by blast
  then show ?thesis
    by (cases poll) (auto simp: pollHeader_ready pollHeader_def evaluateModelHeader_def Let_def
        split: if_splits option.splits)
qed

theorem model_ready_was_seen_witness:
  "\<exists>mem. (False, Some mem) \<in> set (so_polls demoSupOs) \<and> hdr_ready (readHeader mem) = 1"
proof -
  obtain S os where run: "waitForModelReady (demoDiscovered\<lparr>sup_runNonce := 7, sup_running := True\<rparr>, demoSupOs) = (True, S, os)"
    using demo_poll by (simp add: demo_run_defs demo_config)
  show ?thesis using model_ready_was_seen [OF run] by blast
qed

text \<open>The looks of the supervisor at the header are looks at the states the model cache goes through.\<close>

definition pollsSee :: "(bool \<times> byte list option) list \<Rightarrow> string \<Rightarrow> shm list \<Rightarrow> bool" where
  "pollsSee polls name hist \<longleftrightarrow> list_all (\<lambda>poll. list_ex (\<lambda>t. snd poll = t (shmMetaName name)) hist) polls"


text \<open>The concrete run of \<open>Model_Cache\<close> and a supervisor that polls its last state.\<close>

definition demoWait :: "shm list \<Rightarrow> bool \<times> sup_state" where
  "demoWait hist = waitForModelReady (demoDiscovered\<lparr>sup_runNonce := 7, sup_running := True\<rparr>,
     demoSupOs\<lparr>so_polls := [(False, hd hist (shmMetaName ''/edge''))]\<rparr>)"


section \<open>Reaping\<close>

lemma reapFrom_fuel:
  "length (so_exits (snd so)) < n \<Longrightarrow> length (so_exits (snd so)) < m \<Longrightarrow> reapFrom n so = reapFrom m so"
proof (induction n arbitrary: m so)
  case (Suc n)
  obtain k where m: "m = Suc k" using Suc.prems by (cases m) auto
  obtain S os where so: "so = (S, os)" by force
  obtain pid st os1 where w: "waitAny os = (pid, st, os1)" by (metis prod_cases3)
  show ?case
  proof (cases "pid \<le> 0")
    case True
    with so w m show ?thesis by (simp add: Let_def)
  next
    case False
    have "reapFrom n so1 = reapFrom k so1" if "handleCrash pid st (S, os1) = Inr so1" for so1
      using Suc.IH [of so1 k] handleCrash_keeps [OF that] waitAny_exits [OF w] False Suc.prems so m
      by (simp add: sup_keeps_def)
    with False so w m show ?thesis by (simp add: Let_def split: sum.split)
  qed
qed simp

text \<open>One call of \<^verbatim>\<open>reapChildren\<close> terminates and handles every child that has ended: no matter how much
  further it were allowed to loop, the result would be the same.\<close>

theorem reaping_terminates: "reapFrom (Suc (length (so_exits (snd so)) + k)) so = reapChildren so"
  unfolding reapChildren_def by (rule reapFrom_fuel) simp_all

section \<open>Silent workers\<close>

text \<open>What the table of heartbeats says of one running worker.\<close>

definition workerIsDead :: "int \<Rightarrow> Supervisor \<Rightarrow> int \<Rightarrow> bool" where
  "workerIsDead now S w \<longleftrightarrow> (case map_of (sup_workerHealth S) w of
     None \<Rightarrow> False
   | Some h \<Rightarrow> classifyWorker now h (cfg_liveness (sup_config S)) \<in> {KNoHeartbeat, KStuckRequest})"

lemma checkWorker_spec:
  "checkWorker now (w, p) (S, os) = (S', os') \<Longrightarrow>
     so_trace os' = (if workerIsDead now S w then EvKill p sigkill # so_trace os else so_trace os) \<and>
     (u \<noteq> w \<longrightarrow> workerIsDead now S' u = workerIsDead now S u)"
proof -
  assume run: "checkWorker now (w, p) (S, os) = (S', os')"
  show ?thesis
  proof (cases "map_of (sup_workerHealth S) w")
    case (Some h)
    with run show ?thesis
      by (cases "classifyWorker now h (cfg_liveness (sup_config S))")
        (auto simp: checkWorker_def workerIsDead_def os_simps update_conv' Let_def split: option.splits)
  qed (use run in \<open>simp add: checkWorker_def workerIsDead_def\<close>)
qed

lemma checkWorkers_trace:
  assumes "distinct (map fst es)"
  shows "so_trace (snd (fold (checkWorker now) es (S, os))) =
    rev (map (\<lambda>(w, p). EvKill p sigkill) (filter (\<lambda>(w, p). workerIsDead now S w) es)) @ so_trace os"
  using assms
proof (induction es arbitrary: S os)
  case (Cons e es)
  obtain w p where e: "e = (w, p)" by force
  obtain S1 os1 where c: "checkWorker now (w, p) (S, os) = (S1, os1)" by force
  have "u \<noteq> w" if "(u, q) \<in> set es" for u q using Cons.prems e that by force
  then have "filter (\<lambda>(w, p). workerIsDead now S1 w) es = filter (\<lambda>(w, p). workerIsDead now S w) es"
    using checkWorker_spec [OF c] by (intro filter_cong) auto
  with Cons e c checkWorker_spec [OF c] show ?case by simp
qed simp


definition lateState :: sup_state where
  "lateState = (fst demoState, snd demoState\<lparr>so_epochMs := 900000000\<rparr>)"


section \<open>Shutdown\<close>

lemma graceLoop_spec:
  "graceLoop deadline ps os = (ps', os') \<Longrightarrow>
   set ps' \<subseteq> set ps \<and> set (so_children os') \<subseteq> set (so_children os) \<and> so_trace os' = so_trace os \<and>
   fst ` set ps \<subseteq> fst ` set ps' \<union> - set (so_children os')"
proof (induction deadline ps os rule: graceLoop.induct)
  case (1 deadline ps os)
  obtain now os1 where c: "supSteady os = (now, os1)" by force
  obtain pid st os2 where w: "waitAny os1 = (pid, st, os2)" by (metis prod_cases3)
  have q: "so_children os1 = so_children os" "so_trace os1 = so_trace os" using quiet_steps(1) [OF c] by auto
  have r: "so_trace os2 = so_trace os" "set (so_children os2) \<subseteq> set (so_children os)"
    "0 < pid \<Longrightarrow> pid \<notin> set (so_children os2)"
    using w q by (auto simp: waitAny_def split: list.splits if_splits)
  show ?case
  proof (cases "ps = [] \<or> \<not> now < deadline")
    case True
    with 1(3) c q show ?thesis unfolding graceLoop.simps [of deadline ps os]
      by (auto simp: Let_def split: if_splits)
  next
    case False
    show ?thesis
    proof (cases "0 < pid")
      case True
      then have "graceLoop deadline (AList.delete pid ps) os2 = (ps', os')"
        using 1(3) c w False unfolding graceLoop.simps [of deadline ps os] by (simp add: Let_def)
      with 1(1) c w False True
      have ih: "set ps' \<subseteq> set (AList.delete pid ps)" "set (so_children os') \<subseteq> set (so_children os2)"
        "so_trace os' = so_trace os2" "fst ` set (AList.delete pid ps) \<subseteq> fst ` set ps' \<union> - set (so_children os')"
        by auto
      have del: "fst ` set ps \<subseteq> insert pid (fst ` set (AList.delete pid ps))" "set (AList.delete pid ps) \<subseteq> set ps"
        by (auto simp: AList.delete_eq)
      have "pid \<in> - set (so_children os')" using ih(2) r(3) True by blast
      with del(1) ih(4) have "fst ` set ps \<subseteq> fst ` set ps' \<union> - set (so_children os')" by blast
      with del(2) ih r show ?thesis by auto
    next
      case no: False
      then have "graceLoop deadline ps (sleepMs 20 os2) = (ps', os')"
        using 1(3) c w False unfolding graceLoop.simps [of deadline ps os] by (simp add: Let_def)
      from 1(2) [OF _ refl c [symmetric] _ refl w [symmetric] refl _ this] False no
      have "set ps' \<subseteq> set ps \<and> set (so_children os') \<subseteq> set (so_children os2) \<and>
          so_trace os' = so_trace os2 \<and> fst ` set ps \<subseteq> fst ` set ps' \<union> - set (so_children os')"
        by (simp only: os_simps not_not simp_thms de_Morgan_disj)
      then show ?thesis unfolding r(1) using r(2) by (blast intro: order_trans)
    qed
  qed
qed

lemma fold_killPid:
  "so_trace (fold (\<lambda>e. killPid (fst e) sig) ps os) = rev (map (\<lambda>e. EvKill (fst e) sig) ps) @ so_trace os \<and>
   so_children (fold (\<lambda>e. killPid (fst e) sig) ps os) = so_children os"
  by (induction ps arbitrary: os) (simp_all add: os_simps)

lemma fold_reap:
  "set (so_children (fold (\<lambda>e os. waitPid (fst e) (killPid (fst e) sigkill os)) ps os)) =
     set (so_children os) - fst ` set ps \<and>
   set (so_trace os) \<subseteq> set (so_trace (fold (\<lambda>e os. waitPid (fst e) (killPid (fst e) sigkill os)) ps os))"
proof (induction ps arbitrary: os)
  case (Cons p ps)
  let ?os = "waitPid (fst p) (killPid (fst p) sigkill os)"
  have "set (so_children ?os) = set (so_children os) - {fst p}" "set (so_trace os) \<subseteq> set (so_trace ?os)"
    by (auto simp: waitPid_def killPid_def record_event_def)
  then show ?case using Cons [of ?os] by (auto simp del: fold.simps simp add: fold_simps)
qed simp

lemma fold_removePidFile:
  "so_children (fold (\<lambda>x. removePidFile (f x)) xs os) = so_children os \<and>
   set (so_trace os) \<subseteq> set (so_trace (fold (\<lambda>x. removePidFile (f x)) xs os))"
proof (induction xs arbitrary: os)
  case (Cons x xs)
  have "set (so_trace os) \<subseteq> set (so_trace (removePidFile (f x) os))"
    by (auto simp: removePidFile_def os_simps Let_def)
  with Cons [of "removePidFile (f x) os"] show ?case by (auto simp: os_simps)
qed simp

text \<open>C34: a shutdown leaves nothing behind. Every process on the table is sent SIGTERM, and when
  \<^verbatim>\<open>shutdownChildren\<close> returns none of them is an unreaped child any more, whether it ended in the two
  seconds of grace or had to be killed; the table is empty.\<close>

theorem shutdown_leaves_no_child:
  "let (S, os) = so; (S', os') = shutdownChildren so in
     sup_processes S' = [] \<and>
     list_all (\<lambda>e. fst e \<notin> set (so_children os') \<and> EvKill (fst e) sigterm \<in> set (so_trace os')) (sup_processes S)"
proof -
  obtain S os where so: "so = (S, os)" by force
  show ?thesis
  proof (cases "sup_processes S = []")
    case True
    with so show ?thesis by (simp add: shutdownChildren_def)
  next
    case False
    define os1 where "os1 = fold (\<lambda>e. killPid (fst e) sigterm) (sup_processes S) os"
    obtain now os2 where c: "supSteady os1 = (now, os2)" by force
    obtain ps os3 where g: "graceLoop (now + 2000000000) (sup_processes S) os2 = (ps, os3)" by force
    define os4 where "os4 = fold (\<lambda>e os. waitPid (fst e) (killPid (fst e) sigkill os)) ps os3"
    define os5 where "os5 = fold (\<lambda>e. removePidFile (pidFileNameFor (snd e))) ps os4"
    define os6 where "os6 = removePidFile ''backend-api-server'' (removePidFile ''backend-model-cache'' os5)"
    define os7 where "os7 = fold (\<lambda>w. removePidFile (''backend-worker-'' @ int_str w))
      [0..cfg_workerCount (sup_config S) - 1] os6"
    have run: "shutdownChildren so = (S\<lparr>sup_processes := [], sup_workerPid := []\<rparr>, os7)"
      using False so c g
      by (simp add: shutdownChildren_def Let_def os1_def os4_def os5_def os6_def os7_def)
    have grow: "set (so_trace os) \<subseteq> set (so_trace (removePidFile n os))" for n os
      by (auto simp: removePidFile_def os_simps Let_def)
    have "set (so_trace os1) \<subseteq> set (so_trace os3)"
      using quiet_steps(1) [OF c] graceLoop_spec [OF g] by simp
    also have "\<dots> \<subseteq> set (so_trace os4)" unfolding os4_def using fold_reap [of ps os3] by simp
    also have "\<dots> \<subseteq> set (so_trace os5)" unfolding os5_def using fold_removePidFile [where xs = ps and os = os4] by simp
    also have "\<dots> \<subseteq> set (so_trace os6)" unfolding os6_def by (intro order_trans [OF grow grow])
    also have "\<dots> \<subseteq> set (so_trace os7)" unfolding os7_def
      using fold_removePidFile [where xs = "[0..cfg_workerCount (sup_config S) - 1]" and os = os6] by simp
    finally have trace: "set (so_trace os1) \<subseteq> set (so_trace os7)" .
    have "so_children os7 = so_children os4"
      unfolding os7_def os6_def os5_def by (simp only: fold_removePidFile os_simps)
    then have "set (so_children os7) = set (so_children os3) - fst ` set ps"
      using fold_reap [of ps os3] unfolding os4_def by simp
    moreover have "fst ` set (sup_processes S) \<subseteq> fst ` set ps \<union> - set (so_children os3)"
      using graceLoop_spec [OF g] by simp
    ultimately have "fst e \<notin> set (so_children os7)" if "e \<in> set (sup_processes S)" for e
      using that by blast
    moreover have "EvKill (fst e) sigterm \<in> set (so_trace os7)" if "e \<in> set (sup_processes S)" for e
      using trace fold_killPid [of sigterm "sup_processes S" os] that unfolding os1_def by auto
    ultimately show ?thesis using so run by (simp add: list_all_iff)
  qed
qed

section \<open>The processes it starts\<close>

text \<open>The model cache understands its supervisor. The argument vector the supervisor builds is parsed by
  the cache's \<^verbatim>\<open>main\<close> into the model path, the shared-memory name and, since a generated nonce is never
  zero, exactly the nonce the supervisor will wait for.\<close>

theorem model_cache_args_roundtrip:
  assumes "cfg_modelPath config \<noteq> []" and "cfg_shmName config \<noteq> []"
  shows "mcMain env (tl (modelCacheArgs config (generateRunNonce urandom mixed))) fresh =
    Inr \<lparr>mcc_modelPath = cfg_modelPath config, mcc_shmName = cfg_shmName config,
         mcc_runNonce = generateRunNonce urandom mixed\<rparr>"
  using assms by (simp add: mcMain_def modelCacheArgs_def generateRunNonce_nonzero starts_with_def)

theorem model_cache_args_roundtrip_witness:
  "mcMain Map.empty (tl (modelCacheArgs demoConfig (generateRunNonce (Some 7) 0))) 3 =
    Inr \<lparr>mcc_modelPath = ''/m.gguf'', mcc_shmName = ''/edge'', mcc_runNonce = 7\<rparr>"
  using model_cache_args_roundtrip [of demoConfig Map.empty "Some 7" 0 3]
  by (simp add: demoConfig_def generateRunNonce_def)

section \<open>The circuit breaker in use\<close>

definition circuitKey :: "ProcessInfo \<Rightarrow> int" where
  "circuitKey info = (case pi_type info of
     KModelCache \<Rightarrow> kCircuitKeyModelCache | KApiServer \<Rightarrow> kCircuitKeyApiServer | KWorker \<Rightarrow> pi_workerId info)"

text \<open>An open circuit stops the restarts. When a crash is the third of its process within the window,
  \<^verbatim>\<open>restartAfterCrash\<close> returns normally and has started nothing: no child is added, nothing is forked, and
  the tables of processes and of workers stay as they are.\<close>

theorem open_circuit_starts_nothing:
  assumes "fst (registerCrash (circuitKey info) (so_now os) (sup_breaker S))"
  shows "\<exists>S' os'. restartAfterCrash info (S, os) = Inr (S', os') \<and> so_children os' = so_children os \<and>
    forkedEnv (so_trace os') = forkedEnv (so_trace os) \<and> sup_processes S' = sup_processes S \<and>
    sup_workerPid S' = sup_workerPid S"
proof -
  have open_: "\<exists>S' os'. circuitOpen (circuitKey info) info (S, os1) = Inr (True, S', os') \<and>
      so_children os' = so_children os1 \<and> so_trace os' = so_trace os1 \<and>
      sup_processes S' = sup_processes S \<and> sup_workerPid S' = sup_workerPid S"
    if "so_now os1 = so_now os" for os1
    using assms that by (auto simp: circuitOpen_def supSteady_def Let_def split: prod.splits)
  show ?thesis
  proof (cases "pi_type info")
    case KWorker
    obtain ok os1 where n: "notifyApiServerWorkerCrash (pi_workerId info) os = (ok, os1)" by force
    then have "so_now os1 = so_now os"
      by (auto simp: notifyApiServerWorkerCrash_def notifyApiServer_def record_event_def Let_def)
    with open_ [of os1] quiet_steps(4) [OF n] n KWorker show ?thesis
      by (auto simp: restartAfterCrash_def circuitKey_def Let_def forkedEnv_def fun_eq_iff)
  qed (use open_ [of os] in \<open>auto simp: restartAfterCrash_def circuitKey_def\<close>)
qed

theorem open_circuit_starts_nothing_witness:
  "\<exists>S' os'. restartAfterCrash
      \<lparr>pi_pid = 13, pi_type = KWorker, pi_workerId = 0, pi_socketPath = [], pi_crashLog = [], pi_command = []\<rparr>
      (demoDiscovered\<lparr>sup_breaker := (\<lambda>k. [0, 0])\<rparr>, demoSupOs) = Inr (S', os') \<and> so_children os' = []"
proof -
  let ?info = "\<lparr>pi_pid = 13, pi_type = KWorker, pi_workerId = 0, pi_socketPath = [], pi_crashLog = [], pi_command = []\<rparr>"
  have "fst (registerCrash (circuitKey ?info) (so_now demoSupOs) (sup_breaker (demoDiscovered\<lparr>sup_breaker := (\<lambda>k. [0, 0])\<rparr>)))"
    by (simp add: registerCrash_def pruneLocked_def kWindow_def kCrashThreshold_def circuitKey_def demoSupOs_def)
  from open_circuit_starts_nothing [OF this] show ?thesis by (auto simp: demoSupOs_def)
qed

end
