(* ===== verification/Infer_Engine.thy ===== *)
theory Infer_Engine
  imports Complex_Main Device_Ladder
begin

text \<open>
  \<^verbatim>\<open>backend/inference-worker/{gpuResourceOwner,inferEngine}.*\<close>: who holds the GPU, and the engine that
  loads the model and generates text. The llama library the engine drives is vendored and stands behind
  the record \<open>llama_os\<close>: each call takes its answer from the front of a list, and the calls that matter are
  appended to \<open>ll_trace\<close>. \<open>ll_built\<close> is the macro \<^verbatim>\<open>EDGE_USE_LLAMA\<close>, so both builds are modelled. A call
  through a null model pointer is the result \<open>None\<close> of the operation that makes it.
\<close>

section \<open>Owners of the GPU\<close>

datatype DeviceFallbackAction = KReloadInPlace | KReexecAsCpu

definition requiresProcessRestartForCpuOnly :: "bool \<Rightarrow> string \<Rightarrow> string \<Rightarrow> bool" where
  "requiresProcessRestartForCpuOnly resident previous next' =
     (if previous = ''cpu'' \<or> next' \<noteq> ''cpu'' then False else resident)"

definition deviceFallbackAction :: "bool \<Rightarrow> string \<Rightarrow> string \<Rightarrow> bool \<Rightarrow> DeviceFallbackAction" where
  "deviceFallbackAction resident previous next' reexecEnabled =
     (if \<not> reexecEnabled then KReloadInPlace
      else if requiresProcessRestartForCpuOnly resident previous next' then KReexecAsCpu
      else KReloadInPlace)"

definition deviceFallbackModeIsReexec :: "string option \<Rightarrow> bool" where
  "deviceFallbackModeIsReexec rawMode =
     (case rawMode of None \<Rightarrow> True | Some mode \<Rightarrow> mode \<noteq> ''reload'')"

section \<open>The engine's state\<close>

text \<open>The \<^verbatim>\<open>float\<close> members are kept as rationals.\<close>

record InferConfig =
  ic_modelPath :: string
  ic_gpuLayers :: int
  ic_ctxSize :: int
  ic_maxTokens :: int
  ic_temperature :: rat
  ic_seed :: int
  ic_forceCpu :: bool

definition defaultInferConfig :: InferConfig where
  "defaultInferConfig =
     \<lparr>ic_modelPath = [], ic_gpuLayers = 99, ic_ctxSize = 2048, ic_maxTokens = 512,
      ic_temperature = 4 / 5, ic_seed = 42, ic_forceCpu = False\<rparr>"

record InferEngine =
  ie_cfg :: InferConfig
  ie_gpuOk :: bool
  ie_deviceInitialized :: bool
  ie_lastFault :: DeviceFault
  ie_lastFaultDetail :: string
  ie_executingTier :: string
  ie_faultInjected :: bool
  ie_model :: bool
  ie_ctx :: bool

definition newInferEngine :: "InferConfig \<Rightarrow> InferEngine" where
  "newInferEngine cfg =
     \<lparr>ie_cfg = cfg, ie_gpuOk = True, ie_deviceInitialized = False, ie_lastFault = KNone,
      ie_lastFaultDetail = [], ie_executingTier = [], ie_faultInjected = False, ie_model = False,
      ie_ctx = False\<rparr>"

datatype llama_event =
    LlBackendInit
  | LlBackendFree
  | LlLoad string int bool
  | LlFreeModel
  | LlContext int bool
  | LlFreeContext

text \<open>
  A sample is whether the token ends generation and its text, empty when \<^verbatim>\<open>llama_token_to_piece\<close> gives
  none. Lists that have run out answer with failure.
\<close>

record llama_os =
  ll_built :: bool
  ll_loads :: "bool list"
  ll_contexts :: "bool list"
  ll_tokenize :: "(int \<times> int) list"
  ll_decode :: "int list"
  ll_samples :: "(bool \<times> string) list"
  ll_trace :: "llama_event list"

type_synonym engine_state = "InferEngine \<times> llama_os"

definition llamaLoad :: "string \<Rightarrow> int \<Rightarrow> llama_os \<Rightarrow> bool \<times> llama_os" where
  "llamaLoad path layers ll =
     (let ok = (case ll_loads ll of [] \<Rightarrow> False | b # bs \<Rightarrow> b)
      in (ok, ll\<lparr>ll_loads := tl (ll_loads ll), ll_trace := LlLoad path layers ok # ll_trace ll\<rparr>))"

definition llamaContext :: "int \<Rightarrow> llama_os \<Rightarrow> bool \<times> llama_os" where
  "llamaContext ctxSize ll =
     (let ok = (case ll_contexts ll of [] \<Rightarrow> False | b # bs \<Rightarrow> b)
      in (ok, ll\<lparr>ll_contexts := tl (ll_contexts ll), ll_trace := LlContext ctxSize ok # ll_trace ll\<rparr>))"

definition llamaTokenize :: "llama_os \<Rightarrow> (int \<times> int) \<times> llama_os" where
  "llamaTokenize ll =
     ((case ll_tokenize ll of [] \<Rightarrow> (0, 0) | r # rs \<Rightarrow> r), ll\<lparr>ll_tokenize := tl (ll_tokenize ll)\<rparr>)"

definition llamaDecode :: "llama_os \<Rightarrow> int \<times> llama_os" where
  "llamaDecode ll =
     ((case ll_decode ll of [] \<Rightarrow> 1 | r # rs \<Rightarrow> r), ll\<lparr>ll_decode := tl (ll_decode ll)\<rparr>)"

definition llamaSample :: "llama_os \<Rightarrow> (bool \<times> string) \<times> llama_os" where
  "llamaSample ll =
     ((case ll_samples ll of [] \<Rightarrow> (True, []) | r # rs \<Rightarrow> r), ll\<lparr>ll_samples := tl (ll_samples ll)\<rparr>)"

definition llamaNote :: "llama_event \<Rightarrow> llama_os \<Rightarrow> llama_os" where
  "llamaNote e ll = ll\<lparr>ll_trace := e # ll_trace ll\<rparr>"

section \<open>Faults\<close>

definition recordFault :: "DeviceFault \<Rightarrow> string \<Rightarrow> InferEngine \<Rightarrow> InferEngine" where
  "recordFault fault detail E = E\<lparr>ie_lastFault := fault, ie_lastFaultDetail := detail\<rparr>"

definition clearFault :: "InferEngine \<Rightarrow> InferEngine" where
  "clearFault E = E\<lparr>ie_lastFault := KNone, ie_lastFaultDetail := []\<rparr>"

definition setExecutingTier :: "string \<Rightarrow> InferEngine \<Rightarrow> InferEngine" where
  "setExecutingTier tier E = E\<lparr>ie_executingTier := tier\<rparr>"

definition faultByName :: "string \<Rightarrow> DeviceFault" where
  "faultByName name =
     (if name = ''removed'' then KRemoved
      else if name = ''unsupported'' then KUnsupportedOp
      else if name = ''runtime'' then KRuntimeError
      else KNone)"

definition injectedFault :: "environ \<Rightarrow> InferEngine \<Rightarrow> DeviceFault \<times> InferEngine" where
  "injectedFault env E =
     (if ie_faultInjected E then (KNone, E)
      else case env ''EDGE_SIMULATE_DEVICE_FAULT'' of
        None \<Rightarrow> (KNone, E)
      | Some raw \<Rightarrow>
          if raw = [] then (KNone, E)
          else
            let fire = (\<lambda>spec. let fault = faultByName spec in
              (fault, if fault \<noteq> KNone then E\<lparr>ie_faultInjected := True\<rparr> else E))
            in case find_char CHR '':'' raw of
              None \<Rightarrow> fire raw
            | Some colon \<Rightarrow>
                let target = take colon raw in
                if target = [] \<or> target \<noteq> ie_executingTier E then (KNone, E)
                else fire (drop (colon + 1) raw))"

section \<open>The prompt\<close>

definition defaultTemplate :: string where
  "defaultTemplate = ''<|user|>'' @ [newline] @ ''{prompt}<|end|>'' @ [newline] @ ''<|assistant|>'' @ [newline]"

definition applyPromptTemplate :: "environ \<Rightarrow> string \<Rightarrow> string" where
  "applyPromptTemplate env prompt =
     (let form = (case env ''EDGE_PROMPT_TEMPLATE'' of None \<Rightarrow> defaultTemplate | Some raw \<Rightarrow> raw)
      in case find_sub ''{prompt}'' form of
        None \<Rightarrow> prompt
      | Some slot \<Rightarrow> if form = [] then prompt else take slot form @ prompt @ drop (slot + 8) form)"

section \<open>Loading and freeing\<close>

definition freeModelAndContext :: "engine_state \<Rightarrow> engine_state" where
  "freeModelAndContext s =
     (let (E, ll) = s in
      if \<not> ll_built ll then (E, ll)
      else
        let (E, ll) = (if ie_ctx E then (E\<lparr>ie_ctx := False\<rparr>, llamaNote LlFreeContext ll) else (E, ll))
        in if ie_model E then (E\<lparr>ie_model := False\<rparr>, llamaNote LlFreeModel ll) else (E, ll))"

definition releaseDeviceResources :: "engine_state \<Rightarrow> bool \<times> engine_state" where
  "releaseDeviceResources s =
     (let (E, ll) = freeModelAndContext s in (\<not> ie_model E \<and> \<not> ie_ctx E, E, ll))"

definition deviceResourcesResident :: "InferEngine \<Rightarrow> bool" where
  "deviceResourcesResident E = ie_deviceInitialized E"

definition isUsingGPU :: "InferEngine \<Rightarrow> bool" where
  "isUsingGPU E = ie_gpuOk E"

definition loadModel :: "engine_state \<Rightarrow> bool \<times> engine_state" where
  "loadModel s =
     (let (E, ll) = s in
      if \<not> ll_built ll then (False, E, ll)
      else
        let E = (if ic_forceCpu (ie_cfg E) then E\<lparr>ie_gpuOk := False\<rparr> else E);
            layers = (if ie_gpuOk E then ic_gpuLayers (ie_cfg E) else 0);
            E = (if ie_gpuOk E then E\<lparr>ie_deviceInitialized := True\<rparr> else E);
            (model, ll) = llamaLoad (ic_modelPath (ie_cfg E)) layers ll;
            (model, E, ll) =
              (if \<not> model \<and> ie_gpuOk E then
                 let (model, ll) = llamaLoad (ic_modelPath (ie_cfg E)) 0 ll
                 in (model, E\<lparr>ie_gpuOk := False\<rparr>, ll)
               else (model, E, ll))
        in if \<not> model then (False, E, ll)
           else
             let (ctx, ll) = llamaContext (ic_ctxSize (ie_cfg E)) ll
             in if \<not> ctx then (False, E, llamaNote LlFreeModel ll)
                else (True, E\<lparr>ie_model := True, ie_ctx := True\<rparr>, ll))"

definition reloadOn :: "bool \<Rightarrow> engine_state \<Rightarrow> bool \<times> engine_state" where
  "reloadOn forceCpu s =
     (let (E, ll) = freeModelAndContext s;
          E = clearFault (E\<lparr>ie_cfg := (ie_cfg E)\<lparr>ic_forceCpu := forceCpu\<rparr>, ie_gpuOk := \<not> forceCpu\<rparr>)
      in if ll_built ll then loadModel (E, ll) else (True, E, ll))"

definition engineInit :: "engine_state \<Rightarrow> bool \<times> engine_state" where
  "engineInit s =
     (let (E, ll) = s in
      if \<not> ll_built ll then (True, E, ll)
      else if ic_modelPath (ie_cfg E) = [] then (False, E, ll)
      else loadModel (E, llamaNote LlBackendInit ll))"

definition engineDestroy :: "engine_state \<Rightarrow> llama_os" where
  "engineDestroy s =
     (let (E, ll) = freeModelAndContext s in if ll_built ll then llamaNote LlBackendFree ll else ll)"

section \<open>Generating\<close>

text \<open>The number of tokens of a prompt; 0 is the empty vector of every failure.\<close>

definition tokenize :: "llama_os \<Rightarrow> int \<times> llama_os" where
  "tokenize ll =
     (if \<not> ll_built ll then (0, ll)
      else let ((n, written), ll) = llamaTokenize ll in
        if n \<ge> 0 then (0, ll) else if written \<le> 0 then (0, ll) else (written, ll))"

text \<open>
  The loop, by the attempts that are left: the pieces handed to \<^verbatim>\<open>onToken\<close>, in order.
\<close>

fun decodeSteps :: "nat \<Rightarrow> int \<Rightarrow> int \<Rightarrow> llama_os \<Rightarrow> string list \<times> llama_os" where
  "decodeSteps 0 maxTokens generated ll = ([], ll)"
| "decodeSteps (Suc k) maxTokens generated ll =
     (if \<not> generated < maxTokens then ([], ll)
      else let ((eog, piece), ll) = llamaSample ll in
      if eog then (if generated = 0 then decodeSteps k maxTokens generated ll else ([], ll))
      else
        let emitted = (if piece = [] then [] else [piece]); (rc, ll) = llamaDecode ll
        in if rc \<noteq> 0 then (emitted, ll)
           else let (rest, ll) = decodeSteps k maxTokens (generated + 1) ll in (emitted @ rest, ll))"

definition runDecodeLoop :: "InferEngine \<Rightarrow> llama_os \<Rightarrow> string list \<times> llama_os" where
  "runDecodeLoop E ll =
     (if \<not> ll_built ll then ([], ll)
      else decodeSteps (nat (ic_maxTokens (ie_cfg E) * 4)) (ic_maxTokens (ie_cfg E)) 0 ll)"

definition generate :: "environ \<Rightarrow> string \<Rightarrow> engine_state \<Rightarrow> (string \<times> engine_state) option" where
  "generate env prompt s =
     (let (E, ll) = s; (injected, E) = injectedFault env (clearFault E) in
      if injected \<noteq> KNone then
        Some (''[error: simulated device fault]'', recordFault injected ''EDGE_SIMULATE_DEVICE_FAULT'' E, ll)
      else if \<not> ll_built ll then
        Some (if prompt = [] then ''Empty prompt received.'' else ''Inference response: '' @ prompt, E, ll)
      else if \<not> ie_model E then None
      else
        let (tokens, ll) = tokenize ll in
        if tokens = 0 then Some (''[error: prompt tokenize failed]'', E, ll)
        else let (rc, ll) = llamaDecode ll in
        if rc \<noteq> 0 then
          Some (''[error: prompt eval failed]'', recordFault KRuntimeError (''llama_decode rc='' @ int_str rc) E, ll)
        else let (pieces, ll) = runDecodeLoop E ll; result = concat pieces in
        if result = [] then
          Some (''[error: empty model output]'', recordFault KRuntimeError ''empty model output'' E, ll)
        else Some (result, E, ll))"

text \<open>What streaming hands to \<^verbatim>\<open>onToken\<close>, in order.\<close>

definition generateStreaming :: "environ \<Rightarrow> string \<Rightarrow> engine_state \<Rightarrow> (string list \<times> engine_state) option" where
  "generateStreaming env prompt s =
     (let (E, ll) = s; (injected, E) = injectedFault env (clearFault E) in
      if injected \<noteq> KNone then
        Some ([], recordFault injected ''EDGE_SIMULATE_DEVICE_FAULT'' E, ll)
      else if \<not> ll_built ll then
        map_option (\<lambda>(text', s). ([text'], s)) (generate env prompt (E, ll))
      else if \<not> ie_model E then None
      else
        let (tokens, ll) = tokenize ll in
        if tokens = 0 then Some ([''[error: prompt tokenize failed]''], E, ll)
        else let (rc, ll) = llamaDecode ll in
        if rc \<noteq> 0 then Some ([''[error: prompt eval failed]''], E, ll)
        else let (pieces, ll) = runDecodeLoop E ll in Some (pieces, E, ll))"

section \<open>Steps of an engine\<close>

inductive engine_step :: "environ \<Rightarrow> engine_state \<Rightarrow> engine_state \<Rightarrow> bool" for env where
  en_init: "\<not> ie_model E \<Longrightarrow> engineInit (E, ll) = (ok, s') \<Longrightarrow> engine_step env (E, ll) s'"
| en_reload: "reloadOn forceCpu s = (ok, s') \<Longrightarrow> engine_step env s s'"
| en_release: "releaseDeviceResources s = (ok, s') \<Longrightarrow> engine_step env s s'"
| en_tier: "engine_step env (E, ll) (setExecutingTier tier E, ll)"
| en_generate: "generate env prompt s = Some (text', s') \<Longrightarrow> engine_step env s s'"
| en_stream: "generateStreaming env prompt s = Some (pieces, s') \<Longrightarrow> engine_step env s s'"

fun liveModels :: "llama_event list \<Rightarrow> int" where
  "liveModels [] = 0"
| "liveModels (LlLoad path layers ok # es) = liveModels es + (if ok then 1 else 0)"
| "liveModels (LlFreeModel # es) = liveModels es - 1"
| "liveModels (e # es) = liveModels es"

fun liveContexts :: "llama_event list \<Rightarrow> int" where
  "liveContexts [] = 0"
| "liveContexts (LlContext n ok # es) = liveContexts es + (if ok then 1 else 0)"
| "liveContexts (LlFreeContext # es) = liveContexts es - 1"
| "liveContexts (e # es) = liveContexts es"

text \<open>
  The pointers say what is allocated; a model on the GPU means the device has been touched.
\<close>

definition engine_ok :: "engine_state \<Rightarrow> bool" where
  "engine_ok s \<longleftrightarrow> (let (E, ll) = s in
     liveModels (ll_trace ll) = (if ie_model E then 1 else 0) \<and>
     liveContexts (ll_trace ll) = (if ie_ctx E then 1 else 0) \<and>
     (ie_ctx E \<longleftrightarrow> ie_model E) \<and> (ie_model E \<longrightarrow> ll_built ll) \<and>
     (ie_model E \<and> ie_gpuOk E \<longrightarrow> ie_deviceInitialized E))"

lemmas llama_calls = llamaLoad_def llamaContext_def llamaNote_def

lemma freeModelAndContext_spec:
  assumes "freeModelAndContext (E, ll) = (E', ll')" and "engine_ok (E, ll)"
  shows "engine_ok (E', ll')" and "\<not> ie_model E'" and "ll_built ll' = ll_built ll"
    and "ie_deviceInitialized E' = ie_deviceInitialized E" and "ie_faultInjected E' = ie_faultInjected E"
  using assms by (auto simp: freeModelAndContext_def engine_ok_def llamaNote_def Let_def split: if_splits)

lemma loadModel_spec:
  assumes "loadModel (E, ll) = (ok, E', ll')" and "engine_ok (E, ll)" and "\<not> ie_model E"
  shows "engine_ok (E', ll')" and "ll_built ll' = ll_built ll" and "ok = ie_model E'"
    and "ie_deviceInitialized E \<Longrightarrow> ie_deviceInitialized E'" and "ie_faultInjected E' = ie_faultInjected E"
  using assms
  by (auto simp: loadModel_def engine_ok_def llama_calls Let_def split: if_splits list.splits)

lemma reloadOn_spec:
  assumes "reloadOn forceCpu (E, ll) = (ok, E', ll')" and "engine_ok (E, ll)"
  shows "engine_ok (E', ll')" and "ll_built ll' = ll_built ll" and "ll_built ll \<Longrightarrow> ok = ie_model E'"
    and "ie_deviceInitialized E \<Longrightarrow> ie_deviceInitialized E'" and "ie_faultInjected E' = ie_faultInjected E"
proof -
  obtain E1 ll1 where f: "freeModelAndContext (E, ll) = (E1, ll1)" by force
  note fs = freeModelAndContext_spec [OF f assms(2)]
  let ?E = "clearFault (E1\<lparr>ie_cfg := (ie_cfg E1)\<lparr>ic_forceCpu := forceCpu\<rparr>, ie_gpuOk := \<not> forceCpu\<rparr>)"
  have ok: "engine_ok (?E, ll1)" "\<not> ie_model ?E" "ie_deviceInitialized ?E = ie_deviceInitialized E"
    "ie_faultInjected ?E = ie_faultInjected E"
    using fs by (simp_all add: engine_ok_def clearFault_def)
  have run: "(ok, E', ll') = (if ll_built ll1 then loadModel (?E, ll1) else (True, ?E, ll1))"
    using assms(1) f by (auto simp: reloadOn_def Let_def)
  show "engine_ok (E', ll')" "ll_built ll' = ll_built ll" "ll_built ll \<Longrightarrow> ok = ie_model E'"
    "ie_deviceInitialized E \<Longrightarrow> ie_deviceInitialized E'" "ie_faultInjected E' = ie_faultInjected E"
    using run ok fs loadModel_spec [of ?E ll1 ok E' ll'] by (auto split: if_splits)
qed

text \<open>A turn of the loop: stop, a silent end token, or a piece and then a decode.\<close>

lemma decodeSteps_cases:
  assumes "decodeSteps (Suc k) m g ll = (ps, ll')"
  obtains (stop) "ll_trace ll' = ll_trace ll" "ll_built ll' = ll_built ll" "length ps \<le> (if g < m then 1 else 0)" "[] \<notin> set ps"
    | (silent) ll1 where "decodeSteps k m g ll1 = (ps, ll')" "ll_trace ll1 = ll_trace ll" "ll_built ll1 = ll_built ll"
    | (more) qs rest ll2 where "decodeSteps k m (g + 1) ll2 = (rest, ll')" "ll_trace ll2 = ll_trace ll" "ll_built ll2 = ll_built ll"
        "g < m" "length qs \<le> 1" "[] \<notin> set qs" "ps = qs @ rest"
proof -
  obtain eog piece ll1 where sm: "llamaSample ll = ((eog, piece), ll1)" by (metis surj_pair)
  obtain rc ll2 where dc: "llamaDecode ll1 = (rc, ll2)" by force
  obtain rest ll3 where rec: "decodeSteps k m (g + 1) ll2 = (rest, ll3)" by force
  have tr: "ll_trace ll1 = ll_trace ll" "ll_built ll1 = ll_built ll" "ll_trace ll2 = ll_trace ll" "ll_built ll2 = ll_built ll"
    using sm dc by (auto simp: llamaSample_def llamaDecode_def)
  let ?qs = "if piece = [] then [] else [piece]"
  consider "\<not> g < m" | "g < m" "eog" "g = 0" | "g < m" "eog" "g \<noteq> 0" | "g < m" "\<not> eog" "rc \<noteq> 0" | "g < m" "\<not> eog" "rc = 0"
    by blast
  then show thesis
  proof cases
    case 2
    with assms sm have "decodeSteps k m g ll1 = (ps, ll')" by simp
    with tr silent show thesis by blast
  next
    case 5
    with assms sm dc rec have "decodeSteps k m (g + 1) ll2 = (rest, ll')" "ps = ?qs @ rest" by (auto simp: Let_def)
    with tr more [of ll2 rest ?qs] 5 show thesis by simp
  qed (use assms sm dc tr stop in \<open>auto simp: Let_def split: if_splits\<close>)
qed

lemma decodeSteps_spec:
  "decodeSteps k m g ll = (ps, ll') \<Longrightarrow>
   ll_trace ll' = ll_trace ll \<and> ll_built ll' = ll_built ll \<and> int (length ps) \<le> max 0 (m - g) \<and> [] \<notin> set ps"
proof (induction k arbitrary: g ll ps)
  case (Suc k)
  from Suc.prems show ?case
  proof (cases rule: decodeSteps_cases)
    case stop
    then show ?thesis by (auto split: if_splits)
  next
    case (silent ll1)
    with Suc.IH [OF silent(1)] show ?thesis by simp
  next
    case (more qs rest ll2)
    with Suc.IH [OF more(1)] show ?thesis by auto
  qed
qed simp

lemma injectedFault_keeps:
  "injectedFault env E = (fault, E') \<Longrightarrow>
     E' = E\<lparr>ie_faultInjected := ie_faultInjected E'\<rparr> \<and> (ie_faultInjected E \<longrightarrow> ie_faultInjected E' \<and> fault = KNone) \<and>
     (fault \<noteq> KNone \<longrightarrow> ie_faultInjected E') \<and> (fault = KNone \<longrightarrow> E' = E)"
  by (auto simp: injectedFault_def Let_def split: option.splits if_splits)

text \<open>Generating leaves model, context and device as they are.\<close>

lemma generate_spec:
  assumes "generate env prompt (E, ll) = Some (text', E', ll')"
  shows "ll_trace ll' = ll_trace ll \<and> ll_built ll' = ll_built ll \<and>
    E' = E\<lparr>ie_faultInjected := ie_faultInjected E', ie_lastFault := ie_lastFault E', ie_lastFaultDetail := ie_lastFaultDetail E'\<rparr> \<and>
    (ie_faultInjected E \<longrightarrow> ie_faultInjected E')"
proof -
  obtain fault E1 where i: "injectedFault env (clearFault E) = (fault, E1)" by force
  note inj = injectedFault_keeps [OF i]
  obtain tokens ll1 where t: "tokenize ll = (tokens, ll1)" by force
  obtain rc ll2 where d: "llamaDecode ll1 = (rc, ll2)" by force
  obtain ps ll3 where r: "runDecodeLoop E1 ll2 = (ps, ll3)" by force
  have tr: "ll_trace ll1 = ll_trace ll" "ll_built ll1 = ll_built ll" "ll_trace ll2 = ll_trace ll" "ll_built ll2 = ll_built ll"
    using t d by (auto simp: tokenize_def llamaTokenize_def llamaDecode_def split: if_splits prod.splits)
  have "ll_trace ll3 = ll_trace ll" "ll_built ll3 = ll_built ll"
    using r tr decodeSteps_spec by (auto simp: runDecodeLoop_def split: if_splits)
  moreover have "E' = E1 \<or> (\<exists>f dt. E' = recordFault f dt E1)" "ll' \<in> {ll, ll1, ll2, ll3}"
    using assms i t d r by (auto simp: generate_def Let_def split: if_splits)
  ultimately show ?thesis
    using inj tr by (auto simp: recordFault_def clearFault_def)
qed

lemma generateStreaming_spec:
  assumes "generateStreaming env prompt (E, ll) = Some (pieces, E', ll')"
  shows "ll_trace ll' = ll_trace ll \<and> ll_built ll' = ll_built ll \<and>
    E' = E\<lparr>ie_faultInjected := ie_faultInjected E', ie_lastFault := ie_lastFault E', ie_lastFaultDetail := ie_lastFaultDetail E'\<rparr> \<and>
    (ie_faultInjected E \<longrightarrow> ie_faultInjected E')"
proof -
  obtain fault E1 where i: "injectedFault env (clearFault E) = (fault, E1)" by force
  note inj = injectedFault_keeps [OF i]
  obtain tokens ll1 where t: "tokenize ll = (tokens, ll1)" by force
  obtain rc ll2 where d: "llamaDecode ll1 = (rc, ll2)" by force
  obtain ps ll3 where r: "runDecodeLoop E1 ll2 = (ps, ll3)" by force
  show ?thesis
  proof (cases "fault = KNone \<and> \<not> ll_built ll")
    case True
    then obtain answer where "generate env prompt (E1, ll) = Some (answer, E', ll')"
      using assms i by (auto simp: generateStreaming_def)
    from generate_spec [OF this] inj show ?thesis by (auto simp: clearFault_def)
  next
    case False
    have tr: "ll_trace ll1 = ll_trace ll" "ll_built ll1 = ll_built ll" "ll_trace ll2 = ll_trace ll" "ll_built ll2 = ll_built ll"
      using t d by (auto simp: tokenize_def llamaTokenize_def llamaDecode_def split: if_splits prod.splits)
    have "ll_trace ll3 = ll_trace ll" "ll_built ll3 = ll_built ll"
      using r tr decodeSteps_spec by (auto simp: runDecodeLoop_def split: if_splits)
    moreover have "E' = E1 \<or> (\<exists>f dt. E' = recordFault f dt E1)" "ll' \<in> {ll, ll1, ll2, ll3}"
      using assms False i t d r by (auto simp: generateStreaming_def Let_def split: if_splits)
    ultimately show ?thesis
      using inj tr by (auto simp: recordFault_def clearFault_def)
  qed
qed

lemma engine_step_ok:
  assumes "engine_step env (E, ll) (E', ll')" and "engine_ok (E, ll)"
  shows "engine_ok (E', ll') \<and> (ie_deviceInitialized E \<longrightarrow> ie_deviceInitialized E') \<and>
    (ie_faultInjected E \<longrightarrow> ie_faultInjected E')"
  using assms(1)
proof cases
  case (en_init ok)
  have "engine_ok (E, llamaNote LlBackendInit ll)" using assms(2) by (simp add: engine_ok_def llamaNote_def)
  with en_init assms(2) loadModel_spec [of E "llamaNote LlBackendInit ll" ok E' ll'] show ?thesis
    by (auto simp: engineInit_def split: if_splits)
next
  case (en_reload forceCpu ok)
  from reloadOn_spec [OF this assms(2)] show ?thesis by simp
next
  case (en_release ok)
  then have "freeModelAndContext (E, ll) = (E', ll')" by (auto simp: releaseDeviceResources_def split: prod.splits)
  from freeModelAndContext_spec [OF this assms(2)] show ?thesis by simp
next
  case (en_tier tier)
  with assms(2) show ?thesis by (simp add: engine_ok_def setExecutingTier_def)
next
  case (en_generate prompt text')
  from generate_spec [OF this] assms(2) show ?thesis
    by (cases E; cases E') (simp add: engine_ok_def)
next
  case (en_stream prompt pieces)
  from generateStreaming_spec [OF this] assms(2) show ?thesis
    by (cases E; cases E') (simp add: engine_ok_def)
qed

lemma engine_steps_ok:
  assumes "(engine_step env)\<^sup>*\<^sup>* s s'" and "engine_ok s"
  shows "engine_ok s' \<and> (ie_deviceInitialized (fst s) \<longrightarrow> ie_deviceInitialized (fst s')) \<and>
    (ie_faultInjected (fst s) \<longrightarrow> ie_faultInjected (fst s'))"
  using assms(1)
proof induction
  case (step s1 s2)
  obtain E ll E' ll' where "s1 = (E, ll)" "s2 = (E', ll')" by (meson surj_pair)
  with step engine_step_ok [of env E ll E' ll'] show ?case by simp
qed (use assms(2) in simp)

lemma new_engine_ok: "ll_trace ll = [] \<Longrightarrow> engine_ok (newInferEngine cfg, ll)"
  by (simp add: engine_ok_def newInferEngine_def)

section \<open>What the engine promises\<close>

text \<open>C35: the engine leaks nothing. After any sequence of loads, reloads, releases and generations, with
  loads and contexts failing as they like, exactly the model and the context its two pointers name are
  allocated in llama, and destroying the engine frees them.\<close>

theorem engine_leaks_nothing:
  assumes "(engine_step env)\<^sup>*\<^sup>* (newInferEngine cfg, ll0) (E, ll)" and "ll_trace ll0 = []"
  shows "liveModels (ll_trace ll) = (if ie_model E then 1 else 0) \<and>
    liveContexts (ll_trace ll) = (if ie_ctx E then 1 else 0) \<and>
    liveModels (ll_trace (engineDestroy (E, ll))) = 0 \<and> liveContexts (ll_trace (engineDestroy (E, ll))) = 0"
proof -
  have ok: "engine_ok (E, ll)" using engine_steps_ok [OF assms(1) new_engine_ok [OF assms(2)]] by simp
  obtain E1 ll1 where f: "freeModelAndContext (E, ll) = (E1, ll1)" by force
  note fs = freeModelAndContext_spec [OF f ok]
  have "engineDestroy (E, ll) = (if ll_built ll1 then llamaNote LlBackendFree ll1 else ll1)"
    using f by (simp add: engineDestroy_def)
  with fs(1,2) ok show ?thesis by (simp add: engine_ok_def llamaNote_def)
qed

text \<open>A run: the GPU load fails, the retry on the CPU succeeds, then the engine is reloaded on the CPU.\<close>

definition demoLlama :: llama_os where
  "demoLlama = \<lparr>ll_built = True, ll_loads = [False, True, True], ll_contexts = [True, False],
     ll_tokenize = [(-2, 2)], ll_decode = [0, 0], ll_samples = [(False, ''hi''), (True, [])], ll_trace = []\<rparr>"

definition demoEngine :: engine_state where
  "demoEngine = snd (engineInit (newInferEngine (defaultInferConfig\<lparr>ic_modelPath := ''/m''\<rparr>), demoLlama))"

lemmas demo_engine_defs = demoEngine_def demoLlama_def engineInit_def loadModel_def newInferEngine_def
  defaultInferConfig_def llama_calls Let_def

lemma demo_engine_step: "engine_step env (newInferEngine (defaultInferConfig\<lparr>ic_modelPath := ''/m''\<rparr>), demoLlama) demoEngine"
  unfolding demoEngine_def by (rule engine_step.en_init) (simp_all add: newInferEngine_def prod_eq_iff)

theorem engine_leaks_nothing_witness:
  "liveModels (ll_trace (snd demoEngine)) = 1 \<and> liveModels (ll_trace (engineDestroy demoEngine)) = 0"
proof -
  have "(engine_step Map.empty)\<^sup>*\<^sup>* (newInferEngine (defaultInferConfig\<lparr>ic_modelPath := ''/m''\<rparr>), demoLlama)
      (fst demoEngine, snd demoEngine)"
    using demo_engine_step by auto
  moreover have "ll_trace demoLlama = []" "ie_model (fst demoEngine)" by (simp_all add: demo_engine_defs)
  ultimately show ?thesis using engine_leaks_nothing [of Map.empty _ demoLlama "fst demoEngine" "snd demoEngine"] by simp
qed

text \<open>C38: a model on the GPU is never moved to the CPU in place. Whatever an engine has been through, when it
  holds a model with GPU layers, the device counts as touched, and it stays touched through every further
  reload and release; so a fall from any accelerator to the CPU asks for a fresh process unless re-exec is
  turned off.\<close>

theorem gpu_model_forces_reexec:
  assumes "(engine_step env)\<^sup>*\<^sup>* (newInferEngine cfg, ll0) s" and "ll_trace ll0 = []"
    and "ie_model (fst s)" and "isUsingGPU (fst s)" and "(engine_step env)\<^sup>*\<^sup>* s s'" and "previous \<noteq> ''cpu''"
  shows "deviceFallbackAction (deviceResourcesResident (fst s')) previous ''cpu'' True = KReexecAsCpu"
proof -
  have "engine_ok s" using engine_steps_ok [OF assms(1) new_engine_ok [OF assms(2)]] by simp
  then have "engine_ok s \<and> ie_deviceInitialized (fst s)"
    using assms(3,4) by (cases s) (simp add: engine_ok_def isUsingGPU_def)
  then have "ie_deviceInitialized (fst s')" using engine_steps_ok [OF assms(5)] by blast
  then show ?thesis
    using assms(6) by (simp add: deviceFallbackAction_def requiresProcessRestartForCpuOnly_def deviceResourcesResident_def)
qed

definition demoGpuEngine :: engine_state where
  "demoGpuEngine = snd (engineInit (newInferEngine (defaultInferConfig\<lparr>ic_modelPath := ''/m''\<rparr>), demoLlama\<lparr>ll_loads := [True]\<rparr>))"

theorem gpu_model_forces_reexec_witness:
  "deviceFallbackAction (deviceResourcesResident (fst (snd (reloadOn True demoGpuEngine)))) ''cuda'' ''cpu'' True = KReexecAsCpu"
proof -
  let ?new = "newInferEngine (defaultInferConfig\<lparr>ic_modelPath := ''/m''\<rparr>)" and ?ll = "demoLlama\<lparr>ll_loads := [True]\<rparr>"
  have "engine_step Map.empty (?new, ?ll) demoGpuEngine"
    unfolding demoGpuEngine_def by (rule engine_step.en_init) (simp_all add: newInferEngine_def prod_eq_iff)
  then have 1: "(engine_step Map.empty)\<^sup>*\<^sup>* (?new, ?ll) demoGpuEngine" by blast
  have 2: "(engine_step Map.empty)\<^sup>*\<^sup>* demoGpuEngine (snd (reloadOn True demoGpuEngine))"
    using engine_step.en_reload [of True demoGpuEngine] by (metis prod.collapse r_into_rtranclp)
  have 3: "ll_trace ?ll = []" "ie_model (fst demoGpuEngine)" "isUsingGPU (fst demoGpuEngine)"
    by (simp_all add: demoGpuEngine_def demo_engine_defs isUsingGPU_def)
  show ?thesis by (rule gpu_model_forces_reexec [OF 1 3 2]) simp
qed

text \<open>A CPU reload stays off the GPU. \<^verbatim>\<open>reloadOn(true)\<close> never marks the device as touched, every load it
  asks llama for has no GPU layers, and afterwards the engine does not claim the GPU.\<close>

theorem cpu_reload_stays_off_gpu:
  assumes "reloadOn True (E, ll) = (ok, E', ll')"
  shows "deviceResourcesResident E' = deviceResourcesResident E \<and> \<not> isUsingGPU E' \<and>
    (\<exists>es. ll_trace ll' = es @ ll_trace ll \<and> list_all (\<lambda>e. case e of LlLoad path layers b \<Rightarrow> layers = 0 | _ \<Rightarrow> True) es)"
proof -
  obtain E1 ll1 where f: "freeModelAndContext (E, ll) = (E1, ll1)" by force
  then have 1: "ie_deviceInitialized E1 = ie_deviceInitialized E"
    "\<exists>es. ll_trace ll1 = es @ ll_trace ll \<and> list_all (\<lambda>e. case e of LlLoad path layers b \<Rightarrow> layers = 0 | _ \<Rightarrow> True) es"
    by (auto simp: freeModelAndContext_def llamaNote_def Let_def split: if_splits)
  let ?E = "clearFault (E1\<lparr>ie_cfg := (ie_cfg E1)\<lparr>ic_forceCpu := True\<rparr>, ie_gpuOk := False\<rparr>)"
  have E: "\<not> ie_gpuOk ?E" "ie_deviceInitialized ?E = ie_deviceInitialized E" using 1 by (simp_all add: clearFault_def)
  have load: "ie_deviceInitialized F' = ie_deviceInitialized ?E \<and> \<not> ie_gpuOk F' \<and>
      (\<exists>es. ll_trace m' = es @ ll_trace ll1 \<and> list_all (\<lambda>e. case e of LlLoad path layers b \<Rightarrow> layers = 0 | _ \<Rightarrow> True) es)"
    if "loadModel (?E, ll1) = (b, F', m')" for b F' m'
    using that by (auto simp: loadModel_def llama_calls clearFault_def Let_def split: if_splits)
  have run: "(ok, E', ll') = (if ll_built ll1 then loadModel (?E, ll1) else (True, ?E, ll1))"
    using assms f by (auto simp: reloadOn_def Let_def)
  show ?thesis
  proof (cases "ll_built ll1")
    case True
    with run have "loadModel (?E, ll1) = (ok, E', ll')" by simp
    from load [OF this] 1 E(2) show ?thesis
      by (auto simp: deviceResourcesResident_def isUsingGPU_def)
  next
    case False
    with run 1 E show ?thesis by (auto simp: deviceResourcesResident_def isUsingGPU_def)
  qed
qed

theorem cpu_reload_stays_off_gpu_witness:
  "\<not> isUsingGPU (fst (snd (reloadOn True demoEngine)))"
proof -
  obtain ok E ll where r: "reloadOn True (fst demoEngine, snd demoEngine) = (ok, E, ll)" by (metis prod_cases3)
  from cpu_reload_stays_off_gpu [OF this] r show ?thesis by simp
qed

text \<open>Generation is bounded and clean. However the sampler behaves, the decode loop hands out at most
  \<^verbatim>\<open>maxTokens\<close> pieces and none of them is empty; it returns even when the model never ends its answer or
  only ever samples end tokens.\<close>

theorem decode_loop_bounded:
  "let (pieces, ll') = runDecodeLoop E ll in
     int (length pieces) \<le> max 0 (ic_maxTokens (ie_cfg E)) \<and> [] \<notin> set pieces \<and> ll_trace ll' = ll_trace ll"
proof -
  obtain pieces ll' where r: "runDecodeLoop E ll = (pieces, ll')" by force
  then show ?thesis
    using decodeSteps_spec [of "nat (ic_maxTokens (ie_cfg E) * 4)" "ic_maxTokens (ie_cfg E)" 0 ll pieces ll']
    by (auto simp: runDecodeLoop_def split: if_splits)
qed

lemma injected_again: "injectedFault env (clearFault E) = (KNone, E1) \<Longrightarrow> injectedFault env (clearFault E1) = (KNone, E1)"
  using injectedFault_keeps [of env "clearFault E" KNone E1] by (simp add: clearFault_def)


lemma demo_generate: "\<exists>E' ll'. generate Map.empty ''q'' demoEngine = Some (''hi'', E', ll') \<and> ie_lastFault E' = KNone"
  by (simp add: demo_engine_defs generate_def injectedFault_def clearFault_def tokenize_def llamaTokenize_def
      llamaDecode_def runDecodeLoop_def llamaSample_def numeral_eq_Suc)


text \<open>Streaming hides a device fault. When the first decode of a loaded engine fails, \<^verbatim>\<open>generate\<close> records a
  runtime fault, but \<^verbatim>\<open>generateStreaming\<close> hands the error text to the client as if the model had said it and
  ends without any fault, so nothing above it can fall back.\<close>

theorem streaming_hides_decode_failure:
  assumes "injectedFault env (clearFault E) = (KNone, E1)" and "ll_built ll" and "ie_model E"
    and "tokenize ll = (tokens, ll1)" and "tokens \<noteq> 0" and "llamaDecode ll1 = (rc, ll2)" and "rc \<noteq> 0"
  shows "map_option (\<lambda>(text', E', ll'). ie_lastFault E') (generate env prompt (E, ll)) = Some KRuntimeError \<and>
    map_option (\<lambda>(pieces, E', ll'). (pieces, ie_lastFault E')) (generateStreaming env prompt (E, ll)) =
      Some ([''[error: prompt eval failed]''], KNone)"
proof -
  have "E1 = clearFault E" using injectedFault_keeps [OF assms(1)] by simp
  then have "ie_model E1" "ie_lastFault E1 = KNone" using assms(3) by (simp_all add: clearFault_def)
  with assms show ?thesis by (simp add: generate_def generateStreaming_def recordFault_def Let_def)
qed

theorem streaming_hides_decode_failure_witness:
  "map_option fst (generateStreaming Map.empty ''q'' (fst demoEngine, snd demoEngine\<lparr>ll_decode := [2]\<rparr>)) =
     Some [''[error: prompt eval failed]'']"
proof -
  let ?ll = "snd demoEngine\<lparr>ll_decode := [2]\<rparr>"
  have "injectedFault Map.empty (clearFault (fst demoEngine)) = (KNone, clearFault (fst demoEngine))"
    by (simp add: injectedFault_def)
  moreover have "ll_built ?ll" "ie_model (fst demoEngine)" "\<exists>ll1. tokenize ?ll = (2, ll1) \<and> fst (llamaDecode ll1) = 2"
    by (simp_all add: demo_engine_defs tokenize_def llamaTokenize_def llamaDecode_def)
  ultimately obtain ll1 ll2 where "tokenize ?ll = (2, ll1)" "llamaDecode ll1 = (2, ll2)" by (metis prod.collapse)
  from streaming_hides_decode_failure [OF \<open>injectedFault _ _ = _\<close> \<open>ll_built ?ll\<close> \<open>ie_model _\<close> this(1) _ this(2), of "''q''"]
  show ?thesis by (cases "generateStreaming Map.empty ''q'' (fst demoEngine, ?ll)") auto
qed

end
