(* ===== verification/Remote_Transport.thy ===== *)
theory Remote_Transport
  imports Crash_Control Ipc
begin

text \<open>
  \<^verbatim>\<open>backend/inference-worker/remoteTransport.*\<close>: the one-line JSON contract with the Node child that
  calls the cloud API, and the bounded run of that child. A string is a list of bytes. What the pipes
  and the child do is a list of events, one per turn of the poll loop, each with the clock reading the
  turn starts with.
\<close>

unbundle bit_operations_syntax

section \<open>Environment\<close>

definition envOr :: "environ \<Rightarrow> string \<Rightarrow> string \<Rightarrow> string" where
  "envOr env name fallback = (case env name of None \<Rightarrow> fallback | Some v \<Rightarrow> if v = [] then fallback else v)"

definition envNumber :: "environ \<Rightarrow> string \<Rightarrow> int \<Rightarrow> int" where
  "envNumber env name fallback =
     (let raw = envOr env name [] in
      if raw = [] then fallback
      else case scan_int raw of
        None \<Rightarrow> fallback
      | Some nv \<Rightarrow>
          let value = signed_val nv in
          if \<not> in_int64 value \<or> value \<le> 0 then fallback else value)"

section \<open>Escaping\<close>

definition hex_digit :: "nat \<Rightarrow> char" where
  "hex_digit n = ''0123456789abcdef'' ! n"

definition hex4 :: "nat \<Rightarrow> string" where
  "hex4 n = [hex_digit (n div 4096 mod 16), hex_digit (n div 256 mod 16), hex_digit (n div 16 mod 16), hex_digit (n mod 16)]"

definition remEscapeChar :: "char \<Rightarrow> string" where
  "remEscapeChar ch =
     (if ch = bslash then [bslash, bslash]
      else if ch = dquote then [bslash, dquote]
      else if ch = newline then [bslash, CHR ''n'']
      else if ch = creturn then [bslash, CHR ''r'']
      else if ch = htab then [bslash, CHR ''t'']
      else if (of_char ch :: nat) < 32 then [bslash, CHR ''u''] @ hex4 (of_char ch)
      else [ch])"

definition remJsonEscape :: "string \<Rightarrow> string" where
  "remJsonEscape input = concat (map remEscapeChar input)"

text \<open>The UTF-8 bytes of a code point.\<close>

definition codePointBytes :: "nat \<Rightarrow> string" where
  "codePointBytes cp =
     (if cp < 128 then [char_of cp]
      else if cp < 2048 then [char_of (192 OR drop_bit 6 cp), char_of (128 OR (cp AND 63))]
      else if cp < 65536 then
        [char_of (224 OR drop_bit 12 cp), char_of (128 OR (drop_bit 6 cp AND 63)), char_of (128 OR (cp AND 63))]
      else
        [char_of (240 OR drop_bit 18 cp), char_of (128 OR (drop_bit 12 cp AND 63)),
         char_of (128 OR (drop_bit 6 cp AND 63)), char_of (128 OR (cp AND 63))])"

definition hexVal :: "char \<Rightarrow> nat option" where
  "hexVal ch =
     (let k = of_char ch :: nat in
      if 48 \<le> k \<and> k \<le> 57 then Some (k - 48)
      else if 97 \<le> k \<and> k \<le> 102 then Some (k - 97 + 10)
      else if 65 \<le> k \<and> k \<le> 70 then Some (k - 65 + 10)
      else None)"

fun readHexDigits :: "nat \<Rightarrow> string \<Rightarrow> nat \<Rightarrow> nat option" where
  "readHexDigits 0 s out = Some out"
| "readHexDigits (Suc n) [] out = None"
| "readHexDigits (Suc n) (ch # cs) out =
     (case hexVal ch of None \<Rightarrow> None | Some v \<Rightarrow> readHexDigits n cs (push_bit 4 out OR v))"

text \<open>Reading from a position is reading from the rest of the string there.\<close>

definition readHex4 :: "string \<Rightarrow> nat option" where
  "readHex4 s = (if length s < 4 then None else readHexDigits 4 s 0)"

text \<open>The low half of a surrogate pair, if one follows.\<close>

definition lowSurrogate :: "string \<Rightarrow> nat option" where
  "lowSurrogate s =
     (if 6 \<le> length s \<and> s ! 0 = bslash \<and> s ! 1 = CHR ''u''
      then (case readHex4 (drop 2 s) of
              None \<Rightarrow> None
            | Some low \<Rightarrow> if 56320 \<le> low \<and> low \<le> 57343 then Some low else None)
      else None)"

function jsonUnescape :: "string \<Rightarrow> string" where
  "jsonUnescape [] = []"
| "jsonUnescape (c # cs) =
     (if c \<noteq> bslash \<or> cs = [] then c # jsonUnescape cs
      else
        let d = hd cs; ds = tl cs in
        if d = CHR ''n'' then newline # jsonUnescape ds
        else if d = CHR ''r'' then creturn # jsonUnescape ds
        else if d = CHR ''t'' then htab # jsonUnescape ds
        else if d = CHR ''b'' then CHR 0x08 # jsonUnescape ds
        else if d = CHR ''f'' then CHR 0x0C # jsonUnescape ds
        else if d = CHR ''u'' then
          (case readHex4 ds of
             None \<Rightarrow> d # jsonUnescape ds
           | Some cp \<Rightarrow>
               (case (if 55296 \<le> cp \<and> cp \<le> 56319 then lowSurrogate (drop 4 ds) else None) of
                  Some low \<Rightarrow>
                    codePointBytes (65536 + push_bit 10 (cp - 55296) + (low - 56320)) @ jsonUnescape (drop 10 ds)
                | None \<Rightarrow> codePointBytes cp @ jsonUnescape (drop 4 ds)))
        else d # jsonUnescape ds)"
  by pat_completeness auto
termination
  by (relation "measure length") (auto simp: neq_Nil_conv)

section \<open>The two lines\<close>

record RemoteRequest =
  rq_endpoint :: string
  rq_prompt :: string

record RemoteResponse =
  rs_status :: int
  rs_text :: string
  rs_error :: string

definition emptyResponse :: RemoteResponse where
  "emptyResponse = \<lparr>rs_status = 0, rs_text = [], rs_error = []\<rparr>"

definition remExtractString :: "string \<Rightarrow> string \<Rightarrow> string option" where
  "remExtractString json key = map_option jsonUnescape (find_string key json)"

definition extractLong :: "string \<Rightarrow> string \<Rightarrow> int option" where
  "extractLong json key =
     map_option (\<lambda>digits. case strtoll digits of None \<Rightarrow> 0 | Some v \<Rightarrow> v) (find_int_text key json)"

definition buildRemoteRequestJson :: "RemoteRequest \<Rightarrow> string" where
  \<open>buildRemoteRequestJson request =
     ''{"prompt":"'' @ remJsonEscape (rq_prompt request) @ ''","endpoint":"'' @
     remJsonEscape (rq_endpoint request) @ ''"}'' @ [newline]\<close>

text \<open>The last line that holds more than white space, with whatever follows it.\<close>

definition lastLine :: "string \<Rightarrow> string option" where
  "lastLine output =
     (let blank = (\<lambda>c. c \<in> {creturn, newline, CHR '' '', htab});
          n = length (dropWhile blank (rev output))
      in if n = 0 then None
         else let start = length (dropWhile (\<lambda>c. c \<noteq> newline) (rev (take n output)))
           in Some (drop start output))"

text \<open>\<open>None\<close> leaves the caller's response as it was.\<close>

definition parseRemoteResponseJson :: "string \<Rightarrow> RemoteResponse option" where
  "parseRemoteResponseJson output =
     (case lastLine output of
        None \<Rightarrow> None
      | Some line \<Rightarrow>
          (case extractLong line ''status'' of
             None \<Rightarrow> None
           | Some status \<Rightarrow>
               Some \<lparr>rs_status = status,
                 rs_text = (case remExtractString line ''text'' of None \<Rightarrow> [] | Some t \<Rightarrow> t),
                 rs_error = (case remExtractString line ''error'' of None \<Rightarrow> [] | Some e \<Rightarrow> e)\<rparr>))"

section \<open>Running the child\<close>

record ChildResult =
  ch_spawned :: bool
  ch_timedOut :: bool
  ch_exitStatus :: int
  ch_output :: string
  ch_error :: string

definition freshChild :: ChildResult where
  "freshChild = \<lparr>ch_spawned = False, ch_timedOut = False, ch_exitStatus = -1, ch_output = [], ch_error = []\<rparr>"

text \<open>
  What \<^verbatim>\<open>poll\<close> reports of the write end and what the \<^verbatim>\<open>write\<close> then does; the same for the read end. The
  write end is a blocking descriptor: a \<^verbatim>\<open>write\<close> of more than the pipe has room for does not return
  until the child has read, which is \<open>WriteBlocks\<close> when it never does.
\<close>

datatype write_slot = NotWritable | WriteHangup | Wrote nat | WriteRetry | WriteError | WriteBlocks

datatype read_slot = NotReadable | ReadData string | ReadEof | ReadRetry | ReadError

datatype child_event = ChPollInterrupted | ChPollFailed | ChPollNothing | ChReady write_slot read_slot

record transport_os =
  tr_pipes :: bool
  tr_fork :: bool
  tr_start :: int
  tr_events :: "(int \<times> child_event) list"
  tr_status :: nat
  tr_strerror :: string

text \<open>
  One turn: how much has been sent, whether the write end is open. \<open>Inl\<close> leaves the loop. The result
  \<open>None\<close> is a call that has not returned: the events ended, or the write blocks.
\<close>

definition writeTurn :: "string \<Rightarrow> write_slot \<Rightarrow> nat \<times> bool \<Rightarrow> (nat \<times> bool) option" where
  "writeTurn input slot st =
     (let (sent, writeOpen) = st in
      if \<not> writeOpen then Some st
      else case slot of
        NotWritable \<Rightarrow> Some st
      | WriteHangup \<Rightarrow> Some (sent, False)
      | Wrote k \<Rightarrow>
          let sent = sent + min k (length input - sent) in Some (sent, sent < length input)
      | WriteRetry \<Rightarrow> Some (sent, sent < length input)
      | WriteError \<Rightarrow> Some (sent, False)
      | WriteBlocks \<Rightarrow> None)"

fun transportLoop ::
  "int \<Rightarrow> string \<Rightarrow> (int \<times> child_event) list \<Rightarrow> nat \<times> bool \<Rightarrow> string \<Rightarrow> string \<Rightarrow> ChildResult option" where
  "transportLoop deadline input [] st output err = None"
| "transportLoop deadline input ((now, e) # es) st output err =
     (let result = freshChild\<lparr>ch_spawned := True, ch_output := output\<rparr> in
      if deadline - now < 1000000 then Some (result\<lparr>ch_timedOut := True\<rparr>)
      else case e of
        ChPollInterrupted \<Rightarrow> transportLoop deadline input es st output err
      | ChPollFailed \<Rightarrow> Some (result\<lparr>ch_error := ''poll on remote transport failed: '' @ err\<rparr>)
      | ChPollNothing \<Rightarrow> Some (result\<lparr>ch_timedOut := True\<rparr>)
      | ChReady w r \<Rightarrow>
          (case writeTurn input w st of
             None \<Rightarrow> None
           | Some st \<Rightarrow>
               (case r of
                  NotReadable \<Rightarrow> transportLoop deadline input es st output err
                | ReadData bytes \<Rightarrow>
                    if bytes = [] then Some result
                    else transportLoop deadline input es st (output @ bytes) err
                | ReadEof \<Rightarrow> Some result
                | ReadRetry \<Rightarrow> transportLoop deadline input es st output err
                | ReadError \<Rightarrow> Some result)))"

text \<open>
  The child is killed exactly when the run timed out, and is reaped in every case; \<open>tr_status\<close> is what
  that \<^verbatim>\<open>waitpid\<close> reports.
\<close>

definition runTransportChild :: "string \<Rightarrow> int \<Rightarrow> transport_os \<Rightarrow> ChildResult option" where
  "runTransportChild input timeoutMs os =
     (if \<not> tr_pipes os then
        Some (freshChild\<lparr>ch_error := ''pipe for remote transport failed: '' @ tr_strerror os\<rparr>)
      else if \<not> tr_fork os then
        Some (freshChild\<lparr>ch_error := ''fork for remote transport failed: '' @ tr_strerror os\<rparr>)
      else map_option
        (\<lambda>result. result\<lparr>ch_exitStatus :=
           (if wIfExited (tr_status os) then int (wExitStatus (tr_status os)) else -1)\<rparr>)
        (transportLoop (tr_start os + max 0 timeoutMs * 1000000) input (tr_events os) (0, True) [] (tr_strerror os)))"

record TransportConfig =
  tc_binary :: string
  tc_script :: string
  tc_childTimeoutMs :: int

definition makeRemoteTransport :: "environ \<Rightarrow> TransportConfig option" where
  "makeRemoteTransport env =
     (if envOr env ''EDGE_SARVAM_API_KEY'' [] = [] then None
      else Some \<lparr>tc_binary = envOr env ''EDGE_NODE_BIN'' ''node'',
        tc_script = envOr env ''EDGE_REMOTE_TRANSPORT_SCRIPT'' ''./backend/remote/sarvamTransport.js'',
        tc_childTimeoutMs = to_int32 (envNumber env ''EDGE_REMOTE_TIMEOUT_MS'' 30000) + 1000\<rparr>)"

text \<open>The call of the transport.\<close>

definition callTransport :: "TransportConfig \<Rightarrow> RemoteRequest \<Rightarrow> transport_os \<Rightarrow> RemoteResponse option" where
  "callTransport cfg request os =
     (case runTransportChild (buildRemoteRequestJson request) (tc_childTimeoutMs cfg) os of
        None \<Rightarrow> None
      | Some child \<Rightarrow> Some
          (if \<not> ch_spawned child then emptyResponse\<lparr>rs_error := ch_error child\<rparr>
           else if ch_timedOut child then
             emptyResponse\<lparr>rs_status := 504,
               rs_error := ''remote transport child exceeded '' @ int_str (tc_childTimeoutMs cfg) @
                 ''ms and was killed''\<rparr>
           else case parseRemoteResponseJson (ch_output child) of
             None \<Rightarrow>
               emptyResponse\<lparr>rs_error :=
                 (if ch_exitStatus child = 0 then ''remote transport child emitted no readable response line''
                  else ''remote transport child exited '' @ int_str (ch_exitStatus child) @
                    '' without a response line'')\<rparr>
           | Some response \<Rightarrow> response))"

section \<open>Escape and unescape\<close>

lemma hexVal_digit [simp]: "n < 16 \<Longrightarrow> hexVal (hex_digit n) = Some n"
proof -
  assume "n < 16"
  then have "n \<in> set [0..<16]" by simp
  moreover have "list_all (\<lambda>n. hexVal (hex_digit n) = Some n) [0..<16]" by code_simp
  ultimately show ?thesis by (simp add: list_all_iff)
qed

lemma hex_digit_plain: "n < 16 \<Longrightarrow> hex_digit n \<notin> {bslash, dquote, newline, creturn}"
proof -
  assume "n < 16"
  then have "n \<in> set [0..<16]" by simp
  moreover have "list_all (\<lambda>n. hex_digit n \<notin> {bslash, dquote, newline, creturn}) [0..<16]" by code_simp
  ultimately show ?thesis unfolding list_all_iff by blast
qed

lemma nibble: "v < 16 \<Longrightarrow> push_bit 4 n OR v = 16 * n + (v :: nat)"
proof -
  assume v: "v < 16"
  have "\<not> bit v k" if "4 \<le> k" for k
  proof -
    have "v < 2 ^ k" using v power_increasing [OF that, of "2 :: nat"] by simp
    then show ?thesis by (simp add: bit_iff_odd)
  qed
  then have "push_bit 4 n + v = push_bit 4 n OR v"
    by (intro disjunctive_add) (auto simp: bit_push_bit_iff not_le)
  then show ?thesis by (simp add: push_bit_eq_mult)
qed

lemma readHex4_Cons: "readHex4 (a # b # c # d # r) = readHexDigits (Suc (Suc (Suc (Suc 0)))) (a # b # c # d # r) 0"
  by (simp add: readHex4_def numeral_eq_Suc)

lemma readHex4_digits:
  assumes "a < 16" "b < 16" "c < 16" "d < 16"
  shows "readHex4 (hex_digit a # hex_digit b # hex_digit c # hex_digit d # r) = Some (16 * (16 * (16 * a + b) + c) + d)"
  using assms nibble [of a 0] nibble [of b a] nibble [of c "16 * a + b"] nibble [of d "16 * (16 * a + b) + c"]
  by (simp add: readHex4_Cons)

lemma readHex4_hex4 [simp]: "n < 65536 \<Longrightarrow> readHex4 (hex4 n @ r) = Some n"
proof -
  assume "n < 65536"
  then have top: "n div 4096 mod 16 = n div 4096" "n div 4096 < 16" by simp_all
  have "n div 256 = n div 16 div 16" "n div 4096 = n div 16 div 16 div 16"
    by (simp_all flip: div_mult2_eq)
  then have "16 * (16 * (16 * (n div 4096) + n div 256 mod 16) + n div 16 mod 16) + n mod 16 = n"
    by (simp only: mult_div_mod_eq)
  with top show ?thesis
    unfolding hex4_def using readHex4_digits [of "n div 4096 mod 16" "n div 256 mod 16" "n div 16 mod 16" "n mod 16" r]
    by (simp only: append_Cons append_Nil pos_mod_bound mod_less_divisor zero_less_numeral)
qed

lemma unescape_plain [simp]: "c \<noteq> bslash \<Longrightarrow> jsonUnescape (c # r) = c # jsonUnescape r"
  by simp

lemma unescape_remEscapeChar: "jsonUnescape (remEscapeChar c @ r) = c # jsonUnescape r"
proof -
  consider "c \<in> {bslash, dquote, newline, creturn, htab}" | "c \<notin> {bslash, dquote, newline, creturn, htab}" "(of_char c :: nat) < 32"
    | "c \<notin> {bslash, dquote, newline, creturn, htab}" "\<not> (of_char c :: nat) < 32" by blast
  then show ?thesis
  proof cases
    case 1
    then show ?thesis by (auto simp: remEscapeChar_def)
  next
    case 2
    then have "readHex4 (hex4 (of_char c) @ r) = Some (of_char c)" "drop 4 (hex4 (of_char c) @ r) = r"
      using readHex4_hex4 [of "of_char c" r] by (simp_all add: hex4_def)
    with 2 show ?thesis by (simp add: remEscapeChar_def codePointBytes_def)
  next
    case 3
    then show ?thesis by (simp add: remEscapeChar_def)
  qed
qed

lemma unescape_remJsonEscape: "jsonUnescape (remJsonEscape s) = s"
  by (induction s) (simp_all add: remJsonEscape_def unescape_remEscapeChar)

lemma str_body_remJsonEscape: "str_body (remJsonEscape s)"
proof (induction s)
  case (Cons c s)
  have "str_body (remEscapeChar c)"
    by (auto simp: remEscapeChar_def hex4_def hex_digit_plain [simplified])
  with Cons show ?case by (simp add: remJsonEscape_def str_body_append)
qed (simp add: remJsonEscape_def)

interpretation rem: string_codec remJsonEscape jsonUnescape
  by unfold_locales (rule str_body_remJsonEscape, rule unescape_remJsonEscape)

lemma remJsonEscape_printable: "c \<in> set (remJsonEscape s) \<Longrightarrow> 32 \<le> (of_char c :: nat)"
proof -
  have hex: "32 \<le> (of_char (hex_digit n) :: nat)" if "n < 16" for n
  proof -
    have "n \<in> set [0..<16]" using that by simp
    moreover have "list_all (\<lambda>n. 32 \<le> (of_char (hex_digit n) :: nat)) [0..<16]" by code_simp
    ultimately show ?thesis by (simp only: list_all_iff)
  qed
  assume "c \<in> set (remJsonEscape s)"
  then obtain d where "c \<in> set (remEscapeChar d)" by (auto simp: remJsonEscape_def)
  then show ?thesis by (auto simp: remEscapeChar_def hex4_def hex split: if_splits)
qed

section \<open>What the contract promises\<close>

text \<open>The request line is one line and loses nothing. Whatever bytes the prompt and the endpoint hold,
  line ends, quotes and control characters included, the line the worker writes to the child has its only
  line end at its end and no other control character, and a JSON reader gets back both strings.\<close>

theorem remote_request_roundtrip:
  "let line = buildRemoteRequestJson request in
     last line = newline \<and> list_all (\<lambda>c. 32 \<le> (of_char c :: nat)) (butlast line) \<and>
     remExtractString line ''prompt'' = Some (rq_prompt request) \<and>
     remExtractString line ''endpoint'' = Some (rq_endpoint request)"
proof -
  let ?line = "buildRemoteRequestJson request"
  have "find_string ''prompt'' ?line = Some (remJsonEscape (rq_prompt request))"
    using find_string_here [of "remJsonEscape (rq_prompt request)" "''prompt''"]
    by (simp add: buildRemoteRequestJson_def find_string_def str_body_remJsonEscape)
  moreover have "find_string ''endpoint'' ?line = Some (remJsonEscape (rq_endpoint request))"
    using find_string_here [of "remJsonEscape (rq_endpoint request)" "''endpoint''"]
    by (simp add: buildRemoteRequestJson_def find_string_def re_search_other_key rem.skip_field
        str_body_remJsonEscape plain_key_def closes_value_def is_space_def)
  moreover have \<open>butlast ?line = ''{"prompt":"'' @ remJsonEscape (rq_prompt request) @ ''","endpoint":"'' @
      remJsonEscape (rq_endpoint request) @ ''"}''\<close> "last ?line = newline"
    by (simp_all add: buildRemoteRequestJson_def butlast_append)
  ultimately show ?thesis
    by (simp add: Let_def remExtractString_def unescape_remJsonEscape list_all_iff ball_Un)
      (blast dest: remJsonEscape_printable)
qed

lemma lastLine_append:
  assumes "noise = [] \<or> last noise = newline" and "body \<noteq> []" and "list_all (\<lambda>c. c \<noteq> newline) body"
    and "last body \<notin> {creturn, CHR '' '', htab}"
  shows "lastLine (noise @ body @ [newline]) = Some (body @ [newline])"
proof -
  let ?blank = "\<lambda>c. c \<in> {creturn, newline, CHR '' '', htab}"
  obtain b c where body: "body = b @ [c]" using assms(2) by (cases body rule: rev_exhaust) auto
  have "c \<noteq> newline" "\<not> ?blank c" using assms(3,4) body by (simp_all add: list_all_iff)
  then have "length (dropWhile ?blank (rev (noise @ body @ [newline]))) = length (noise @ body)"
    by (simp add: body)
  moreover have "dropWhile (\<lambda>c. c \<noteq> newline) (rev (noise @ body)) = rev noise"
  proof -
    have "dropWhile (\<lambda>c. c \<noteq> newline) (rev body @ rev noise) = dropWhile (\<lambda>c. c \<noteq> newline) (rev noise)"
      using assms(3) by (intro dropWhile_append2) (simp add: list_all_iff)
    moreover have "dropWhile (\<lambda>c. c \<noteq> newline) (rev noise) = rev noise"
      using assms(1) by (cases noise rule: rev_exhaust) simp_all
    ultimately show ?thesis by simp
  qed
  ultimately show ?thesis using assms(2) unfolding lastLine_def Let_def by simp
qed

lemma find_int_here:
  assumes "r = [] \<or> \<not> is_digit (hd r)"
  shows "re_search (match_field key val_int_text) (dquote # key @ dquote # CHR '':'' # int_str i @ r) = Some (int_str i)"
proof -
  have digits: "val_digits (nat_str n @ r) = Some (nat_str n)" for n
  proof -
    have "takeWhile is_digit (nat_str n @ r) = nat_str n"
      using nat_str_digits assms by (intro takeWhile_stop) auto
    then show ?thesis by (simp add: val_digits_def)
  qed
  obtain c cs where n: "nat_str (nat i) = c # cs" by (cases "nat_str (nat i)") auto
  then have c: "is_digit c" using nat_str_digits [of "nat i"] by auto
  then have "\<not> is_space c" "c \<noteq> CHR ''-''" using digit_not_space by (auto simp: is_digit_def)
  then show ?thesis
    using digits [of "nat i"] digits [of "nat (- i)"] n
    by (intro re_search_hit) (auto simp: match_field_def match_key_here val_int_text_def int_str_def is_space_def)
qed

text \<open>A response line as the child prints it.\<close>

definition responseLine :: "RemoteResponse \<Rightarrow> string" where
  \<open>responseLine r = ''{"status":'' @ int_str (rs_status r) @ '',"text":"'' @ remJsonEscape (rs_text r) @
     ''","error":"'' @ remJsonEscape (rs_error r) @ ''"}'' @ [newline]\<close>

lemma responseLine_shape: "responseLine r = butlast (responseLine r) @ [newline]"
  "butlast (responseLine r) \<noteq> []" "last (butlast (responseLine r)) = CHR ''}''"
  by (simp_all add: responseLine_def butlast_append)

lemma responseLine_printable: "list_all (\<lambda>c. c \<noteq> newline) (butlast (responseLine r))"
proof -
  have "newline \<notin> set (remJsonEscape s)" for s
    using remJsonEscape_printable [of newline s] by auto
  moreover have "newline \<notin> set (int_str i)" for i
  proof -
    have "\<not> is_digit newline" "newline \<noteq> CHR ''-''" by (simp_all add: is_digit_def)
    then show ?thesis using nat_str_digits by (auto simp: int_str_def)
  qed
  ultimately show ?thesis by (auto simp: responseLine_def butlast_append list_all_iff)
qed

text \<open>The last line wins and loses nothing. Whatever complete lines a child prints before it, a response
  line gives back the status, the text and the error it was printed from.\<close>

theorem remote_response_roundtrip:
  assumes "in_int64 (rs_status r)" and "noise = [] \<or> last noise = newline"
  shows "parseRemoteResponseJson (noise @ responseLine r) = Some r"
proof -
  let ?line = "responseLine r"
  have last: "lastLine (noise @ ?line) = Some ?line"
  proof -
    have "last (butlast ?line) \<notin> {creturn, CHR '' '', htab}" unfolding responseLine_shape(3) by simp
    from lastLine_append [OF assms(2) responseLine_shape(2) responseLine_printable this]
    show ?thesis using responseLine_shape(1) by metis
  qed
  have "find_string ''text'' ?line = Some (remJsonEscape (rs_text r))"
    using find_string_here [of "remJsonEscape (rs_text r)" "''text''"]
    by (simp add: responseLine_def find_string_def re_search_other_key rem.skip_field
        str_body_remJsonEscape plain_key_def closes_value_def is_space_def)
  moreover have "find_string ''error'' ?line = Some (remJsonEscape (rs_error r))"
    using find_string_here [of "remJsonEscape (rs_error r)" "''error''"]
    by (simp add: responseLine_def find_string_def re_search_other_key rem.skip_field
        str_body_remJsonEscape plain_key_def closes_value_def is_space_def)
  moreover have "extractLong ?line ''status'' = Some (rs_status r)"
    using find_int_here [where key = "''status''" and i = "rs_status r"] strtoll_int_str [OF assms(1), of "[]"]
    by (simp add: extractLong_def responseLine_def find_int_text_def is_digit_def)
  ultimately show ?thesis
    by (simp add: parseRemoteResponseJson_def last remExtractString_def unescape_remJsonEscape)
qed

theorem remote_response_roundtrip_witness:
  "parseRemoteResponseJson (''x'' @ [newline] @ responseLine \<lparr>rs_status = 200, rs_text = [bslash, newline, CHR 0x01], rs_error = []\<rparr>)
    = Some \<lparr>rs_status = 200, rs_text = [bslash, newline, CHR 0x01], rs_error = []\<rparr>"
  using remote_response_roundtrip [of "\<lparr>rs_status = 200, rs_text = [bslash, newline, CHR 0x01], rs_error = []\<rparr>" "''x'' @ [newline]"]
  by (simp add: in_int64_def)

text \<open>A success is the child's own. A call that comes back with a status in the 200s was answered by a
  child that was started and whose output ended before the deadline, and the answer is what that output
  parses to; no failure to start, time out or answer is ever taken for a success.\<close>

theorem remote_success_is_reported_by_child:
  assumes "callTransport cfg request os = Some response"
    and "200 \<le> rs_status response" and "rs_status response < 300"
  shows "tr_pipes os \<and> tr_fork os \<and>
    (\<exists>child. runTransportChild (buildRemoteRequestJson request) (tc_childTimeoutMs cfg) os = Some child \<and>
       \<not> ch_timedOut child \<and> parseRemoteResponseJson (ch_output child) = Some response)"
proof -
  obtain child where c: "runTransportChild (buildRemoteRequestJson request) (tc_childTimeoutMs cfg) os = Some child"
    using assms(1) by (auto simp: callTransport_def split: option.splits)
  then have "ch_spawned child \<and> \<not> ch_timedOut child \<and> parseRemoteResponseJson (ch_output child) = Some response"
    using assms by (auto simp: callTransport_def emptyResponse_def split: if_splits option.splits)
  moreover from this c have "tr_pipes os \<and> tr_fork os"
    by (auto simp: runTransportChild_def freshChild_def split: if_splits)
  ultimately show ?thesis using c by blast
qed

text \<open>A call whose child answers at once.\<close>

definition demoTransport :: TransportConfig where
  "demoTransport = \<lparr>tc_binary = ''node'', tc_script = ''s.js'', tc_childTimeoutMs = 31000\<rparr>"

definition demoAnswer :: RemoteResponse where
  "demoAnswer = \<lparr>rs_status = 200, rs_text = ''hi'', rs_error = []\<rparr>"

definition demoTransportOs :: "(int \<times> child_event) list \<Rightarrow> transport_os" where
  "demoTransportOs es = \<lparr>tr_pipes = True, tr_fork = True, tr_start = 0, tr_events = es, tr_status = 0, tr_strerror = []\<rparr>"

lemma demo_answer: "parseRemoteResponseJson (responseLine demoAnswer) = Some demoAnswer" "responseLine demoAnswer \<noteq> []"
  by (code_simp, simp add: responseLine_def)

lemma demo_call:
  "callTransport demoTransport \<lparr>rq_endpoint = [], rq_prompt = ''p''\<rparr>
     (demoTransportOs [(0, ChReady (Wrote 99) (ReadData (responseLine demoAnswer))), (1, ChReady NotWritable ReadEof)])
   = Some demoAnswer"
  by (simp add: callTransport_def runTransportChild_def demoTransport_def demoTransportOs_def writeTurn_def
      freshChild_def demo_answer Let_def)

theorem remote_success_is_reported_by_child_witness:
  "\<exists>child :: ChildResult. \<not> ch_timedOut child \<and> parseRemoteResponseJson (ch_output child) = Some demoAnswer"
proof -
  have "200 \<le> rs_status demoAnswer" "rs_status demoAnswer < 300" by (simp_all add: demoAnswer_def)
  from remote_success_is_reported_by_child [OF demo_call this] show ?thesis by blast
qed

lemma transportLoop_returns:
  assumes "list_ex (\<lambda>(now, e). deadline - now < 1000000) es"
    and "list_all (\<lambda>(now, e). case e of ChReady w r \<Rightarrow> w \<noteq> WriteBlocks | _ \<Rightarrow> True) es"
  shows "\<exists>result. transportLoop deadline input es st out err = Some result"
  using assms
proof (induction es arbitrary: st out)
  case (Cons ev es)
  obtain now e where ev: "ev = (now, e)" by force
  show ?case
  proof (cases "deadline - now < 1000000")
    case True
    with ev show ?thesis by simp
  next
    case False
    then have IH: "\<exists>result. transportLoop deadline input es st out err = Some result" for st out
      using Cons ev by simp
    show ?thesis
    proof (cases e)
      case (ChReady w r)
      then have "w \<noteq> WriteBlocks" using Cons.prems(2) ev by simp
      then have "writeTurn input w st \<noteq> None"
        by (cases w) (auto simp: writeTurn_def Let_def split: prod.split)
      then obtain st' where "writeTurn input w st = Some st'" by blast
      with False ev ChReady IH show ?thesis by (cases r) auto
    qed (use False ev IH in auto)
  qed
qed simp

text \<open>The call is bounded when the pipe is. If no write blocks, then as soon as the poll loop reads the
  clock at or past the deadline the call has returned, whatever the child did before: it cannot hold the
  worker by staying silent, by answering in drops, or by never reading.\<close>

theorem transport_call_returns:
  assumes "list_ex (\<lambda>(now, e). tr_start os + max 0 (tc_childTimeoutMs cfg) * 1000000 \<le> now) (tr_events os)"
    and "list_all (\<lambda>(now, e). case e of ChReady w r \<Rightarrow> w \<noteq> WriteBlocks | _ \<Rightarrow> True) (tr_events os)"
  shows "\<exists>response. callTransport cfg request os = Some response"
proof -
  let ?d = "tr_start os + max 0 (tc_childTimeoutMs cfg) * 1000000"
  have "list_ex (\<lambda>(now, e). ?d - now < 1000000) (tr_events os)"
  proof -
    obtain now e where "(now, e) \<in> set (tr_events os)" "?d \<le> now" using assms(1) by (auto simp: list_ex_iff)
    then show ?thesis by (auto simp: list_ex_iff intro!: bexI [of _ "(now, e)"])
  qed
  from transportLoop_returns [OF this assms(2)]
  have "\<exists>child. runTransportChild (buildRemoteRequestJson request) (tc_childTimeoutMs cfg) os = Some child"
    by (auto simp: runTransportChild_def)
  then show ?thesis by (auto simp: callTransport_def)
qed

theorem transport_call_returns_witness:
  "\<exists>response. callTransport demoTransport \<lparr>rq_endpoint = [], rq_prompt = ''p''\<rparr>
     (demoTransportOs [(0, ChReady (Wrote 3) (ReadData ''x'')), (40000000000, ChPollNothing)]) = Some response"
  by (rule transport_call_returns) (simp_all add: demoTransportOs_def demoTransport_def)

text \<open>A blocking write defeats the timeout. The write end is a blocking descriptor, so one \<^verbatim>\<open>write\<close> that
  finds less room than the request needs, to a child that never reads, keeps the call from returning no
  matter how far the clock passes the deadline afterwards.\<close>

theorem blocked_write_never_times_out:
  assumes "tr_pipes os" and "tr_fork os" and "tr_events os = (now, ChReady WriteBlocks r) # later"
    and "now + 1000000 \<le> tr_start os + max 0 (tc_childTimeoutMs cfg) * 1000000"
  shows "callTransport cfg request os = None"
  using assms by (simp add: callTransport_def runTransportChild_def writeTurn_def Let_def)

theorem blocked_write_never_times_out_witness:
  "callTransport demoTransport \<lparr>rq_endpoint = [], rq_prompt = ''p''\<rparr>
     (demoTransportOs [(0, ChReady WriteBlocks NotReadable), (99000000000, ChPollNothing)]) = None"
  by (rule blocked_write_never_times_out [where now = 0]) (simp_all add: demoTransportOs_def demoTransport_def)

text \<open>An astral character survives the trip. The escape that \<^verbatim>\<open>JSON.stringify\<close> writes for a code point
  above the basic plane, two surrogates in four hex digits each, is joined and decoded to the four UTF-8
  bytes of that code point, and decoding goes on right behind it.\<close>

theorem surrogate_pair_decodes:
  assumes "65536 \<le> cp" and "cp < 1114112"
  shows "jsonUnescape ([bslash, CHR ''u''] @ hex4 (55296 + (cp - 65536) div 1024) @
      [bslash, CHR ''u''] @ hex4 (56320 + (cp - 65536) mod 1024) @ r) = codePointBytes cp @ jsonUnescape r"
proof -
  let ?hi = "55296 + (cp - 65536) div 1024" and ?lo = "56320 + (cp - 65536) mod 1024"
  let ?rest = "[bslash, CHR ''u''] @ hex4 ?lo @ r"
  have hi: "?hi \<le> 56319" and lo: "?lo \<le> 57343" using assms by auto
  have "readHex4 (hex4 ?hi @ ?rest) = Some ?hi" "readHex4 (hex4 ?lo @ r) = Some ?lo" using hi lo by simp_all
  moreover have "drop 4 (hex4 ?hi @ ?rest) = ?rest" "drop 10 (hex4 ?hi @ ?rest) = r" by (simp_all add: hex4_def)
  moreover have "lowSurrogate ?rest = Some ?lo"
    using calculation(2) lo by (simp add: lowSurrogate_def hex4_def)
  moreover have "65536 + push_bit 10 (?hi - 55296) + (?lo - 56320) = cp"
    using assms(1) div_mult_mod_eq [of "cp - 65536" 1024] by (simp add: push_bit_eq_mult)
  ultimately show ?thesis using hi by simp
qed

theorem surrogate_pair_decodes_witness:
  "jsonUnescape ([bslash, CHR ''u''] @ hex4 55357 @ [bslash, CHR ''u''] @ hex4 56832 @ ''x'') =
     [CHR 0xF0, CHR 0x9F, CHR 0x98, CHR 0x80] @ ''x''"
proof -
  have "codePointBytes 128512 = [CHR 0xF0, CHR 0x9F, CHR 0x98, CHR 0x80]"
    by (simp add: codePointBytes_def char_of_def bit_Suc_0_iff)
  moreover have "jsonUnescape ''x'' = ''x''" by simp
  ultimately show ?thesis
    using surrogate_pair_decodes [of 128512 "''x''"] by (simp del: jsonUnescape.simps)
qed

end
