(* ===== verification/Inference_Backend.thy ===== *)
theory Inference_Backend
  imports Infer_Engine Remote_Transport
begin

text \<open>
  \<^verbatim>\<open>backend/inference-worker/inferenceBackend.*\<close>: the adapters a request is routed to. The classes are the
  constructors of \<open>InferenceBackend\<close>, their virtual functions are defined by cases. They share one world:
  the clock and the machine the probes see, the engine behind the pointer, the llama library, the adapters
  the router has registered, and what each call of the remote transport meets. A call that does not return,
  or dereferences a null model, is the result \<open>None\<close>.
\<close>

record BackendExecution =
  bx_text :: string
  bx_fault :: DeviceFault
  bx_detail :: string
  bx_vendorStatus :: int

definition emptyExecution :: BackendExecution where
  "emptyExecution = \<lparr>bx_text = [], bx_fault = KNone, bx_detail = [], bx_vendorStatus = 0\<rparr>"

definition bx_ok :: "BackendExecution \<Rightarrow> bool" where
  "bx_ok x \<longleftrightarrow> bx_fault x = KNone"

text \<open>
  The flags: whether an engine is bound and the build gate is lifted (Qualcomm), the transport and whether
  a session is open (remote), and whether the engine pointer is set (llama).
\<close>

datatype InferenceBackend =
    QualcommHexagonBackend bool bool
  | CoreMlAneBackend
  | RemoteInferenceBackend "TransportConfig option" bool
  | LlamaInferenceBackend string bool

record worker_world =
  ww_os :: os_world
  ww_hexagon :: bool
  ww_engine :: "InferEngine option"
  ww_llama :: llama_os
  ww_backends :: "InferenceBackend list"
  ww_calls :: "(string + transport_os) list"

definition wwMachine :: "worker_world \<Rightarrow> probe_os" where
  "wwMachine w = w_machine (ww_os w) (w_now (ww_os w))"

definition wwEnv :: "worker_world \<Rightarrow> environ" where
  "wwEnv w = po_env (wwMachine w)"

definition wwNow :: "worker_world clock" where
  "wwNow w = (let (t, os) = steadyNow (ww_os w) in (t, w\<lparr>ww_os := os\<rparr>))"

section \<open>The adapters\<close>

fun backendName :: "InferenceBackend \<Rightarrow> string" where
  "backendName (QualcommHexagonBackend engine route) = ''npu''"
| "backendName CoreMlAneBackend = ''ane''"
| "backendName (RemoteInferenceBackend transport session) = ''remote''"
| "backendName (LlamaInferenceBackend tier engine) = tier"

definition tierIsLlamaServed :: "string \<Rightarrow> bool" where
  "tierIsLlamaServed tier \<longleftrightarrow>
     tier = ''cpu'' \<or> tier = ''cuda'' \<or> tier = ''rocm'' \<or> tier = ''vulkan'' \<or> tier = ''metal'' \<or>
     tier = ''accelerate''"

definition hexagonCompiledIn :: "worker_world \<Rightarrow> bool" where
  "hexagonCompiledIn w \<longleftrightarrow> ww_hexagon w"

definition routable :: "worker_world \<Rightarrow> bool \<Rightarrow> bool" where
  "routable w routeOverride \<longleftrightarrow> hexagonCompiledIn w \<or> routeOverride"

fun bindEngine :: "bool \<Rightarrow> InferenceBackend \<Rightarrow> InferenceBackend" where
  "bindEngine engine (QualcommHexagonBackend old route) = QualcommHexagonBackend engine route"
| "bindEngine engine b = b"

fun executable :: "worker_world \<Rightarrow> InferenceBackend \<Rightarrow> bool" where
  "executable w (QualcommHexagonBackend engine route) = (routable w route \<and> engine)"
| "executable w CoreMlAneBackend = False"
| "executable w (RemoteInferenceBackend transport session) = (transport \<noteq> None)"
| "executable w (LlamaInferenceBackend tier engine) = True"

fun available :: "worker_world \<Rightarrow> InferenceBackend \<Rightarrow> ProbeResult" where
  "available w (RemoteInferenceBackend transport session) =
     (let configured = probeDevice (wwMachine w) ''remote'' in
      if configured \<noteq> KAvailable then configured
      else if transport = None then KRuntimeMissing else KAvailable)"
| "available w b = probeDevice (wwMachine w) (backendName b)"

definition backendHealthCheck :: "worker_world \<Rightarrow> InferenceBackend \<Rightarrow> bool" where
  "backendHealthCheck w b \<longleftrightarrow> available w b = KAvailable"

fun sessionOpen :: "InferenceBackend \<Rightarrow> bool" where
  "sessionOpen (RemoteInferenceBackend transport session) = session"
| "sessionOpen b = False"

fun releaseSession :: "InferenceBackend \<Rightarrow> InferenceBackend" where
  "releaseSession (RemoteInferenceBackend transport session) = RemoteInferenceBackend transport False"
| "releaseSession b = b"

section \<open>Executing\<close>

definition notCompiledIn :: "string \<Rightarrow> BackendExecution" where
  "notCompiledIn detail = emptyExecution\<lparr>bx_fault := KUnavailable, bx_detail := detail\<rparr>"

text \<open>The execution, the tokens handed to the sink in order, and the world afterwards.\<close>

type_synonym executed = "(BackendExecution \<times> string list \<times> worker_world) option"

definition runThroughEngine :: "bool \<Rightarrow> string \<Rightarrow> string \<Rightarrow> bool \<Rightarrow> worker_world \<Rightarrow> executed" where
  "runThroughEngine bound tier prompt onToken w =
     (case (if bound then ww_engine w else None) of
        None \<Rightarrow> Some (emptyExecution\<lparr>bx_fault := KUnavailable,
                   bx_detail := ''inference engine is not initialized''\<rparr>, [], w)
      | Some E \<Rightarrow>
          let E = setExecutingTier tier E in
          if onToken then
            (case generateStreaming (wwEnv w) prompt (E, ww_llama w) of
               None \<Rightarrow> None
             | Some (pieces, E, ll) \<Rightarrow>
                 Some (emptyExecution\<lparr>bx_text := concat pieces, bx_fault := ie_lastFault E,
                         bx_detail := ie_lastFaultDetail E\<rparr>, pieces,
                       w\<lparr>ww_engine := Some E, ww_llama := ll\<rparr>))
          else
            (case generate (wwEnv w) prompt (E, ww_llama w) of
               None \<Rightarrow> None
             | Some (answer, E, ll) \<Rightarrow>
                 Some (emptyExecution\<lparr>bx_text := answer, bx_fault := ie_lastFault E,
                         bx_detail := ie_lastFaultDetail E\<rparr>, [],
                       w\<lparr>ww_engine := Some E, ww_llama := ll\<rparr>)))"

definition remoteEndpoint :: "environ \<Rightarrow> string" where
  "remoteEndpoint env = envValue env ''EDGE_REMOTE_ENDPOINT''"

text \<open>One call of the transport: an exception with its text, or a response.\<close>

definition transportCall ::
  "TransportConfig \<Rightarrow> RemoteRequest \<Rightarrow> worker_world \<Rightarrow> ((string + RemoteResponse) \<times> worker_world) option" where
  "transportCall cfg request w =
     (case ww_calls w of
        [] \<Rightarrow> None
      | Inl what # cs \<Rightarrow> Some (Inl what, w\<lparr>ww_calls := cs\<rparr>)
      | Inr os # cs \<Rightarrow>
          map_option (\<lambda>response. (Inr response, w\<lparr>ww_calls := cs\<rparr>)) (callTransport cfg request os))"

definition setSession :: "bool \<Rightarrow> worker_world \<Rightarrow> worker_world" where
  "setSession open' w = w\<lparr>ww_backends := map (\<lambda>b. case b of
     RemoteInferenceBackend transport session \<Rightarrow> RemoteInferenceBackend transport open' | _ \<Rightarrow> b) (ww_backends w)\<rparr>"

definition remoteExecute :: "TransportConfig option \<Rightarrow> string \<Rightarrow> bool \<Rightarrow> worker_world \<Rightarrow> executed" where
  "remoteExecute transport prompt onToken w =
     (let policy = probeDevice (wwMachine w) ''remote'' in
      if policy = KPolicyDisabled then
        Some (emptyExecution\<lparr>bx_fault := KUnavailable,
          bx_detail := ''remote fallback is not opted in (EDGE_REMOTE_FALLBACK_ALLOWED is not 1), so the prompt '' @
            ''stays on this device''\<rparr>, [], w)
      else if policy \<noteq> KAvailable then
        Some (emptyExecution\<lparr>bx_fault := KUnavailable,
          bx_detail := ''remote is not configured (neither EDGE_SARVAM_API_KEY nor EDGE_REMOTE_ENDPOINT is set)''\<rparr>, [], w)
      else case transport of
        None \<Rightarrow>
          Some (notCompiledIn (''no remote transport was built for this worker (EDGE_SARVAM_API_KEY was empty at '' @
            ''startup); the tier is configured but nothing can serve it''), [], w)
      | Some cfg \<Rightarrow>
          (case transportCall cfg \<lparr>rq_endpoint = remoteEndpoint (wwEnv w), rq_prompt = prompt\<rparr> (setSession True w) of
             None \<Rightarrow> None
           | Some (Inl what, w) \<Rightarrow>
               Some (emptyExecution\<lparr>bx_fault := KRuntimeError, bx_detail := ''remote transport threw: '' @ what\<rparr>,
                     [], setSession False w)
           | Some (Inr response, w) \<Rightarrow>
               let w = setSession False w;
                   result = emptyExecution\<lparr>bx_vendorStatus := rs_status response\<rparr>;
                   fault = faultFromRemoteStatus (rs_status response)
               in if fault \<noteq> KNone then
                    Some (result\<lparr>bx_fault := fault,
                      bx_detail := (if rs_error response = []
                        then ''remote endpoint returned status '' @ int_str (rs_status response)
                        else rs_error response)\<rparr>, [], w)
                  else Some (result\<lparr>bx_text := rs_text response\<rparr>,
                    (if onToken \<and> rs_text response \<noteq> [] then [rs_text response] else []), w)))"

fun execute :: "InferenceBackend \<Rightarrow> string \<Rightarrow> bool \<Rightarrow> worker_world \<Rightarrow> executed" where
  "execute (QualcommHexagonBackend engine route) prompt onToken w =
     (if \<not> routable w route then
        Some (notCompiledIn (''qualcomm hexagon backend is not compiled into this build (GGML_HEXAGON=OFF, needs '' @
          ''HEXAGON_SDK_ROOT and a windows arm64 target)''), [], w)
      else if \<not> engine then
        Some (notCompiledIn (''qualcomm hexagon backend is compiled in (GGML_USE_HEXAGON) but no inference engine is '' @
          ''bound to the npu adapter''), [], w)
      else runThroughEngine engine ''npu'' prompt onToken w)"
| "execute CoreMlAneBackend prompt onToken w =
     Some (notCompiledIn (''core ml / ane adapter has no compiled model in this build (needs an MLModel and '' @
       ''MLComputeUnits.cpuAndNeuralEngine on macOS)''), [], w)"
| "execute (RemoteInferenceBackend transport session) prompt onToken w = remoteExecute transport prompt onToken w"
| "execute (LlamaInferenceBackend tier engine) prompt onToken w = runThroughEngine engine tier prompt onToken w"

fun_cases executableE: "executable w (RemoteInferenceBackend transport session)"

section \<open>What an execution can do\<close>

text \<open>A faulting execution has streamed nothing, a good one exactly its text; both leave clock and machine alone.\<close>

definition execution_ok :: "bool \<Rightarrow> BackendExecution \<Rightarrow> string list \<Rightarrow> bool" where
  "execution_ok onToken x tokens \<longleftrightarrow>
     (if onToken \<and> bx_ok x then concat tokens = bx_text x else tokens = [])"

lemma streaming_fault_silent:
  assumes "generateStreaming env prompt s = Some (pieces, E', ll')" and "ie_lastFault E' \<noteq> KNone"
  shows "pieces = []"
proof -
  obtain E ll where s: "s = (E, ll)" by force
  obtain fault E1 where i: "injectedFault env (clearFault E) = (fault, E1)" by force
  note inj = injectedFault_keeps [OF i]
  show ?thesis
  proof (cases "fault = KNone")
    case True
    then have E1: "E1 = clearFault E" "ie_lastFault E1 = KNone" using inj by (auto simp: clearFault_def)
    show ?thesis
    proof (cases "ll_built ll")
      case False
      have "injectedFault env (clearFault E1) = (KNone, E1)" using i True injected_again by simp
      then have "generate env prompt (E1, ll) = Some (if prompt = [] then ''Empty prompt received.''
          else ''Inference response: '' @ prompt, E1, ll)"
        using False by (simp add: generate_def)
      with assms s i True False E1 show ?thesis by (simp add: generateStreaming_def)
    next
      case built: True
      obtain tokens ll1 where t: "tokenize ll = (tokens, ll1)" by force
      obtain rc ll2 where d: "llamaDecode ll1 = (rc, ll2)" by force
      obtain ps ll3 where r: "runDecodeLoop E1 ll2 = (ps, ll3)" by force
      have "E' = E1" using assms(1) s i True built t d r by (auto simp: generateStreaming_def Let_def split: if_splits)
      with assms(2) E1 show ?thesis by simp
    qed
  next
    case False
    with assms(1) s i show ?thesis by (simp add: generateStreaming_def)
  qed
qed

lemma engine_execution_ok:
  assumes "runThroughEngine bound tier prompt onToken w = Some (x, tokens, w')"
  shows "execution_ok onToken x tokens" and "ww_os w' = ww_os w" and "ww_calls w' = ww_calls w"
  using assms streaming_fault_silent
  by (auto simp: runThroughEngine_def execution_ok_def bx_ok_def emptyExecution_def Let_def
      split: if_splits option.splits)

lemma transportCall_os: "transportCall cfg request w = Some (r, w') \<Longrightarrow> ww_os w' = ww_os w"
  by (auto simp: transportCall_def split: list.splits sum.splits)

lemma remote_execution_ok:
  assumes "remoteExecute transport prompt onToken w = Some (x, tokens, w')"
  shows "execution_ok onToken x tokens" and "ww_os w' = ww_os w"
    and "ww_calls w' \<noteq> ww_calls w \<or> bx_ok x \<Longrightarrow> probeDevice (wwMachine w) ''remote'' = KAvailable"
  using assms
  by (auto simp: remoteExecute_def execution_ok_def bx_ok_def emptyExecution_def notCompiledIn_def setSession_def Let_def
      dest!: transportCall_os split: if_splits option.splits sum.splits)

lemma not_compiled_ok: "execution_ok onToken (notCompiledIn detail) []"
  by (simp add: execution_ok_def bx_ok_def notCompiledIn_def emptyExecution_def)

lemma execute_ok:
  assumes "execute b prompt onToken w = Some (x, tokens, w')"
  shows "execution_ok onToken x tokens \<and> ww_os w' = ww_os w"
  using assms
  by (cases b)
    (auto simp: not_compiled_ok dest: engine_execution_ok(1,2) remote_execution_ok(1,2) split: if_splits)

end
