(* ===== verification/Backend_Router.thy ===== *)
theory Backend_Router
  imports Inference_Backend
begin

text \<open>
  \<^verbatim>\<open>backend/inference-worker/backendRouter.*\<close>: one request is carried down the ladder of device tiers until
  an adapter serves it. The router owns the ladder and the adapters; the hook that rebuilds the engine when
  the tier changes belongs to its owner (the worker), so the state is the ladder, the world and the owner's
  own state \<open>'h\<close>, and the hook is a function on it. Log lines are not modelled, the probes and clock
  readings they make are. The contract of a hook is the locale \<open>tier_hook\<close>.
\<close>

section \<open>Reading the world\<close>

text \<open>What clock and probes leave alone: any relation closed under both survives every ladder operation.\<close>

locale ladder_reads = ladder_world clk probe present
  for clk :: "'w \<Rightarrow> int \<times> 'w" and probe :: "string \<Rightarrow> 'w \<Rightarrow> ProbeResult \<times> 'w" and present :: "'w \<Rightarrow> int" +
  fixes reads :: "'w \<Rightarrow> 'w \<Rightarrow> bool"
  assumes reads_refl: "reads w w" and reads_trans: "reads u v \<Longrightarrow> reads v w \<Longrightarrow> reads u w"
    and reads_clk: "clk w = (t, w') \<Longrightarrow> reads w w'" and reads_probe: "probe n w = (r, w') \<Longrightarrow> reads w w'"
begin

lemma cached_reads:
  assumes "probeTierCached clk i L w = (r, L', w')" and "lad_probe L = probe"
  shows "reads w w' \<and> lad_probe L' = probe"
proof -
  obtain now w1 where c: "clk w = (now, w1)" by force
  obtain r2 w2 where p: "probe (tier_name (lad_tiers L ! i)) w1 = (r2, w2)" by force
  from assms c p reads_clk [OF c] reads_probe [OF p] show ?thesis
    by (auto simp: probeTierCached_def set_tier_def Let_def intro: reads_trans split: if_splits)
qed

lemma usable_reads: "usable clk tier w = (ok, w') \<Longrightarrow> reads w w'"
  by (auto simp: usable_def reads_refl split: if_splits prod.splits dest: reads_clk)

lemma selectFrom_reads:
  "selectFrom clk is L w = (ok, L', w') \<Longrightarrow> lad_probe L = probe \<Longrightarrow> reads w w' \<and> lad_probe L' = probe"
proof (induction "is" arbitrary: L w)
  case Nil
  then show ?case by (auto simp: reads_refl)
next
  case (Cons i "is")
  obtain u w1 where u: "usable clk (lad_tiers L ! i) w = (u, w1)" by force
  obtain r M w2 where p: "probeTierCached clk i L w1 = (r, M, w2)" by (metis prod_cases3)
  from Cons.prems Cons.IH [of L w1] Cons.IH [of M w2] u p usable_reads [OF u] cached_reads [OF p Cons.prems(2)]
  show ?case by (auto simp: Let_def split: if_splits intro: reads_trans)
qed

lemma recoverFrom_reads:
  "recoverFrom clk is L w = (ok, L', w') \<Longrightarrow> lad_probe L = probe \<Longrightarrow> reads w w' \<and> lad_probe L' = probe"
proof (induction "is" arbitrary: L w)
  case Nil
  then show ?case by (auto simp: reads_refl)
next
  case (Cons i "is")
  obtain now w1 where c: "clk w = (now, w1)" by force
  obtain r M w2 where p: "probeTierCached clk i L w1 = (r, M, w2)" by (metis prod_cases3)
  from Cons.prems Cons.IH [of L w] Cons.IH [of L w1] Cons.IH [of M w2] c p reads_clk [OF c]
    cached_reads [OF p Cons.prems(2)]
  show ?case by (auto simp: Let_def split: if_splits intro: reads_trans)
qed

lemma tierState_reads:
  assumes "tierState clk i L w = (str, L', w')" and "lad_probe L = probe"
  shows "reads w w' \<and> lad_probe L' = probe"
proof -
  obtain now w1 where c: "clk w = (now, w1)" by force
  obtain r M w2 where p: "probeTierCached clk i L w1 = (r, M, w2)" by (metis prod_cases3)
  from assms c p reads_clk [OF c] cached_reads [OF p assms(2)] show ?thesis
    by (auto simp: tierState_def Let_def reads_refl intro: reads_trans split: if_splits)
qed

lemma tiersToJson_reads:
  "tiersToJson clk now is L w = (str, L', w') \<Longrightarrow> lad_probe L = probe \<Longrightarrow> reads w w' \<and> lad_probe L' = probe"
proof (induction "is" arbitrary: L w str)
  case Nil
  then show ?case by (simp add: reads_refl)
next
  case (Cons i "is")
  obtain r M w1 where p: "probeTierCached clk i L w = (r, M, w1)" by (metis prod_cases3)
  obtain st N w2 where t: "tierState clk i M w1 = (st, N, w2)" by (metis prod_cases3)
  obtain rest where rec: "tiersToJson clk now is N w2 = (rest, L', w')"
    using Cons.prems(1) p t by (auto simp: Let_def split: prod.splits)
  have M: "reads w w1" "lad_probe M = probe" using cached_reads [OF p Cons.prems(2)] by simp_all
  have N: "reads w1 w2" "lad_probe N = probe" using tierState_reads [OF t M(2)] by simp_all
  from Cons.IH [OF rec N(2)] M N show ?case by (blast intro: reads_trans)
qed

lemma ladder_op_reads:
  assumes "lad_probe L = probe"
  shows "select clk L w = (ok, L', w') \<Longrightarrow> reads w w'"
    and "recoverEligibleTier clk L w = (ok, L', w') \<Longrightarrow> reads w w'"
    and "tierState clk i L w = (str, L', w') \<Longrightarrow> reads w w'"
    and "ladderToJson clk L w = (str, L', w') \<Longrightarrow> reads w w'"
    and "reportFault clk fault detail L w = (ok, L', w') \<Longrightarrow> reads w w'"
proof -
  show "select clk L w = (ok, L', w') \<Longrightarrow> reads w w'"
    using assms selectFrom_reads by (auto simp: select_def)
  show "recoverEligibleTier clk L w = (ok, L', w') \<Longrightarrow> reads w w'"
    using assms recoverFrom_reads reads_refl by (auto simp: recoverEligibleTier_def split: if_splits)
  show "tierState clk i L w = (str, L', w') \<Longrightarrow> reads w w'" using assms tierState_reads by blast
  obtain now w1 where c: "clk w = (now, w1)" by force
  show "ladderToJson clk L w = (str, L', w') \<Longrightarrow> reads w w'"
    using assms c reads_clk [OF c] tiersToJson_reads
    by (auto simp: ladderToJson_def Let_def split: prod.splits intro: reads_trans)
  obtain ok1 N w2 where sel: "select clk (markFault now fault detail L) w1 = (ok1, N, w2)" by (metis prod_cases3)
  have "reads w1 w2" using assms selectFrom_reads sel by (auto simp: select_def)
  then show "reportFault clk fault detail L w = (ok, L', w') \<Longrightarrow> reads w w'"
    using c sel reads_clk [OF c] reads_refl
    by (auto simp: reportFault_def Let_def split: if_splits intro: reads_trans)
qed

end

section \<open>The router's state\<close>

record RouteResult =
  rr_text :: string
  rr_device :: string
  rr_degraded :: bool
  rr_degradedReason :: string
  rr_fault :: DeviceFault
  rr_detail :: string

definition emptyRoute :: RouteResult where
  "emptyRoute = \<lparr>rr_text = [], rr_device = [], rr_degraded = False, rr_degradedReason = [],
     rr_fault = KNone, rr_detail = []\<rparr>"

definition rr_ok :: "RouteResult \<Rightarrow> bool" where
  "rr_ok res \<longleftrightarrow> rr_fault res = KNone"

record 'h router =
  rt_ladder :: "worker_world DeviceLadder"
  rt_world :: worker_world
  rt_owner :: 'h

type_synonym 'h hook = "string \<Rightarrow> string \<Rightarrow> 'h router \<Rightarrow> (bool \<times> 'h router) option"

definition active :: "'h router \<Rightarrow> string" where
  "active r = lad_active (rt_ladder r)"

definition backendFor :: "worker_world \<Rightarrow> string \<Rightarrow> InferenceBackend option" where
  "backendFor w tier = find (\<lambda>b. backendName b = tier) (ww_backends w)"

definition probeTier :: "string \<Rightarrow> worker_world \<Rightarrow> ProbeResult \<times> worker_world" where
  "probeTier tier w =
     (case backendFor w tier of
        None \<Rightarrow> (probeDevice (wwMachine w) tier, w)
      | Some b \<Rightarrow> (available w b, w))"

definition newBackendRouter :: "string list \<Rightarrow> int \<Rightarrow> int \<Rightarrow> worker_world \<Rightarrow> 'h \<Rightarrow> 'h router" where
  "newBackendRouter order quarantineMs probeIntervalMs w owner =
     \<lparr>rt_ladder = setProbe (Some probeTier) (newDeviceLadder
        (\<lambda>tier w. (probeDevice (wwMachine w) tier, w)) order quarantineMs probeIntervalMs),
      rt_world = w\<lparr>ww_backends := []\<rparr>, rt_owner = owner\<rparr>"

definition registerBackend :: "InferenceBackend \<Rightarrow> 'h router \<Rightarrow> 'h router" where
  "registerBackend b r =
     r\<lparr>rt_world := (rt_world r)\<lparr>ww_backends :=
          b # filter (\<lambda>b'. backendName b' \<noteq> backendName b) (ww_backends (rt_world r))\<rparr>,
       rt_ladder := invalidateProbeCache (rt_ladder r)\<rparr>"

text \<open>Running an operation of the ladder in the router.\<close>

definition onLadder ::
  "(worker_world DeviceLadder \<Rightarrow> worker_world \<Rightarrow> 'a \<times> worker_world DeviceLadder \<times> worker_world) \<Rightarrow>
   'h router \<Rightarrow> 'a \<times> 'h router" where
  "onLadder f r = (let (x, L, w) = f (rt_ladder r) (rt_world r) in (x, r\<lparr>rt_ladder := L, rt_world := w\<rparr>))"

definition logTierState :: "'h router \<Rightarrow> 'h router" where
  "logTierState r = snd (onLadder (tierState wwNow (lad_activeIndex (rt_ladder r))) r)"

section \<open>Operations\<close>

definition routerSelect :: "'h router \<Rightarrow> bool \<times> 'h router" where
  "routerSelect r =
     (let (ok, r) = onLadder (select wwNow) r in
      if \<not> ok then (False, snd (onLadder (ladderToJson wwNow) r)) else (True, logTierState r))"

definition routerBeginSession :: "'h router \<Rightarrow> 'h router" where
  "routerBeginSession r = r\<lparr>rt_ladder := beginSession (rt_ladder r)\<rparr>"

definition attemptRecovery :: "'h hook option \<Rightarrow> 'h router \<Rightarrow> (bool \<times> 'h router) option" where
  "attemptRecovery onFallback r =
     (let previous = active r; (ok, r) = onLadder (recoverEligibleTier wwNow) r in
      if \<not> ok then Some (False, r)
      else let next' = active r; r = logTierState r in
        case onFallback of
          None \<Rightarrow> Some (True, r)
        | Some hook \<Rightarrow>
            (case hook previous next' r of
               None \<Rightarrow> None
             | Some (up, r) \<Rightarrow>
                 if up then Some (True, r)
                 else
                   let (moved, r) = onLadder (reportFault wwNow KRuntimeError
                         (''engine could not be brought up on recovered tier '' @ next')) r
                   in if moved then map_option (\<lambda>(b, r). (False, r)) (hook next' (active r) r)
                      else Some (False, r)))"

definition tryTier :: "string \<Rightarrow> string \<Rightarrow> bool \<Rightarrow> worker_world \<Rightarrow> executed" where
  "tryTier tier prompt onToken w =
     (case backendFor w tier of
        None \<Rightarrow> Some (emptyExecution\<lparr>bx_fault := KUnavailable,
                   bx_detail := ''no backend adapter registered for tier '' @ tier\<rparr>, [], w)
      | Some b \<Rightarrow>
          if \<not> executable w b then
            map_option (\<lambda>(x, tokens, w).
              (if bx_ok x then x\<lparr>bx_fault := KUnavailable,
                 bx_detail := ''adapter for '' @ tier @ '' reported success but cannot execute''\<rparr> else x, tokens, w))
              (execute b prompt onToken w)
          else execute b prompt onToken w)"

definition finishRoute :: "string \<Rightarrow> BackendExecution \<Rightarrow> 'h router \<Rightarrow> RouteResult" where
  "finishRoute device x r =
     \<lparr>rr_text = bx_text x, rr_device = device, rr_degraded = degraded (rt_ladder r),
      rr_degradedReason = lad_degradedReason (rt_ladder r), rr_fault = bx_fault x,
      rr_detail = (if bx_ok x then [] else bx_detail x)\<rparr>"

text \<open>The loop of \<^verbatim>\<open>route\<close>, by the attempts left; the tokens the sink got come with the result.\<close>

fun routeLoop ::
  "'h hook option \<Rightarrow> string \<Rightarrow> bool \<Rightarrow> nat \<Rightarrow> 'h router \<Rightarrow> (RouteResult \<times> string list \<times> 'h router) option" where
  "routeLoop onFallback prompt onToken 0 r =
     Some (emptyRoute\<lparr>rr_fault := KRuntimeError, rr_detail := ''ladder did not settle on a usable tier'',
       rr_device := active r\<rparr>, [], r)"
| "routeLoop onFallback prompt onToken (Suc k) r =
     (let tier = active r in
      case tryTier tier prompt onToken (rt_world r) of
        None \<Rightarrow> None
      | Some (x, tokens, w) \<Rightarrow>
          let r = r\<lparr>rt_world := w\<rparr> in
          if bx_ok x then Some (finishRoute tier x r, tokens, r)
          else
            let (moved, r) = onLadder (reportFault wwNow (bx_fault x) (bx_detail x)) r in
            if \<not> moved then Some (finishRoute tier x r, tokens, r)
            else
              let r = logTierState r;
                  again = (\<lambda>r. map_option (\<lambda>(res, rest, r). (res, tokens @ rest, r))
                             (routeLoop onFallback prompt onToken k r))
              in case onFallback of
                   None \<Rightarrow> again r
                 | Some hook \<Rightarrow>
                     (case hook tier (active r) r of
                        None \<Rightarrow> None
                      | Some (up, r) \<Rightarrow>
                          if up then again r else Some (finishRoute (active r) x r, tokens, r)))"

definition route ::
  "'h hook option \<Rightarrow> string \<Rightarrow> bool \<Rightarrow> 'h router \<Rightarrow> (RouteResult \<times> string list \<times> 'h router) option" where
  "route onFallback prompt onToken r =
     (let (ready, r) = (if active r = [] then routerSelect r else (True, r)) in
      if \<not> ready then
        Some (emptyRoute\<lparr>rr_fault := KUnavailable, rr_detail := ''no usable tier in the ladder''\<rparr>, [], r)
      else case attemptRecovery onFallback r of
        None \<Rightarrow> None
      | Some (b, r) \<Rightarrow> routeLoop onFallback prompt onToken (tierCount (rt_ladder r) + 1) r)"

section \<open>The world a router reads\<close>

definition clockOnly :: "worker_world \<Rightarrow> worker_world \<Rightarrow> bool" where
  "clockOnly w w' \<longleftrightarrow> w' = w\<lparr>ww_os := ww_os w'\<rparr> \<and> w_machine (ww_os w') = w_machine (ww_os w)"

lemma backendFor_name: "backendFor w tier = Some b \<Longrightarrow> backendName b = tier \<and> b \<in> set (ww_backends w)"
  by (auto simp: backendFor_def find_Some_iff)

lemma clockOnly_refl: "clockOnly w w"
  by (simp add: clockOnly_def)

lemma clockOnly_trans: "clockOnly u v \<Longrightarrow> clockOnly v w \<Longrightarrow> clockOnly u w"
  unfolding clockOnly_def by (metis worker_world.surjective worker_world.update_convs(1))

lemma clockOnly_clock: "wwNow w = (t, w') \<Longrightarrow> clockOnly w w'"
  by (auto simp: wwNow_def clockOnly_def steadyNow_def split: list.splits)

lemma probeTier_world: "snd (probeTier n w) = w"
  by (simp add: probeTier_def split: option.splits)

lemma probeTier_cpu: "fst (probeTier ''cpu'' w) = KAvailable"
proof (cases "backendFor w ''cpu''")
  case (Some b)
  then have "backendName b = ''cpu''" using backendFor_name by blast
  then show ?thesis using Some by (cases b) (simp_all add: probeTier_def probeDevice_cpu)
qed (simp add: probeTier_def probeDevice_cpu)

interpretation wwl: ladder_world wwNow probeTier "\<lambda>w. w_now (ww_os w)"
proof
  show "w_now (ww_os w) \<le> t \<and> t \<le> w_now (ww_os w')" if "wwNow w = (t, w')" for w t w'
    using that by (auto simp: wwNow_def steadyNow_def split: list.splits)
  show "w_now (ww_os w) \<le> w_now (ww_os w')" if "probeTier n w = (r, w')" for n w r w'
    using probeTier_world [of n w] that by simp
  show "r = KAvailable" if "probeTier ''cpu'' w = (r, w')" for w r w'
    using probeTier_cpu [of w] that by simp
qed

interpretation wwr: ladder_reads wwNow probeTier "\<lambda>w. w_now (ww_os w)" clockOnly
proof
  show "clockOnly w w'" if "probeTier n w = (r, w')" for n w r w'
    using probeTier_world [of n w] that by (simp add: clockOnly_refl)
qed (use clockOnly_refl clockOnly_trans clockOnly_clock in blast)+

section \<open>What an attempt does\<close>

lemma not_executable_faults:
  assumes "\<not> executable w b" and "execute b prompt onToken w = Some (x, tokens, w')"
  shows "\<not> bx_ok x"
  using assms
  by (cases b) (auto simp: bx_ok_def notCompiledIn_def remoteExecute_def emptyExecution_def Let_def split: if_splits)

lemma tryTier_spec:
  assumes "tryTier tier prompt onToken w = Some (x, tokens, w')"
  shows "execution_ok onToken x tokens" and "ww_os w' = ww_os w"
    and "ww_calls w' \<noteq> ww_calls w \<Longrightarrow> probeDevice (wwMachine w) ''remote'' = KAvailable"
proof -
  consider (none) "backendFor w tier = None"
    | (some) b where "backendFor w tier = Some b" "execute b prompt onToken w = Some (x, tokens, w')"
    using assms not_executable_faults by (fastforce simp: tryTier_def split: option.splits if_splits)
  then have "execution_ok onToken x tokens \<and> ww_os w' = ww_os w \<and>
    (ww_calls w' \<noteq> ww_calls w \<longrightarrow> probeDevice (wwMachine w) ''remote'' = KAvailable)"
  proof cases
    case none
    with assms show ?thesis
      by (auto simp: tryTier_def execution_ok_def bx_ok_def emptyExecution_def)
  next
    case some
    have "ww_calls w' \<noteq> ww_calls w \<longrightarrow> probeDevice (wwMachine w) ''remote'' = KAvailable"
      using some(2) by (cases b) (auto dest: engine_execution_ok(3) remote_execution_ok(3) split: if_splits)
    with execute_ok [OF some(2)] show ?thesis by simp
  qed
  then show "execution_ok onToken x tokens" "ww_os w' = ww_os w"
    "ww_calls w' \<noteq> ww_calls w \<Longrightarrow> probeDevice (wwMachine w) ''remote'' = KAvailable" by blast+
qed

section \<open>The invariant of a router\<close>

text \<open>The ladder is coherent, probes through the router, and its tiers are still named \<open>N\<close>.\<close>

definition router_ok :: "string list \<Rightarrow> 'h router \<Rightarrow> bool" where
  "router_ok N r \<longleftrightarrow> ladder_ok (rt_ladder r) \<and> lad_probe (rt_ladder r) = probeTier \<and> cpu_cached (rt_ladder r) \<and>
     map tier_name (lad_tiers (rt_ladder r)) = N"

text \<open>The remote tier stays closed, and the transport has been called as often as before.\<close>

definition no_consent :: "'h router \<Rightarrow> bool" where
  "no_consent r \<longleftrightarrow> (\<forall>t. probeDevice (w_machine (ww_os (rt_world r)) t) ''remote'' \<noteq> KAvailable)"

definition same_calls :: "'h router \<Rightarrow> 'h router \<Rightarrow> bool" where
  "same_calls r r' \<longleftrightarrow> ww_calls (rt_world r') = ww_calls (rt_world r) \<and>
     w_machine (ww_os (rt_world r')) = w_machine (ww_os (rt_world r))"

lemma same_calls_refl [simp]: "same_calls r r"
  by (simp add: same_calls_def)

lemma same_calls_trans: "same_calls r s \<Longrightarrow> same_calls s t \<Longrightarrow> same_calls r t"
  by (simp add: same_calls_def)

lemma same_calls_consent: "same_calls r s \<Longrightarrow> no_consent s = no_consent r"
  by (simp add: same_calls_def no_consent_def)

lemma clockOnly_calls:
  "clockOnly (rt_world r) w \<Longrightarrow> same_calls r (r\<lparr>rt_ladder := L, rt_world := w\<rparr>)"
  unfolding clockOnly_def same_calls_def by (cases w) (metis router.select_convs(2) router.update_convs(1,2)
      router.surjective worker_world.select_convs(6) worker_world.surjective worker_world.update_convs(1))

lemma onLadder_eq:
  "onLadder f r = (x, r') \<Longrightarrow> \<exists>L w. f (rt_ladder r) (rt_world r) = (x, L, w) \<and> r' = r\<lparr>rt_ladder := L, rt_world := w\<rparr>"
  by (auto simp: onLadder_def split: prod.splits)

lemma router_select:
  assumes "onLadder (select wwNow) r = (ok, r')" and "router_ok N r"
  shows "router_ok N r'" and "same_calls r r'"
proof -
  obtain L w where s: "select wwNow (rt_ladder r) (rt_world r) = (ok, L, w)" "r' = r\<lparr>rt_ladder := L, rt_world := w\<rparr>"
    using onLadder_eq [OF assms(1)] by blast
  from assms(2) have r: "lad_probe (rt_ladder r) = probeTier" "ladder_ok (rt_ladder r)" "cpu_cached (rt_ladder r)"
    "map tier_name (lad_tiers (rt_ladder r)) = N" by (simp_all add: router_ok_def)
  show "router_ok N r'"
    using wwl.select_keeps [OF s(1) r(1,2)] wwl.selectFrom_cpu_cached [OF s(1) [unfolded select_def] r(1) _ r(3)] s(2) r
    by (simp add: router_ok_def op_keeps_def)
  show "same_calls r r'" using wwr.ladder_op_reads(1) [OF r(1) s(1)] s(2) clockOnly_calls by simp
qed

lemma router_log:
  assumes "onLadder (tierState wwNow i) r = (x, r') \<or> onLadder (ladderToJson wwNow) r = (x, r')" and "router_ok N r"
  shows "router_ok N r'" and "same_calls r r'" and "same_but_cache (rt_ladder r) (rt_ladder r')"
proof -
  obtain L w where s: "tierState wwNow i (rt_ladder r) (rt_world r) = (x, L, w) \<or>
      ladderToJson wwNow (rt_ladder r) (rt_world r) = (x, L, w)" "r' = r\<lparr>rt_ladder := L, rt_world := w\<rparr>"
    using assms(1) onLadder_eq [of _ r x r'] by blast
  from assms(2) have r: "lad_probe (rt_ladder r) = probeTier" "ladder_ok (rt_ladder r)" "cpu_cached (rt_ladder r)"
    "map tier_name (lad_tiers (rt_ladder r)) = N" by (simp_all add: router_ok_def)
  have same: "same_but_cache (rt_ladder r) L \<and> cpu_cached L"
    using s(1) wwl.tierState_spec [OF _ r(1)] wwl.ladderToJson_spec [OF _ r(1)] r(3) by blast
  then show "router_ok N r'"
    using same_ok [of "rt_ladder r" L] same_sel(8) [of "rt_ladder r" L] same_names [of "rt_ladder r" L] s(2) r by (simp add: router_ok_def)
  show "same_but_cache (rt_ladder r) (rt_ladder r')" using same s(2) by simp
  show "same_calls r r'" using wwr.ladder_op_reads(3,4) [OF r(1)] s clockOnly_calls by fastforce
qed

lemma log_state:
  assumes "router_ok N r"
  shows "router_ok N (logTierState r)" and "same_calls r (logTierState r)"
    and "same_but_cache (rt_ladder r) (rt_ladder (logTierState r))"
proof -
  obtain x r' where log: "onLadder (tierState wwNow (lad_activeIndex (rt_ladder r))) r = (x, r')" by force
  then have "logTierState r = r'" by (simp add: logTierState_def)
  with router_log [OF disjI1 [OF log] assms] show "router_ok N (logTierState r)" "same_calls r (logTierState r)"
    "same_but_cache (rt_ladder r) (rt_ladder (logTierState r))" by simp_all
qed

lemma router_recover:
  assumes "onLadder (recoverEligibleTier wwNow) r = (ok, r')" and "router_ok N r"
  shows "router_ok N r'" and "same_calls r r'"
proof -
  obtain L w where s: "recoverEligibleTier wwNow (rt_ladder r) (rt_world r) = (ok, L, w)"
    "r' = r\<lparr>rt_ladder := L, rt_world := w\<rparr>"
    using onLadder_eq [OF assms(1)] by blast
  from assms(2) have r: "lad_probe (rt_ladder r) = probeTier" "ladder_ok (rt_ladder r)" "cpu_cached (rt_ladder r)"
    "map tier_name (lad_tiers (rt_ladder r)) = N" by (simp_all add: router_ok_def)
  have "cpu_cached L"
    using s(1) r wwl.recoverFrom_cpu_cached [of "[0..<lad_activeIndex (rt_ladder r)]" "rt_ladder r" "rt_world r" ok L w]
    by (auto simp: recoverEligibleTier_def ladder_ok_def split: if_splits)
  then show "router_ok N r'" using wwl.recover_keeps(1) [OF s(1) r(1,2)] s(2) r by (simp add: router_ok_def op_keeps_def)
  show "same_calls r r'" using wwr.ladder_op_reads(2) [OF r(1) s(1)] s(2) clockOnly_calls by simp
qed

lemma router_fault:
  assumes "onLadder (reportFault wwNow fault detail) r = (ok, r')" and "router_ok N r"
  shows "router_ok N r'" and "same_calls r r'" and "length (lad_tiers (rt_ladder r')) = length (lad_tiers (rt_ladder r))"
    and "ok \<Longrightarrow> lad_activeIndex (rt_ladder r) < lad_activeIndex (rt_ladder r') \<and>
           lad_activeIndex (rt_ladder r') < length (lad_tiers (rt_ladder r))"
proof -
  obtain L w where s: "reportFault wwNow fault detail (rt_ladder r) (rt_world r) = (ok, L, w)"
    "r' = r\<lparr>rt_ladder := L, rt_world := w\<rparr>"
    using onLadder_eq [OF assms(1)] by blast
  from assms(2) have r: "lad_probe (rt_ladder r) = probeTier" "ladder_ok (rt_ladder r)" "cpu_cached (rt_ladder r)"
    "map tier_name (lad_tiers (rt_ladder r)) = N" by (simp_all add: router_ok_def)
  note keeps = wwl.fault_keeps [OF s(1) r(1,2)]
  show "router_ok N r'" using keeps(1) wwl.fault_cpu_cached [OF s(1) r(1,3)] s(2) r
    by (simp add: router_ok_def op_keeps_def)
  show "same_calls r r'" using wwr.ladder_op_reads(5) [OF r(1) s(1)] s(2) clockOnly_calls by simp
  show "length (lad_tiers (rt_ladder r')) = length (lad_tiers (rt_ladder r))"
    using keeps(1) s(2) unfolding op_keeps_def by (metis length_map router.select_convs(1) router.update_convs(1,2)
      router.surjective)
  show "ok \<Longrightarrow> lad_activeIndex (rt_ladder r) < lad_activeIndex (rt_ladder r') \<and>
      lad_activeIndex (rt_ladder r') < length (lad_tiers (rt_ladder r))" using keeps(3) s(2) by simp
qed

section \<open>Routing with a hook\<close>

text \<open>
  What the router asks of the fallback hook: it may rebuild the engine, change the owner's state and read
  the ladder, but it moves no tier and sends nothing to a remote endpoint.
\<close>

locale tier_hook =
  fixes hook :: "string \<Rightarrow> string \<Rightarrow> 'h router \<Rightarrow> (bool \<times> 'h router) option"
  assumes hook_ok: "router_ok N r \<Longrightarrow> hook p n r = Some (up, r') \<Longrightarrow> router_ok N r'"
    and hook_ladder: "router_ok N r \<Longrightarrow> hook p n r = Some (up, r') \<Longrightarrow> same_but_cache (rt_ladder r) (rt_ladder r')"
    and hook_calls: "router_ok N r \<Longrightarrow> hook p n r = Some (up, r') \<Longrightarrow> same_calls r r'"
begin

lemma recovery_spec:
  assumes "attemptRecovery (Some hook) r = Some (b, r')" and "router_ok N r"
  shows "router_ok N r' \<and> same_calls r r'"
proof -
  obtain ok r1 where rec: "onLadder (recoverEligibleTier wwNow) r = (ok, r1)" by force
  note r1 = router_recover [OF rec assms(2)]
  show ?thesis
  proof (cases ok)
    case False
    with assms(1) rec r1 show ?thesis by (simp add: attemptRecovery_def)
  next
    case True
    note r2 = log_state(1,2) [OF r1(1)]
    obtain up r3 where h: "hook (active r) (active r1) (logTierState r1) = Some (up, r3)"
      using assms(1) rec True by (auto simp: attemptRecovery_def Let_def split: option.splits)
    note r3 = hook_ok [OF r2(1) h] hook_calls [OF r2(1) h]
    obtain moved r4 where f: "onLadder (reportFault wwNow KRuntimeError
        (''engine could not be brought up on recovered tier '' @ active r1)) r3 = (moved, r4)" by force
    note r4 = router_fault(1,2) [OF f r3(1)]
    have "r' = r3 \<or> r' = r4 \<or> (\<exists>b'. hook (active r1) (active r4) r4 = Some (b', r'))"
      using assms(1) rec True h f by (auto simp: attemptRecovery_def Let_def split: if_splits)
    then show ?thesis
      using r1 r2 r3 r4 hook_ok [OF r4(1)] hook_calls [OF r4(1)] by (meson same_calls_trans)
  qed
qed

text \<open>What one pass of the loop leads to.\<close>

lemma loop_cases:
  assumes "routeLoop (Some hook) prompt onToken (Suc k) r = Some (res, tokens, r')" and "router_ok N r"
  obtains x toks w where "tryTier (active r) prompt onToken (rt_world r) = Some (x, toks, w)"
      "router_ok N (r\<lparr>rt_world := w\<rparr>)" "bx_ok x" "res = finishRoute (active r) x r'" "tokens = toks" "r' = r\<lparr>rt_world := w\<rparr>"
  | x toks w where "tryTier (active r) prompt onToken (rt_world r) = Some (x, toks, w)"
      "router_ok N r'" "same_calls (r\<lparr>rt_world := w\<rparr>) r'" "\<not> bx_ok x" "rr_fault res = bx_fault x" "tokens = toks"
  | x toks w rest s where "tryTier (active r) prompt onToken (rt_world r) = Some (x, toks, w)" "\<not> bx_ok x"
      "routeLoop (Some hook) prompt onToken k s = Some (res, rest, r')" "tokens = toks @ rest"
      "router_ok N s" "same_calls (r\<lparr>rt_world := w\<rparr>) s"
proof -
  obtain x toks w where t: "tryTier (active r) prompt onToken (rt_world r) = Some (x, toks, w)"
    using assms(1) by (auto simp: Let_def split: option.splits)
  let ?r = "r\<lparr>rt_world := w\<rparr>"
  have r: "router_ok N ?r" using assms(2) by (simp add: router_ok_def)
  obtain moved r1 where f: "onLadder (reportFault wwNow (bx_fault x) (bx_detail x)) ?r = (moved, r1)" by force
  note r1 = router_fault(1,2) [OF f r]
  define r2 where "r2 = logTierState r1"
  have r2: "router_ok N r2" "same_calls r1 r2" using log_state(1,2) [OF r1(1)] by (simp_all add: r2_def)
  have run: "(if bx_ok x then Some (finishRoute (active r) x ?r, toks, ?r)
      else if \<not> moved then Some (finishRoute (active r) x r1, toks, r1)
      else case hook (active r) (active r2) r2 of None \<Rightarrow> None
        | Some (up, s) \<Rightarrow> if up then map_option (\<lambda>(res, rest, s). (res, toks @ rest, s)) (routeLoop (Some hook) prompt onToken k s)
            else Some (finishRoute (active s) x s, toks, s)) = Some (res, tokens, r')"
    using assms(1) t f by (cases "bx_ok x"; cases moved; simp add: Let_def r2_def)
  consider (good) "bx_ok x" "res = finishRoute (active r) x ?r" "tokens = toks" "r' = ?r"
    | (stuck) "\<not> bx_ok x" "\<not> moved" "res = finishRoute (active r) x r1" "tokens = toks" "r' = r1"
    | (down) s where "\<not> bx_ok x" "hook (active r) (active r2) r2 = Some (False, s)"
        "res = finishRoute (active s) x s" "tokens = toks" "r' = s"
    | (again) s rest where "\<not> bx_ok x" "hook (active r) (active r2) r2 = Some (True, s)"
        "routeLoop (Some hook) prompt onToken k s = Some (res, rest, r')" "tokens = toks @ rest"
  proof (cases "bx_ok x \<or> \<not> moved")
    case True
    show ?thesis
    proof (cases "bx_ok x")
      case good: True
      have "Some (finishRoute (active r) x ?r, toks, ?r) = Some (res, tokens, r')" using run by (simp only: good if_True)
      then show ?thesis by (intro that(1) [OF good]) blast+
    next
      case bad: False
      with True have "\<not> moved" by simp
      have "Some (finishRoute (active r) x r1, toks, r1) = Some (res, tokens, r')"
        using run by (simp only: bad \<open>\<not> moved\<close> if_False if_True not_False_eq_True)
      then show ?thesis by (intro that(2) [OF bad \<open>\<not> moved\<close>]) blast+
    qed
  next
    case False
    with run obtain up s where h: "hook (active r) (active r2) r2 = Some (up, s)"
      by (cases "hook (active r) (active r2) r2") auto
    have "(if up then map_option (\<lambda>(res, rest, s). (res, toks @ rest, s)) (routeLoop (Some hook) prompt onToken k s)
        else Some (finishRoute (active s) x s, toks, s)) = Some (res, tokens, r')"
      using run False h by simp
    then show ?thesis using False h that(3) that(4) by (cases up) (auto simp del: routeLoop.simps)
  qed
  then show ?thesis
  proof cases
    case good
    with that(1) t r show ?thesis by blast
  next
    case stuck
    with that(2) [OF t] r1 show ?thesis by (simp add: finishRoute_def)
  next
    case down
    with that(2) [OF t] hook_ok [OF r2(1) down(2)] hook_calls [OF r2(1) down(2)] r1 r2 show ?thesis
      by (simp add: finishRoute_def) (meson same_calls_trans)
  next
    case again
    have "same_calls ?r s"
      using r1(2) r2(2) hook_calls [OF r2(1) again(2)] by (blast intro: same_calls_trans)
    with that(3) [OF t again(1,3,4) hook_ok [OF r2(1) again(2)]] show ?thesis by blast
  qed
qed

definition served :: "bool \<Rightarrow> RouteResult \<Rightarrow> string list \<Rightarrow> 'h router \<Rightarrow> bool" where
  "served onToken res tokens r \<longleftrightarrow>
     (rr_ok res \<longrightarrow> rr_device res = active r \<and> rr_degraded res = degraded (rt_ladder r) \<and>
        rr_degradedReason res = lad_degradedReason (rt_ladder r)) \<and>
     (if onToken \<and> rr_ok res then concat tokens = rr_text res else tokens = [])"

lemma loop_spec:
  assumes "routeLoop (Some hook) prompt onToken k r = Some (res, tokens, r')" and "router_ok N r"
  shows "router_ok N r' \<and> served onToken res tokens r' \<and> (no_consent r \<longrightarrow> same_calls r r')"
  using assms
proof (induction k arbitrary: r res tokens r')
  case 0
  then show ?case by (auto simp: served_def rr_ok_def emptyRoute_def)
next
  case (Suc k)
  have calls: "same_calls r (r\<lparr>rt_world := w\<rparr>)"
    if "tryTier (active r) prompt onToken (rt_world r) = Some (x, toks, w)" "no_consent r" for x toks w
    using tryTier_spec(2,3) [OF that(1)] that(2) by (auto simp: same_calls_def no_consent_def wwMachine_def)
  from Suc.prems show ?case
  proof (cases rule: loop_cases)
    case (1 x toks w)
    with tryTier_spec(1) [OF 1(1)] calls [OF 1(1)] show ?thesis
      by (auto simp: served_def finishRoute_def rr_ok_def bx_ok_def execution_ok_def active_def)
  next
    case (2 x toks w)
    with tryTier_spec(1) [OF 2(1)] calls [OF 2(1)] show ?thesis
      by (auto simp: served_def rr_ok_def bx_ok_def execution_ok_def intro: same_calls_trans)
  next
    case (3 x toks w rest s)
    have "toks = []" using tryTier_spec(1) [OF 3(1)] 3(2) by (simp add: execution_ok_def)
    with Suc.IH [OF 3(3,5)] 3 calls [OF 3(1)] same_calls_consent [of r "r\<lparr>rt_world := w\<rparr>"] same_calls_consent [OF 3(6)]
    show ?thesis by (auto intro: same_calls_trans)
  qed
qed

text \<open>The attempts suffice: each one that goes on has moved strictly down the ladder.\<close>

definition enough :: "'h router \<Rightarrow> nat" where
  "enough r = max 1 (length (lad_tiers (rt_ladder r)) - lad_activeIndex (rt_ladder r))"

lemma loop_settles:
  assumes "router_ok N r" and "enough r \<le> k" and "enough r \<le> m"
  shows "routeLoop (Some hook) prompt onToken k r = routeLoop (Some hook) prompt onToken m r"
  using assms
proof (induction k arbitrary: r m)
  case 0
  then show ?case by (simp add: enough_def)
next
  case (Suc k)
  obtain n where m: "m = Suc n" using Suc.prems(3) by (cases m) (simp_all add: enough_def)
  have again: "routeLoop (Some hook) prompt onToken k s = routeLoop (Some hook) prompt onToken n s"
    if "onLadder (reportFault wwNow fault detail) (r\<lparr>rt_world := w\<rparr>) = (True, r1)"
       "hook p q (logTierState r1) = Some (up, s)" for fault detail w r1 p q up s
  proof -
    have r: "router_ok N (r\<lparr>rt_world := w\<rparr>)" using Suc.prems(1) by (simp add: router_ok_def)
    note f = router_fault [OF that(1) r]
    note l = log_state [OF f(1)]
    note same = same_trans [OF l(3) hook_ladder [OF l(1) that(2)]]
    have "lad_activeIndex (rt_ladder r) < lad_activeIndex (rt_ladder s)"
      "length (lad_tiers (rt_ladder s)) = length (lad_tiers (rt_ladder r))"
      "lad_activeIndex (rt_ladder s) < length (lad_tiers (rt_ladder s))"
      using f(3,4) same_sel(1,9) [OF same] by simp_all
    then have "enough s \<le> k" "enough s \<le> n" using Suc.prems m by (auto simp: enough_def)
    with Suc.IH hook_ok [OF l(1) that(2)] show ?thesis by blast
  qed
  show ?case unfolding m
    by (auto simp: Let_def again split: option.splits prod.splits)
qed

lemma attempts_enough: "router_ok N r \<Longrightarrow> enough r \<le> tierCount (rt_ladder r) + 1"
  by (simp add: enough_def tierCount_def)

lemma route_spec:
  assumes "route (Some hook) prompt onToken r = Some (res, tokens, r')" and "router_ok N r"
  shows "router_ok N r' \<and> served onToken res tokens r' \<and> (no_consent r \<longrightarrow> same_calls r r')"
proof -
  obtain ready r1 where s: "(if active r = [] then routerSelect r else (True, r)) = (ready, r1)" by force
  have r1: "router_ok N r1 \<and> same_calls r r1"
  proof (cases "active r = []")
    case True
    obtain ok r0 where sel: "onLadder (select wwNow) r = (ok, r0)" by force
    obtain x r9 where json: "onLadder (ladderToJson wwNow) r0 = (x, r9)" by force
    note r0 = router_select [OF sel assms(2)]
    have "r1 = (if ok then logTierState r0 else r9)"
      using True s sel json by (auto simp: routerSelect_def split: if_splits)
    with r0 log_state(1,2) [OF r0(1)] router_log(1,2) [OF disjI2 [OF json] r0(1)] show ?thesis
      by (auto intro: same_calls_trans)
  qed (use s assms(2) in simp)
  show ?thesis
  proof (cases ready)
    case False
    with assms(1) s r1 show ?thesis by (auto simp: route_def served_def rr_ok_def emptyRoute_def)
  next
    case True
    obtain b r2 where rec: "attemptRecovery (Some hook) r1 = Some (b, r2)"
      and loop: "routeLoop (Some hook) prompt onToken (tierCount (rt_ladder r2) + 1) r2 = Some (res, tokens, r')"
      using assms(1) s True by (auto simp: route_def split: option.splits)
    have r2: "router_ok N r2" "same_calls r1 r2" using recovery_spec [OF rec, of N] r1 by simp_all
    from loop_spec [OF loop r2(1)] r1 r2(2) same_calls_consent [of r r1] same_calls_consent [OF r2(2)]
    show ?thesis by (auto intro: same_calls_trans)
  qed
qed

end

end
