(* ===== verification/Worker_Protocol.thy ===== *)
theory Worker_Protocol
  imports Worker_Liveness
begin

text \<open>
  The wire side of \<^verbatim>\<open>backend/inference-worker/worker.cpp\<close>: the job line a client sends, the frames that
  answer it, and the loops that read and write them on a socket. What the socket answers is a list with
  one entry per system call; a list that runs out is a call that blocks for good, the result \<open>None\<close>.
\<close>

section \<open>Strings\<close>

fun workerUnescape :: "string \<Rightarrow> string" where
  "workerUnescape [] = []"
| "workerUnescape [c] = [c]"
| "workerUnescape (c # d # cs) =
     (if c = bslash then
        (if d = CHR ''n'' then newline
         else if d = CHR ''r'' then creturn
         else if d = CHR ''t'' then htab
         else d) # workerUnescape cs
      else c # workerUnescape (d # cs))"

definition workerExtractString :: "string \<Rightarrow> string \<Rightarrow> string option" where
  "workerExtractString json key = map_option workerUnescape (find_string key json)"

definition workerExtractBool :: "string \<Rightarrow> string \<Rightarrow> bool \<Rightarrow> bool" where
  "workerExtractBool json key defaultValue = (case find_bool key json of None \<Rightarrow> defaultValue | Some b \<Rightarrow> b)"

definition workerJsonEscape :: "string \<Rightarrow> string" where
  "workerJsonEscape input = concat (map (\<lambda>ch.
     if ch = bslash then [bslash, bslash]
     else if ch = dquote then [bslash, dquote]
     else if ch = newline then [bslash, CHR ''n'']
     else if ch = creturn then [bslash, CHR ''r'']
     else if ch = htab then [bslash, CHR ''t'']
     else [ch]) input)"

section \<open>The job\<close>

record InferenceJob =
  job_requestId :: string
  job_prompt :: string
  job_stream :: bool

definition emptyJob :: InferenceJob where
  "emptyJob = \<lparr>job_requestId = [], job_prompt = [], job_stream = False\<rparr>"

text \<open>The job as far as it was filled in, and the error, if any.\<close>

definition parseJob :: "string \<Rightarrow> InferenceJob \<times> string option" where
  "parseJob raw =
     (let out = emptyJob in
      if workerExtractString raw ''type'' \<noteq> Some ''infer'' then (out, Some ''expected type=infer'')
      else case workerExtractString raw ''requestId'' of
        None \<Rightarrow> (out, Some ''missing requestId'')
      | Some requestId \<Rightarrow>
          let out = out\<lparr>job_requestId := requestId\<rparr> in
          (case workerExtractString raw ''prompt'' of
             None \<Rightarrow> (out, Some ''missing prompt'')
           | Some prompt \<Rightarrow>
               (out\<lparr>job_prompt := prompt, job_stream := workerExtractBool raw ''stream'' False\<rparr>, None)))"

section \<open>The frames\<close>

definition errorFrame :: "string \<Rightarrow> string \<Rightarrow> string" where
  \<open>errorFrame requestId error =
     ''{"type":"error","requestId":"'' @ workerJsonEscape requestId @ ''","error":"'' @
     workerJsonEscape error @ ''"}'' @ [newline]\<close>

definition notInitializedFrame :: "string \<Rightarrow> string" where
  \<open>notInitializedFrame requestId =
     ''{"type":"error","requestId":"'' @ workerJsonEscape requestId @
     ''","error":"engine_not_initialized"}'' @ [newline]\<close>

definition tokenFrame :: "string \<Rightarrow> string \<Rightarrow> string" where
  \<open>tokenFrame requestId token =
     ''{"type":"token","requestId":"'' @ workerJsonEscape requestId @ ''","token":"'' @
     workerJsonEscape token @ ''"}'' @ [newline]\<close>

definition resultFrame :: "string \<Rightarrow> string \<Rightarrow> string \<Rightarrow> string" where
  \<open>resultFrame requestId text' deviceFields =
     ''{"type":"result","requestId":"'' @ workerJsonEscape requestId @ ''","text":"'' @
     workerJsonEscape text' @ ''"'' @ deviceFields @ ''}'' @ [newline]\<close>

section \<open>The socket\<close>

datatype read_answer = ReadBytes string | ReadInterrupt | ReadError

text \<open>The loop of \<^verbatim>\<open>handleClient\<close>. \<open>Inl\<close> is the early return on a failed read.\<close>

fun readPayload :: "read_answer list \<Rightarrow> string \<Rightarrow> (unit + string) option" where
  "readPayload [] payload = None"
| "readPayload (ReadInterrupt # rs) payload = readPayload rs payload"
| "readPayload (ReadError # rs) payload = Some (Inl ())"
| "readPayload (ReadBytes bytes # rs) payload =
     (let chunk = take 2048 bytes; payload' = payload @ chunk in
      if chunk = [] then Some (Inr payload)
      else if newline \<in> set payload' \<or> length payload' > 1024 * 1024 then Some (Inr payload')
      else readPayload rs payload')"

definition firstLine :: "string \<Rightarrow> string" where
  "firstLine payload = (case find_char newline payload of None \<Rightarrow> payload | Some lineEnd \<Rightarrow> take lineEnd payload)"

datatype send_answer = SendBytes nat | SendInterrupt | SendError

text \<open>
  One call sends what is left from \<open>sent\<close> on; the kernel takes at most that. The result is whether all was
  sent, the bytes the peer got, and the answers that are left.
\<close>

fun sendAll :: "string \<Rightarrow> send_answer list \<Rightarrow> (bool \<times> string \<times> send_answer list) option" where
  "sendAll [] ss = Some (True, [], ss)"
| "sendAll (c # cs) [] = None"
| "sendAll (c # cs) (SendInterrupt # ss) = sendAll (c # cs) ss"
| "sendAll (c # cs) (SendError # ss) = Some (False, [], ss)"
| "sendAll (c # cs) (SendBytes n # ss) =
     (let k = min n (length (c # cs)) in
      if k = 0 then Some (False, [], ss)
      else map_option (\<lambda>(ok, got, ss). (ok, take k (c # cs) @ got, ss)) (sendAll (drop k (c # cs)) ss))"

section \<open>Laws of the wire\<close>

lemma workerJsonEscape_eq: "workerJsonEscape s = json_escape s"
  by (induction s) (auto simp: workerJsonEscape_def json_escape_char_def)

lemma unescape_plain_char: "c \<noteq> bslash \<Longrightarrow> workerUnescape (c # r) = c # workerUnescape r"
  by (cases r) simp_all

lemma unescape_json_escape: "workerUnescape (json_escape s) = s"
  by (induction s) (auto simp: json_escape_char_def unescape_plain_char)

interpretation wk: string_codec workerJsonEscape workerUnescape
  by unfold_locales (simp_all add: workerJsonEscape_eq unescape_json_escape)

lemma escape_one_line: "newline \<notin> set (workerJsonEscape s)"
  by (induction s) (auto simp: workerJsonEscape_def)

lemma map_triple_Some:
  "map_option (\<lambda>(a, b, c). (a, f b, c)) m = Some (x, y, z) \<Longrightarrow> \<exists>b. m = Some (x, b, z) \<and> y = f b"
  by (cases m) auto

text \<open>A write that reports success has delivered every byte, one that fails a prefix.\<close>

lemma sendAll_spec:
  "sendAll data ss = Some (ok, got, ss') \<Longrightarrow> (if ok then got = data else \<exists>rest. data = got @ rest \<and> rest \<noteq> [])"
proof (induction data ss arbitrary: ok got rule: sendAll.induct)
  case (5 c cs n ss)
  let ?k = "min n (length (c # cs))"
  show ?case
  proof (cases "?k = 0")
    case True
    with 5(2) show ?thesis by (simp add: Let_def)
  next
    case False
    with 5(2) have m: "map_option (\<lambda>(ok, got, ss). (ok, take ?k (c # cs) @ got, ss)) (sendAll (drop ?k (c # cs)) ss) =
        Some (ok, got, ss')" by (simp only: sendAll.simps Let_def if_False)
    obtain g where g: "sendAll (drop ?k (c # cs)) ss = Some (ok, g, ss')" "got = take ?k (c # cs) @ g"
      using map_triple_Some [OF m] by (elim exE conjE)
    note ih = 5(1) [OF refl False g(1)]
    have "take ?k (c # cs) @ drop ?k (c # cs) = c # cs" by (rule append_take_drop_id)
    with ih g(2) show ?thesis by (cases ok) (metis append_assoc)+
  qed
qed auto

text \<open>While the kernel takes at least one byte per call, everything is delivered.\<close>

definition all_taken :: "send_answer list \<Rightarrow> bool" where
  "all_taken ss \<longleftrightarrow> list_all (\<lambda>s. \<exists>n > 0. s = SendBytes n) ss"

lemma sendAll_delivers:
  "all_taken ss \<Longrightarrow> length data \<le> length ss \<Longrightarrow>
   \<exists>k \<le> length data. sendAll data ss = Some (True, data, drop k ss)"
proof (induction data ss rule: sendAll.induct)
  case (1 ss)
  then show ?case by simp
next
  case (5 c cs n ss)
  let ?k = "min n (length (c # cs))"
  have k: "0 < ?k" using 5(2) by (simp add: all_taken_def)
  then have "length (drop ?k (c # cs)) \<le> length ss" "all_taken ss" using 5(2,3) by (simp_all add: all_taken_def)
  with 5(1) [OF refl] k obtain j where j: "j \<le> length (drop ?k (c # cs))"
    "sendAll (drop ?k (c # cs)) ss = Some (True, drop ?k (c # cs), drop j ss)" by blast
  have "sendAll (c # cs) (SendBytes n # ss) =
      (if ?k = 0 then Some (False, [], ss)
       else map_option (\<lambda>(ok, got, ss). (ok, take ?k (c # cs) @ got, ss)) (sendAll (drop ?k (c # cs)) ss))"
    by (simp only: sendAll.simps Let_def)
  also have "\<dots> = Some (True, take ?k (c # cs) @ drop ?k (c # cs), drop (Suc j) (SendBytes n # ss))" using k j(2) by simp
  finally have "sendAll (c # cs) (SendBytes n # ss) = Some (True, c # cs, drop (Suc j) (SendBytes n # ss))"
    by (simp only: append_take_drop_id)
  moreover have "Suc j \<le> length (c # cs)" using j(1) k by simp
  ultimately show ?case by blast
qed (auto simp: all_taken_def)

section \<open>What the wire promises\<close>

text \<open>A client's request without its line end; the members stand in the order the API server writes them.\<close>

definition jobText :: "InferenceJob \<Rightarrow> string \<Rightarrow> string" where
  \<open>jobText job mfeId =
     ''{"type":"infer","requestId":"'' @ workerJsonEscape (job_requestId job) @ ''","prompt":"'' @
     workerJsonEscape (job_prompt job) @ ''","mfeId":"'' @ workerJsonEscape mfeId @ ''","stream":'' @
     (if job_stream job then ''true'' else ''false'') @ ''}''\<close>

lemmas wire_simps = find_string_def find_bool_def re_search_other_key wk.skip_field wk.field_roundtrip
  plain_key_def closes_value_def is_space_def

lemma jobText_fields:
  "workerExtractString (jobText job mfeId) ''type'' = Some ''infer''"
  "workerExtractString (jobText job mfeId) ''requestId'' = Some (job_requestId job)"
  "workerExtractString (jobText job mfeId) ''prompt'' = Some (job_prompt job)"
  "workerExtractBool (jobText job mfeId) ''stream'' d = job_stream job"
proof -
  show "workerExtractString (jobText job mfeId) ''type'' = Some ''infer''"
    using wk.field_roundtrip [of "''type''" "''infer''"]
    by (simp add: jobText_def workerExtractString_def wire_simps workerJsonEscape_def)
  show "workerExtractString (jobText job mfeId) ''requestId'' = Some (job_requestId job)"
    using wk.field_roundtrip [of "''requestId''" "job_requestId job"]
    by (simp add: jobText_def workerExtractString_def wire_simps)
  show "workerExtractString (jobText job mfeId) ''prompt'' = Some (job_prompt job)"
    using wk.field_roundtrip [of "''prompt''" "job_prompt job"]
    by (simp add: jobText_def workerExtractString_def wire_simps)
  show "workerExtractBool (jobText job mfeId) ''stream'' d = job_stream job"
    using find_bool_here [of "''stream''"]
    by (simp add: jobText_def workerExtractBool_def wire_simps)
qed

lemma jobText_one_line: "newline \<notin> set (jobText job mfeId)"
  using escape_one_line by (simp add: jobText_def)

lemma jobText_parsed: "parseJob (jobText job mfeId) = (job, None)"
  by (simp add: parseJob_def jobText_fields emptyJob_def)

text \<open>The bytes a socket delivers, however it cuts them up and whatever interrupts the reads.\<close>

fun delivered :: "read_answer list \<Rightarrow> string" where
  "delivered [] = []"
| "delivered (ReadBytes bytes # rs) = bytes @ delivered rs"
| "delivered (r # rs) = delivered rs"

definition sound_reads :: "read_answer list \<Rightarrow> bool" where
  "sound_reads rs \<longleftrightarrow> list_all (\<lambda>r. case r of
     ReadBytes bytes \<Rightarrow> bytes \<noteq> [] \<and> length bytes \<le> 2048 | ReadInterrupt \<Rightarrow> True | ReadError \<Rightarrow> False) rs"

lemma readPayload_line:
  assumes "sound_reads rs" and "payload @ delivered rs = line @ [newline]" and "newline \<notin> set payload"
    and "length line < 1024 * 1024" and "newline \<notin> set line"
  shows "readPayload rs payload = Some (Inr (line @ [newline]))"
  using assms
proof (induction rs payload rule: readPayload.induct)
  case (1 payload)
  then have "newline \<in> set payload" by simp
  with 1(3) show ?case by simp
next
  case (4 bytes rs payload)
  then have b: "bytes \<noteq> []" "take 2048 bytes = bytes" "sound_reads rs" by (simp_all add: sound_reads_def)
  have whole: "(payload @ bytes) @ delivered rs = line @ [newline]" using 4(3) by simp
  show ?case
  proof (cases "newline \<in> set (payload @ bytes)")
    case True
    have "delivered rs = []"
    proof (rule ccontr)
      assume "delivered rs \<noteq> []"
      then obtain xs x where "delivered rs = xs @ [x]" by (metis rev_exhaust)
      with whole have "line = (payload @ bytes) @ xs" by simp
      with True have "newline \<in> set line" by (metis Un_iff set_append)
      with 4(6) show False by simp
    qed
    with True b whole show ?thesis by simp
  next
    case False
    have "length (payload @ bytes) \<le> length (line @ [newline])" using whole by (metis le_add1 length_append)
    with False b 4 whole show ?thesis by simp
  qed
qed (auto simp: sound_reads_def)

lemma firstLine_line: "newline \<notin> set line \<Longrightarrow> firstLine (line @ newline # r) = line"
  by (simp add: firstLine_def find_char_append)


definition demoJob :: InferenceJob where
  "demoJob = \<lparr>job_requestId = ''r1'', job_prompt = [CHR ''a'', dquote, newline], job_stream = True\<rparr>"


text \<open>Every frame is one line a client can read back. The three frames the worker writes, errors, tokens
  and results, have their only line end at their end, and a JSON reader finds in them the type, the request
  id and the text they were made from, whatever bytes those hold.\<close>

theorem frames_roundtrip:
  "newline \<notin> set (butlast (errorFrame rid t)) \<and> last (errorFrame rid t) = newline \<and>
   newline \<notin> set (butlast (tokenFrame rid t)) \<and> last (tokenFrame rid t) = newline \<and>
   (\<lambda>f. map (workerExtractString f) [''type'', ''requestId'', ''error'']) (errorFrame rid t) =
     [Some ''error'', Some rid, Some t] \<and>
   (\<lambda>f. map (workerExtractString f) [''type'', ''requestId'', ''token'']) (tokenFrame rid t) =
     [Some ''token'', Some rid, Some t] \<and>
   (\<lambda>f. map (workerExtractString f) [''type'', ''requestId'', ''text'']) (resultFrame rid t deviceFields) =
     [Some ''result'', Some rid, Some t]"
proof -
  have "newline \<notin> set (butlast (errorFrame rid t)) \<and> last (errorFrame rid t) = newline"
    "newline \<notin> set (butlast (tokenFrame rid t)) \<and> last (tokenFrame rid t) = newline"
    using escape_one_line by (simp_all add: errorFrame_def tokenFrame_def butlast_append)
  moreover have "workerExtractString (errorFrame rid t) ''type'' = Some ''error''"
    "workerExtractString (tokenFrame rid t) ''type'' = Some ''token''"
    "workerExtractString (resultFrame rid t deviceFields) ''type'' = Some ''result''"
    using wk.field_roundtrip [of "''type''" "''error''"] wk.field_roundtrip [of "''type''" "''token''"]
      wk.field_roundtrip [of "''type''" "''result''"]
    by (simp_all add: errorFrame_def tokenFrame_def resultFrame_def workerExtractString_def wire_simps workerJsonEscape_def)
  moreover have "workerExtractString (errorFrame rid t) ''requestId'' = Some rid"
    "workerExtractString (tokenFrame rid t) ''requestId'' = Some rid"
    "workerExtractString (resultFrame rid t deviceFields) ''requestId'' = Some rid"
    using wk.field_roundtrip [of "''requestId''" rid]
    by (simp_all add: errorFrame_def tokenFrame_def resultFrame_def workerExtractString_def wire_simps)
  moreover have "workerExtractString (errorFrame rid t) ''error'' = Some t"
    "workerExtractString (tokenFrame rid t) ''token'' = Some t"
    "workerExtractString (resultFrame rid t deviceFields) ''text'' = Some t"
    using wk.field_roundtrip [of "''error''" t] wk.field_roundtrip [of "''token''" t] wk.field_roundtrip [of "''text''" t]
    using re_search_literal [of "''error''" _ "''error''" val_string] re_search_literal [of "''token''" _ "''token''" val_string]
    by (simp_all add: errorFrame_def tokenFrame_def resultFrame_def workerExtractString_def wire_simps)
  ultimately show ?thesis by simp
qed

text \<open>
  \<^verbatim>\<open>JSON.stringify\<close>, which writes the requests, encodes a control character as \<^verbatim>\<open>\u00XX\<close>; the worker's reader
  drops the backslash and keeps the rest.
\<close>

lemma unicode_escape_is_mangled:
  "a \<noteq> bslash \<Longrightarrow> b \<noteq> bslash \<Longrightarrow>
   workerUnescape (bslash # CHR ''u'' # CHR ''0'' # CHR ''0'' # a # [b]) = ''u00'' @ [a, b]"
  by simp

end
