(* ===== verification/Worker_Process.thy ===== *)
theory Worker_Process
  imports Backend_Router Worker_Protocol Model_Cache
begin

text \<open>
  \<^verbatim>\<open>backend/inference-worker/worker.*\<close>: one worker process. It attaches the model the cache has published,
  picks a device tier, builds the engine, and answers one client at a time through the router. The worker
  is the owner of the router's state, and its \<^verbatim>\<open>onTierChanged\<close> is the fallback hook. Answers of the
  operating system are arguments; a run that blocks for good or dereferences a null model is \<open>None\<close>. The
  socket's file, which \<^verbatim>\<open>setupSocketServer\<close> and the destructor unlink, is not part of the state.
\<close>

section \<open>The state\<close>

record WorkerConfig =
  wc_workerId :: int
  wc_socketPath :: string
  wc_supervisorSocketPath :: string
  wc_shmName :: string
  wc_modelPath :: string
  wc_modelSizeBytes :: size_t
  wc_heartbeatIntervalMs :: int
  wc_forceCpu :: bool
  wc_maxTokens :: int
  wc_temperature :: rat
  wc_gpuLayers :: int
  wc_seed :: int
  wc_deviceLadder :: "string list"
  wc_deviceQuarantineMs :: int
  wc_deviceProbeIntervalMs :: int
  wc_assignedBackend :: string
  wc_reexec :: bool

definition defaultWorkerConfig :: WorkerConfig where
  "defaultWorkerConfig =
     \<lparr>wc_workerId = 0, wc_socketPath = [], wc_supervisorSocketPath = [], wc_shmName = [], wc_modelPath = [],
      wc_modelSizeBytes = 0, wc_heartbeatIntervalMs = 50, wc_forceCpu = False, wc_maxTokens = 512,
      wc_temperature = 4 / 5, wc_gpuLayers = 99, wc_seed = 42,
      wc_deviceLadder = [''cuda'', ''npu'', ''ane'', ''cpu'', ''remote''],
      wc_deviceQuarantineMs = 60000, wc_deviceProbeIntervalMs = 5000, wc_assignedBackend = [],
      wc_reexec = True\<rparr>"

record Worker =
  wk_config :: WorkerConfig
  wk_running :: bool
  wk_cudaAvailable :: bool
  wk_activeDevice :: string
  wk_exitCode :: nat
  wk_serverFd :: bool
  wk_shmFd :: bool
  wk_shmPtr :: bool
  wk_shmSize :: size_t
  wk_requestStartedAtMs :: int

definition newWorker :: "WorkerConfig \<Rightarrow> Worker" where
  "newWorker config =
     \<lparr>wk_config = config, wk_running = False, wk_cudaAvailable = False, wk_activeDevice = ''cpu'',
      wk_exitCode = 0, wk_serverFd = False, wk_shmFd = False, wk_shmPtr = False, wk_shmSize = 0,
      wk_requestStartedAtMs = 0\<rparr>"

type_synonym worker_state = "Worker router"

abbreviation onOwner :: "(Worker \<Rightarrow> Worker) \<Rightarrow> worker_state \<Rightarrow> worker_state" where
  "onOwner f r \<equiv> r\<lparr>rt_owner := f (rt_owner r)\<rparr>"

definition workerRequestStop :: "Worker \<Rightarrow> Worker" where
  "workerRequestStop W = W\<lparr>wk_running := False\<rparr>"

definition setDevice :: "string \<Rightarrow> Worker \<Rightarrow> Worker" where
  "setDevice device W = W\<lparr>wk_activeDevice := device, wk_cudaAvailable := (device = ''cuda'')\<rparr>"

section \<open>The ladder of a worker\<close>

definition isLocalAccelerator :: "string \<Rightarrow> bool" where
  "isLocalAccelerator tier \<longleftrightarrow>
     tier = ''cuda'' \<or> tier = ''rocm'' \<or> tier = ''vulkan'' \<or> tier = ''metal'' \<or> tier = ''npu'' \<or>
     tier = ''ane'' \<or> tier = ''directml'' \<or> tier = ''gpu''"

definition ladderFrom :: "string list \<Rightarrow> bool \<Rightarrow> bool \<Rightarrow> string list" where
  "ladderFrom configured noGpuSlot forceCpu =
     (if \<not> noGpuSlot \<and> \<not> forceCpu then configured
      else let kept = filter (\<lambda>tier. \<not> (if forceCpu then isLocalAccelerator tier else tier = ''cuda'')) configured
        in if ''cpu'' \<notin> set kept then kept @ [''cpu''] else kept)"

section \<open>Attaching the model\<close>

record attach_os =
  ao_metaOpen :: bool
  ao_metaMap :: bool
  ao_shmOpen :: bool
  ao_fstat :: bool
  ao_shmMap :: bool
  ao_readable :: bool

text \<open>
  The header as a mapping of 256 bytes shows it: an object that ends earlier reads as zeros up to the end
  of its page, an empty one kills the process (\<open>None\<close>).
\<close>

definition mappedHeader :: "byte list \<Rightarrow> SharedModelHeader option" where
  "mappedHeader bytes =
     (if bytes = [] then None
      else Some (readHeader (take kHeaderSize bytes @ replicate (kHeaderSize - length bytes) 0)))"

definition attachSharedMemory :: "attach_os \<Rightarrow> shm \<Rightarrow> Worker \<Rightarrow> (bool \<times> Worker) option" where
  "attachSharedMemory os s W =
     (let config = wk_config W; name = wc_shmName config in
      case s (shmMetaName name) of
        None \<Rightarrow> Some (False, W)
      | Some metaBytes \<Rightarrow>
          if \<not> ao_metaOpen os \<or> \<not> ao_metaMap os then Some (False, W)
          else case mappedHeader metaBytes of
            None \<Rightarrow> None
          | Some header \<Rightarrow>
              if \<not> (take 4 (hdr_magic header) = edgeMagic \<and> hdr_ready header = 1 \<and> 0 < hdr_modelSize header)
              then Some (False, W)
              else case s name of
                None \<Rightarrow> Some (False, W)
              | Some model \<Rightarrow>
                  if \<not> ao_shmOpen os then Some (False, W)
                  else let W = W\<lparr>wk_shmFd := True\<rparr> in
                  if wc_modelSizeBytes config = 0 \<and> \<not> ao_fstat os then Some (False, W)
                  else
                    let shmSize = (if 0 < wc_modelSizeBytes config then wc_modelSizeBytes config
                                   else word_of_nat (length model));
                        W = W\<lparr>wk_shmSize := shmSize\<rparr>
                    in if shmSize = 0 \<or> shmSize \<noteq> hdr_modelSize header then Some (False, W)
                       else if \<not> ao_shmMap os then Some (False, W)
                       else Some (True, W\<lparr>wk_shmPtr := True, wk_config :=
                         (if ao_readable os then config\<lparr>wc_modelPath := shmFilePath name\<rparr> else config)\<rparr>))"

section \<open>Picking a device\<close>

definition selectDevice :: "Worker \<Rightarrow> worker_world \<Rightarrow> bool \<times> worker_state" where
  "selectDevice W w =
     (let config = wk_config W;
          order = ladderFrom (wc_deviceLadder config) (wc_assignedBackend config = ''cpu'') (wc_forceCpu config);
          r = newBackendRouter order (wc_deviceQuarantineMs config) (wc_deviceProbeIntervalMs config) w W;
          r = registerBackend (QualcommHexagonBackend False False) r;
          r = registerBackend CoreMlAneBackend r;
          r = registerBackend (RemoteInferenceBackend (makeRemoteTransport (wwEnv w)) False) r;
          (ok, r) = routerSelect r
      in if \<not> ok then (False, r)
         else let r = onOwner (setDevice (active r)) r in (True, snd (onLadder (ladderToJson wwNow) r)))"

section \<open>Changing tiers\<close>

definition reloadEngine :: "bool \<Rightarrow> 'h router \<Rightarrow> (bool \<times> 'h router) option" where
  "reloadEngine forceCpu r =
     (case ww_engine (rt_world r) of
        None \<Rightarrow> None
      | Some E \<Rightarrow>
          let (ok, E, ll) = reloadOn forceCpu (E, ww_llama (rt_world r))
          in Some (ok, r\<lparr>rt_world := (rt_world r)\<lparr>ww_engine := Some E, ww_llama := ll\<rparr>\<rparr>))"

definition engineResident :: "'h router \<Rightarrow> bool" where
  "engineResident r =
     (case ww_engine (rt_world r) of None \<Rightarrow> False | Some E \<Rightarrow> deviceResourcesResident E)"

definition onTierChanged :: "Worker hook" where
  "onTierChanged previous next' r =
     (let r = onOwner (setDevice next') r;
          recovering = indexOf (rt_ladder r) next' < indexOf (rt_ladder r) previous
      in if recovering then
           (case reloadEngine (next' = ''cpu'') r of
              None \<Rightarrow> None
            | Some (ok, r) \<Rightarrow> if \<not> ok then Some (False, r) else Some (True, logTierState r))
         else
           let action = deviceFallbackAction (engineResident r) previous next' (wc_reexec (wk_config (rt_owner r)));
               contextStaysResident = requiresProcessRestartForCpuOnly (engineResident r) previous next'
           in case reloadEngine (next' = ''cpu'') r of
                None \<Rightarrow> None
              | Some (ok, r) \<Rightarrow>
                  if \<not> ok then Some (False, r)
                  else
                    let r = logTierState r in
                    Some (True,
                      if contextStaysResident \<and> action = KReexecAsCpu
                      then onOwner (\<lambda>W. workerRequestStop (W\<lparr>wk_exitCode := kReassignCpu\<rparr>)) r else r))"

section \<open>Starting\<close>

record listen_os =
  lo_socket :: bool
  lo_bind :: bool
  lo_listen :: bool

definition setupSocketServer :: "listen_os \<Rightarrow> Worker \<Rightarrow> bool \<times> Worker" where
  "setupSocketServer os W =
     (if wc_socketPath (wk_config W) = [] then (False, W)
      else if \<not> lo_socket os then (False, W)
      else (lo_bind os \<and> lo_listen os, W\<lparr>wk_serverFd := True\<rparr>))"

definition workerInferConfig :: "WorkerConfig \<Rightarrow> bool \<Rightarrow> InferConfig" where
  "workerInferConfig config tierOffloads =
     defaultInferConfig\<lparr>ic_modelPath := wc_modelPath config, ic_gpuLayers := wc_gpuLayers config,
       ic_maxTokens := wc_maxTokens config, ic_temperature := wc_temperature config,
       ic_seed := wc_seed config, ic_forceCpu := (wc_forceCpu config \<or> \<not> tierOffloads)\<rparr>"

definition registerLlamaBackends :: "'h router \<Rightarrow> 'h router" where
  "registerLlamaBackends r =
     fold (\<lambda>tier. registerBackend (LlamaInferenceBackend tier True)) (filter tierIsLlamaServed knownBackends) r"

definition bindHexagon :: "'h router \<Rightarrow> 'h router" where
  "bindHexagon r = r\<lparr>rt_world := (rt_world r)\<lparr>ww_backends := map (bindEngine True) (ww_backends (rt_world r))\<rparr>\<rparr>"

text \<open>\<^verbatim>\<open>init\<close>; without a router (the attach failed) there is no state to return.\<close>

definition workerInit ::
  "attach_os \<Rightarrow> shm \<Rightarrow> listen_os \<Rightarrow> Worker \<Rightarrow> worker_world \<Rightarrow> (bool \<times> worker_state option) option" where
  "workerInit aos s los W w =
     (case attachSharedMemory aos s W of
        None \<Rightarrow> None
      | Some (attached, W) \<Rightarrow>
          if \<not> attached then Some (False, None)
          else let (selected, r) = selectDevice W w in
          if \<not> selected then Some (False, Some r)
          else
            let startTier = active r;
                tierOffloads = (startTier = ''cuda'' \<or> startTier = ''npu'' \<and> hexagonCompiledIn (rt_world r));
                (ok, E, ll) = engineInit (newInferEngine (workerInferConfig (wk_config (rt_owner r)) tierOffloads),
                                ww_llama (rt_world r));
                r = r\<lparr>rt_world := (rt_world r)\<lparr>ww_engine := Some E, ww_llama := ll\<rparr>\<rparr>
            in if \<not> ok then Some (False, Some r)
               else
                 let r = (if active r = ''cuda'' \<and> \<not> isUsingGPU E
                          then snd (onLadder (reportFault wwNow KUnavailable ''gpu model load failed at startup'') r)
                          else r);
                     r = bindHexagon (registerLlamaBackends r);
                     r = onOwner (setDevice (active r)) r;
                     (listening, W) = setupSocketServer los (rt_owner r)
                 in Some (listening, Some (r\<lparr>rt_owner := W\<rparr>)))"

section \<open>Answering\<close>

definition generateWithFallback :: "string \<Rightarrow> worker_state \<Rightarrow> (string \<times> worker_state) option" where
  "generateWithFallback prompt r =
     (case route (Some onTierChanged) prompt False r of
        None \<Rightarrow> None
      | Some (routed, tokens, r) \<Rightarrow>
          Some (if rr_ok routed then rr_text routed
                else if rr_text routed = [] then ''[error: '' @ rr_detail routed @ '']'' else rr_text routed,
                onOwner (setDevice (active r)) r))"

text \<open>The merged text and the tokens handed to \<^verbatim>\<open>onToken\<close>.\<close>

definition streamWithFallback :: "string \<Rightarrow> worker_state \<Rightarrow> (string \<times> string list \<times> worker_state) option" where
  "streamWithFallback prompt r =
     (case route (Some onTierChanged) prompt True r of
        None \<Rightarrow> None
      | Some (routed, tokens, r) \<Rightarrow> Some (rr_text routed, tokens, onOwner (setDevice (active r)) r))"

definition deviceResultFields :: "worker_state \<Rightarrow> string" where
  \<open>deviceResultFields r =
     (let deg = degraded (rt_ladder r) in
      '',"device":"'' @ wk_activeDevice (rt_owner r) @ ''","degraded":'' @ (if deg then ''true'' else ''false'') @
      (if deg then '',"degradedReason":"'' @ workerJsonEscape (lad_degradedReason (rt_ladder r)) @ ''"'' else []))\<close>

record client_os =
  cl_now :: int
  cl_reads :: "read_answer list"
  cl_sends :: "send_answer list"

text \<open>The token frames, as long as the writes succeed.\<close>

fun sendTokens :: "string \<Rightarrow> string list \<Rightarrow> send_answer list \<Rightarrow> (bool \<times> string \<times> send_answer list) option" where
  "sendTokens rid [] ss = Some (True, [], ss)"
| "sendTokens rid (token # tokens) ss =
     (case sendAll (tokenFrame rid token) ss of
        None \<Rightarrow> None
      | Some (ok, got, ss) \<Rightarrow>
          if \<not> ok then Some (False, got, ss)
          else map_option (\<lambda>(ok, more, ss). (ok, got @ more, ss)) (sendTokens rid tokens ss))"

definition reply :: "string \<Rightarrow> send_answer list \<Rightarrow> worker_state \<Rightarrow> (string \<times> worker_state) option" where
  "reply frame ss r = map_option (\<lambda>(ok, got, ss). (got, r)) (sendAll frame ss)"

text \<open>The body of \<^verbatim>\<open>handleClient\<close>: what the client receives.\<close>

definition serveJob :: "InferenceJob \<Rightarrow> send_answer list \<Rightarrow> worker_state \<Rightarrow> (string \<times> worker_state) option" where
  "serveJob job ss r =
     (let rid = job_requestId job in
      if ww_engine (rt_world r) = None then reply (notInitializedFrame rid) ss r
      else if \<not> job_stream job then
        (case generateWithFallback (job_prompt job) r of
           None \<Rightarrow> None
         | Some (text', r) \<Rightarrow> reply (resultFrame rid text' (deviceResultFields r)) ss r)
      else
        (case streamWithFallback (job_prompt job) r of
           None \<Rightarrow> None
         | Some (merged, tokens, r) \<Rightarrow>
             (case sendTokens rid tokens ss of
                None \<Rightarrow> None
              | Some (writeOk, got, ss) \<Rightarrow>
                  if \<not> writeOk then Some (got, r)
                  else map_option (\<lambda>(out, r). (got @ out, r))
                         (reply (resultFrame rid merged (deviceResultFields r)) ss r))))"

definition setStarted :: "int \<Rightarrow> Worker \<Rightarrow> Worker" where
  "setStarted now W = W\<lparr>wk_requestStartedAtMs := now\<rparr>"

definition handleClient :: "client_os \<Rightarrow> worker_state \<Rightarrow> (string \<times> worker_state) option" where
  "handleClient os r =
     (let r = onOwner (setStarted (cl_now os)) r in
      map_option (\<lambda>(out, r). (out, onOwner (setStarted 0) r))
        (case readPayload (cl_reads os) [] of
           None \<Rightarrow> None
         | Some (Inl u) \<Rightarrow> Some ([], r)
         | Some (Inr payload) \<Rightarrow>
             (case parseJob (firstLine payload) of
                (job, Some parseError) \<Rightarrow> reply (errorFrame (job_requestId job) parseError) (cl_sends os) r
              | (job, None) \<Rightarrow> serveJob job (cl_sends os) r)))"

section \<open>Running\<close>

text \<open>
  What each \<^verbatim>\<open>accept\<close> does: a client, an interrupt or a failure; \<open>AcceptStop\<close> is a call that ends because a
  signal has run \<^verbatim>\<open>requestStop\<close>.
\<close>

datatype accept_answer = AcceptClient client_os | AcceptFailed | AcceptStop

fun serveLoop :: "accept_answer list \<Rightarrow> worker_state \<Rightarrow> (string list \<times> worker_state) option" where
  "serveLoop as r =
     (if \<not> wk_running (rt_owner r) then Some ([], r)
      else case as of
        [] \<Rightarrow> None
      | AcceptFailed # as \<Rightarrow> serveLoop as r
      | AcceptStop # as \<Rightarrow> serveLoop as (onOwner workerRequestStop r)
      | AcceptClient client # as \<Rightarrow>
          (case handleClient client r of
             None \<Rightarrow> None
           | Some (out, r) \<Rightarrow> map_option (\<lambda>(outs, r). (out # outs, r)) (serveLoop as r)))"

declare serveLoop.simps [simp del]

text \<open>The exit code, what each client received, and the state at the end.\<close>

definition workerRun :: "accept_answer list \<Rightarrow> worker_state \<Rightarrow> (nat \<times> string list \<times> worker_state) option" where
  "workerRun as r =
     map_option (\<lambda>(outs, r). (wk_exitCode (rt_owner r), outs, r))
       (serveLoop as (onOwner (\<lambda>W. W\<lparr>wk_running := True\<rparr>) r))"

definition workerDestroy :: "worker_state \<Rightarrow> worker_state" where
  "workerDestroy r =
     (let r = onOwner (\<lambda>W. (workerRequestStop W)\<lparr>wk_serverFd := False, wk_shmPtr := False, wk_shmFd := False\<rparr>) r
      in case ww_engine (rt_world r) of
           None \<Rightarrow> r
         | Some E \<Rightarrow> r\<lparr>rt_world := (rt_world r)\<lparr>ww_engine := None, ww_llama := engineDestroy (E, ww_llama (rt_world r))\<rparr>\<rparr>)"

section \<open>The heartbeat thread\<close>

record beat_os =
  bt_socket :: bool
  bt_connect :: bool
  bt_startedAt :: int
  bt_now :: int
  bt_device :: string
  bt_sends :: "send_answer list"

text \<open>One turn: what the supervisor received, and the consecutive failures.\<close>

definition heartbeatTurn :: "int \<Rightarrow> beat_os \<Rightarrow> int \<Rightarrow> (string \<times> int) option" where
  "heartbeatTurn workerId os consecutiveFailures =
     (if bt_socket os \<and> bt_connect os then
        map_option (\<lambda>(ok, got, ss). (got, if ok then 0 else consecutiveFailures + 1))
          (sendAll (heartbeatText workerId (bt_startedAt os) (bt_now os) (bt_device os)) (bt_sends os))
      else Some ([], consecutiveFailures + 1))"

text \<open>The turns while the worker runs; the list ends when \<^verbatim>\<open>running_\<close> is cleared.\<close>

fun heartbeatLoop :: "int \<Rightarrow> beat_os list \<Rightarrow> int \<Rightarrow> string list option" where
  "heartbeatLoop workerId [] failures = Some []"
| "heartbeatLoop workerId (os # turns) failures =
     (case heartbeatTurn workerId os failures of
        None \<Rightarrow> None
      | Some (got, failures) \<Rightarrow> map_option ((#) got) (heartbeatLoop workerId turns failures))"

end
