(* ===== verification/Command_Line.thy ===== *)
theory Command_Line
  imports Supervisor Worker_Process
begin

text \<open>
  The two \<^verbatim>\<open>main\<close> functions up to the object they construct: \<^verbatim>\<open>backend/inference-worker/main.cpp\<close> and
  \<^verbatim>\<open>backend/supervisor/main.cpp\<close>, with the hardware probe the worker binary also serves as
  (\<^verbatim>\<open>backend/inference-worker/hardwareProbe.*\<close>). Both read the environment first and then let the command
  line override it; \<open>Inl\<close> is the message of a rejected start, which exits with 1. \<^verbatim>\<open>std::stof\<close> is a
  parameter, \<open>None\<close> when it throws.
\<close>

section \<open>Flags\<close>

definition takeValue :: "string \<Rightarrow> string \<Rightarrow> string list \<Rightarrow> (string \<times> string list) option" where
  "takeValue flag arg rest =
     (if starts_with (flag @ ''='') arg then Some (drop (length flag + 1) arg, rest)
      else if arg = flag \<and> rest \<noteq> [] then Some (hd rest, tl rest)
      else None)"

text \<open>A flag and what its value does; the flags are tried in the order of the code.\<close>

type_synonym 'c flag = "string \<times> (string \<Rightarrow> 'c \<Rightarrow> string + 'c)"

fun matchFlag :: "'c flag list \<Rightarrow> string \<Rightarrow> string list \<Rightarrow> 'c \<Rightarrow> ((string + 'c) \<times> string list) option" where
  "matchFlag [] arg rest c = None"
| "matchFlag ((flag, f) # flags) arg rest c =
     (case takeValue flag arg rest of
        Some (value, rest') \<Rightarrow> Some (f value c, rest')
      | None \<Rightarrow> matchFlag flags arg rest c)"

lemma matchFlag_shorter: "matchFlag flags arg rest c = Some (r, rest') \<Longrightarrow> length rest' \<le> length rest"
  by (induction flags) (auto simp: takeValue_def split: option.splits if_splits)

text \<open>The loop over the arguments; a switch is a flag without a value.\<close>

function parseFlags :: "'c flag list \<Rightarrow> (string \<Rightarrow> ('c \<Rightarrow> 'c) option) \<Rightarrow> string list \<Rightarrow> 'c \<Rightarrow> string + 'c" where
  "parseFlags flags switches [] c = Inr c"
| "parseFlags flags switches (arg # rest) c =
     (case matchFlag flags arg rest c of
        Some (Inl message, rest') \<Rightarrow> Inl message
      | Some (Inr c', rest') \<Rightarrow> parseFlags flags switches rest' c'
      | None \<Rightarrow>
          (case switches arg of
             Some f \<Rightarrow> parseFlags flags switches rest (f c)
           | None \<Rightarrow> Inl (''Unknown argument: '' @ arg)))"
  by pat_completeness auto
termination by (relation "measure (\<lambda>(flags, switches, args, c). length args)")
    (auto dest: matchFlag_shorter)

definition storeText :: "(string \<Rightarrow> 'c \<Rightarrow> 'c) \<Rightarrow> string \<Rightarrow> 'c \<Rightarrow> string + 'c" where
  "storeText put_in value c = Inr (put_in value c)"

definition storeParsed ::
  "string \<Rightarrow> (string \<Rightarrow> 'v option) \<Rightarrow> ('v \<Rightarrow> 'c \<Rightarrow> 'c) \<Rightarrow> string \<Rightarrow> 'c \<Rightarrow> string + 'c" where
  "storeParsed flag parse put_in value c =
     (case parse value of
        None \<Rightarrow> Inl (''Invalid '' @ flag @ '' value: '' @ value)
      | Some v \<Rightarrow> Inr (put_in v c))"

text \<open>An environment variable that is set; a text that does not parse leaves the default.\<close>

definition fromEnv :: "environ \<Rightarrow> string \<Rightarrow> (string \<Rightarrow> 'v option) \<Rightarrow> ('v \<Rightarrow> 'c \<Rightarrow> 'c) \<Rightarrow> 'c \<Rightarrow> 'c" where
  "fromEnv env name parse put_in c =
     (case env name of None \<Rightarrow> c | Some raw \<Rightarrow> (case parse raw of None \<Rightarrow> c | Some v \<Rightarrow> put_in v c))"

definition parseIntArg :: "string \<Rightarrow> int option" where
  "parseIntArg raw = (case stoi raw of Inl e \<Rightarrow> None | Inr v \<Rightarrow> Some v)"

definition parseLongLongArg :: "string \<Rightarrow> int option" where
  "parseLongLongArg raw = (case stoll raw of Inl e \<Rightarrow> None | Inr v \<Rightarrow> Some v)"

definition parseSizeArg :: "string \<Rightarrow> size_t option" where
  "parseSizeArg raw = (case stoull raw of Inl e \<Rightarrow> None | Inr v \<Rightarrow> Some v)"

section \<open>The hardware probe\<close>

text \<open>
  What ggml enumerates: per device whether it is null, whether it is a GPU, its two texts (null pointers are
  \<open>None\<close>) and its memory. \<open>None\<close> for the list stands for a build without llama.
\<close>

record ggml_device =
  gd_gpu :: bool
  gd_name :: "string option"
  gd_description :: "string option"
  gd_freeBytes :: size_t
  gd_totalBytes :: size_t

definition textOf :: "string option \<Rightarrow> string" where
  "textOf p = (case p of None \<Rightarrow> [] | Some s \<Rightarrow> s)"

definition probeGpu :: "ggml_device option \<Rightarrow> GpuDevice option" where
  "probeGpu device =
     (case device of
        None \<Rightarrow> None
      | Some d \<Rightarrow>
          if \<not> gd_gpu d then None
          else Some \<lparr>gpu_name = textOf (gd_name d), gpu_description = textOf (gd_description d),
                     gpu_freeBytes = gd_freeBytes d, gpu_totalBytes = gd_totalBytes d\<rparr>)"

definition probeHardware :: "ggml_device option list option \<Rightarrow> string option \<Rightarrow> HardwareReport" where
  "probeHardware devices meminfo =
     (let ram = readHostMemory meminfo in
      case devices of
        None \<Rightarrow> \<lparr>rep_gpus = [], rep_ram = ram,
                   rep_note = ''built without EDGE_USE_LLAMA, no gpu backend in this binary'', rep_probeOk = True\<rparr>
      | Some ds \<Rightarrow>
          let gpus = List.map_filter probeGpu ds in
          \<lparr>rep_gpus = gpus, rep_ram = ram,
           rep_note = (if gpus = [] then ''ggml registered '' @ nat_str (length ds) @ '' device(s), none of them a gpu''
                       else ''ggml registered '' @ nat_str (length gpus) @ '' gpu device(s)''),
           rep_probeOk = True\<rparr>)"

definition runHardwareProbe :: "ggml_device option list option \<Rightarrow> string option \<Rightarrow> string" where
  "runHardwareProbe devices meminfo = hardwareReportToJson (probeHardware devices meminfo) @ [newline]"

section \<open>The worker's \<^verbatim>\<open>main\<close>\<close>

type_synonym worker_options = "WorkerConfig \<times> bool"

definition overConfig :: "('v \<Rightarrow> WorkerConfig \<Rightarrow> WorkerConfig) \<Rightarrow> 'v \<Rightarrow> worker_options \<Rightarrow> worker_options" where
  "overConfig f v c = (f v (fst c), snd c)"

definition workerEnvConfig :: "(string \<Rightarrow> rat option) \<Rightarrow> environ \<Rightarrow> WorkerConfig" where
  "workerEnvConfig stof env =
     (let c = defaultWorkerConfig\<lparr>wc_workerId := 0, wc_socketPath := workerSock env 0,
            wc_supervisorSocketPath := supervisorSock env, wc_shmName := shmNameEnv env,
            wc_heartbeatIntervalMs := 50\<rparr>;
          c = fromEnv env ''EDGE_MODEL_PATH'' Some (\<lambda>v c. c\<lparr>wc_modelPath := v\<rparr>) c;
          c = fromEnv env ''EDGE_MAX_TOKENS'' parseIntArg (\<lambda>v c. c\<lparr>wc_maxTokens := v\<rparr>) c;
          c = fromEnv env ''EDGE_TEMPERATURE'' stof (\<lambda>v c. c\<lparr>wc_temperature := v\<rparr>) c;
          c = fromEnv env ''EDGE_GPU_LAYERS'' parseIntArg (\<lambda>v c. c\<lparr>wc_gpuLayers := v\<rparr>) c;
          c = fromEnv env ''EDGE_SEED'' parseIntArg (\<lambda>v c. c\<lparr>wc_seed := v\<rparr>) c;
          c = fromEnv env ''EDGE_FORCE_CPU'' Some (\<lambda>v c. c\<lparr>wc_forceCpu := (v = ''1'')\<rparr>) c;
          c = fromEnv env ''EDGE_WORKER_BACKEND'' Some (\<lambda>v c. c\<lparr>wc_assignedBackend := v\<rparr>) c;
          c = c\<lparr>wc_reexec := deviceFallbackModeIsReexec (env ''EDGE_DEVICE_FALLBACK_MODE'')\<rparr>;
          c = fromEnv env ''EDGE_DEVICE_LADDER'' Some (\<lambda>v c. c\<lparr>wc_deviceLadder := parseDeviceLadder v\<rparr>) c;
          c = fromEnv env ''EDGE_DEVICE_QUARANTINE_MS'' parseIntArg (\<lambda>v c. c\<lparr>wc_deviceQuarantineMs := v\<rparr>) c
      in fromEnv env ''EDGE_DEVICE_PROBE_INTERVAL_MS'' parseIntArg (\<lambda>v c. c\<lparr>wc_deviceProbeIntervalMs := v\<rparr>) c)"

definition workerFlags :: "(string \<Rightarrow> rat option) \<Rightarrow> worker_options flag list" where
  "workerFlags stof =
     [(''--worker-id'', storeParsed ''--worker-id'' parseIntArg (overConfig (\<lambda>v c. c\<lparr>wc_workerId := v\<rparr>))),
      (''--socket-path'', storeText (\<lambda>v c. ((fst c)\<lparr>wc_socketPath := v\<rparr>, True))),
      (''--supervisor-socket'', storeText (overConfig (\<lambda>v c. c\<lparr>wc_supervisorSocketPath := v\<rparr>))),
      (''--shm-name'', storeText (overConfig (\<lambda>v c. c\<lparr>wc_shmName := v\<rparr>))),
      (''--model-path'', storeText (overConfig (\<lambda>v c. c\<lparr>wc_modelPath := v\<rparr>))),
      (''--model-size-bytes'', storeParsed ''--model-size-bytes'' parseSizeArg (overConfig (\<lambda>v c. c\<lparr>wc_modelSizeBytes := v\<rparr>))),
      (''--heartbeat-ms'', storeParsed ''--heartbeat-ms'' parseIntArg (overConfig (\<lambda>v c. c\<lparr>wc_heartbeatIntervalMs := v\<rparr>))),
      (''--max-tokens'', storeParsed ''--max-tokens'' parseIntArg (overConfig (\<lambda>v c. c\<lparr>wc_maxTokens := v\<rparr>))),
      (''--temperature'', storeParsed ''--temperature'' stof (overConfig (\<lambda>v c. c\<lparr>wc_temperature := v\<rparr>))),
      (''--gpu-layers'', storeParsed ''--gpu-layers'' parseIntArg (overConfig (\<lambda>v c. c\<lparr>wc_gpuLayers := v\<rparr>))),
      (''--seed'', storeParsed ''--seed'' parseIntArg (overConfig (\<lambda>v c. c\<lparr>wc_seed := v\<rparr>)))]"

definition workerSwitches :: "string \<Rightarrow> (worker_options \<Rightarrow> worker_options) option" where
  "workerSwitches arg =
     (if arg = ''--force-cpu'' then Some (overConfig (\<lambda>v c. c\<lparr>wc_forceCpu := v\<rparr>) True) else None)"

definition finishWorkerConfig :: "environ \<Rightarrow> worker_options \<Rightarrow> string + WorkerConfig" where
  "finishWorkerConfig env options =
     (let (config, socketPathProvided) = options;
          config = (if \<not> socketPathProvided then config\<lparr>wc_socketPath := workerSock env (wc_workerId config)\<rparr> else config)
      in if \<not> socketPathProvided \<and> workerSockPrefix env = []
         then Inl ''--socket-path is required (or set EDGE_WORKER_SOCKET_PREFIX)''
         else if wc_modelPath config = [] then Inl ''--model-path is required (or set EDGE_MODEL_PATH)''
         else if wc_socketPath config = [] then Inl ''--socket-path is required (or set EDGE_WORKER_SOCKET_PREFIX)''
         else if wc_supervisorSocketPath config = []
         then Inl ''--supervisor-socket is required (or set EDGE_SUPERVISOR_SOCK)''
         else if wc_shmName config = [] then Inl ''--shm-name is required (or set EDGE_SHM_NAME)''
         else Inr config)"

text \<open>What the process becomes: a probe that reads the given file, a rejected start, or a worker.\<close>

datatype worker_start = HardwareProbe string | Rejected string | StartWorker WorkerConfig

definition workerMain :: "(string \<Rightarrow> rat option) \<Rightarrow> environ \<Rightarrow> string list \<Rightarrow> worker_start" where
  "workerMain stof env args =
     (if ''--probe-hardware'' \<in> set args then
        HardwareProbe (if envValue env ''EDGE_MEMINFO_PATH'' \<noteq> [] then envValue env ''EDGE_MEMINFO_PATH'' else ''/proc/meminfo'')
      else case parseFlags (workerFlags stof) workerSwitches args (workerEnvConfig stof env, False) of
        Inl message \<Rightarrow> Rejected message
      | Inr options \<Rightarrow>
          (case finishWorkerConfig env options of Inl message \<Rightarrow> Rejected message | Inr config \<Rightarrow> StartWorker config))"

text \<open>The rest of \<^verbatim>\<open>main\<close>: the exit code, what each client received, and the worker's last state, if it has a router.\<close>

definition workerProcess ::
  "attach_os \<Rightarrow> shm \<Rightarrow> listen_os \<Rightarrow> accept_answer list \<Rightarrow> WorkerConfig \<Rightarrow> worker_world \<Rightarrow>
   (nat \<times> string list \<times> worker_state option) option" where
  "workerProcess aos s los as config w =
     (case workerInit aos s los (newWorker config) w of
        None \<Rightarrow> None
      | Some (ok, None) \<Rightarrow> Some (1, [], None)
      | Some (ok, Some r) \<Rightarrow>
          if \<not> ok then Some (1, [], Some (workerDestroy r))
          else map_option (\<lambda>(code, outs, r). (code, outs, Some (workerDestroy r))) (workerRun as r))"

section \<open>The supervisor's \<^verbatim>\<open>main\<close>\<close>

definition supervisorEnvConfig :: "environ \<Rightarrow> SupervisorConfig" where
  "supervisorEnvConfig env =
     (let c = defaultSupervisorConfig\<lparr>cfg_shmName := shmNameEnv env, cfg_supervisorSocketPath := supervisorSock env,
            cfg_apiNotifySocketPath := apiNotifySock env\<rparr>;
          limit = (\<lambda>name f. fromEnv env name parseLongLongArg (\<lambda>v c. c\<lparr>cfg_capacity := f v (cfg_capacity c)\<rparr>));
          live = (\<lambda>name f. fromEnv env name parseLongLongArg (\<lambda>v c. c\<lparr>cfg_liveness := f v (cfg_liveness c)\<rparr>));
          c = fromEnv env ''EDGE_WORKER_COUNT'' parseIntArg (\<lambda>v c. c\<lparr>cfg_workerCount := v\<rparr>) c;
          c = fromEnv env ''EDGE_MODEL_PATH'' Some (\<lambda>v c. c\<lparr>cfg_modelPath := v\<rparr>) c;
          c = limit ''EDGE_GPU_RESERVE_MB'' (\<lambda>v l. l\<lparr>gpuReserveMb := v\<rparr>) c;
          c = limit ''EDGE_WORKER_GPU_MB'' (\<lambda>v l. l\<lparr>workerGpuMb := v\<rparr>) c;
          c = limit ''EDGE_RAM_RESERVE_MB'' (\<lambda>v l. l\<lparr>ramReserveMb := v\<rparr>) c;
          c = limit ''EDGE_WORKER_RAM_MB'' (\<lambda>v l. l\<lparr>workerRamMb := v\<rparr>) c;
          c = fromEnv env ''EDGE_HW_PROBE_TIMEOUT_MS'' parseIntArg (\<lambda>v c. c\<lparr>cfg_hardwareProbeTimeoutMs := v\<rparr>) c;
          c = live ''EDGE_WORKER_HEARTBEAT_GRACE_MS'' (\<lambda>v l. l\<lparr>lim_startupGraceMs := v\<rparr>) c;
          c = live ''EDGE_WORKER_HEARTBEAT_TIMEOUT_MS'' (\<lambda>v l. l\<lparr>lim_heartbeatTimeoutMs := v\<rparr>) c;
          c = live ''EDGE_WORKER_STUCK_REQUEST_MS'' (\<lambda>v l. l\<lparr>lim_stuckRequestMs := v\<rparr>) c
      in fromEnv env ''EDGE_MEMINFO_PATH'' Some (\<lambda>v c. c\<lparr>cfg_meminfoPath := v\<rparr>) c)"

definition parseWorkerCount :: "string \<Rightarrow> int option" where
  "parseWorkerCount raw = (case parseIntArg raw of None \<Rightarrow> None | Some v \<Rightarrow> if v \<le> 0 then None else Some v)"

definition supervisorFlags :: "SupervisorConfig flag list" where
  "supervisorFlags =
     [(''--model-path'', storeText (\<lambda>v c. c\<lparr>cfg_modelPath := v\<rparr>)),
      (''--worker-count'', storeParsed ''--worker-count'' parseWorkerCount (\<lambda>v c. c\<lparr>cfg_workerCount := v\<rparr>)),
      (''--model-cache-bin'', storeText (\<lambda>v c. c\<lparr>cfg_modelCacheBinary := v\<rparr>)),
      (''--worker-bin'', storeText (\<lambda>v c. c\<lparr>cfg_workerBinary := v\<rparr>)),
      (''--api-bin'', storeText (\<lambda>v c. c\<lparr>cfg_apiBinary := v\<rparr>)),
      (''--api-entry'', storeText (\<lambda>v c. c\<lparr>cfg_apiEntry := v\<rparr>)),
      (''--shm-name'', storeText (\<lambda>v c. c\<lparr>cfg_shmName := v\<rparr>)),
      (''--supervisor-socket'', storeText (\<lambda>v c. c\<lparr>cfg_supervisorSocketPath := v\<rparr>)),
      (''--api-notify-socket'', storeText (\<lambda>v c. c\<lparr>cfg_apiNotifySocketPath := v\<rparr>))]"

definition supervisorMain :: "environ \<Rightarrow> string list \<Rightarrow> string + SupervisorConfig" where
  "supervisorMain env args =
     (case parseFlags supervisorFlags (\<lambda>arg. None) args (supervisorEnvConfig env) of
        Inl message \<Rightarrow> Inl message
      | Inr config \<Rightarrow>
          if cfg_modelPath config = [] then Inl ''--model-path is required (or set EDGE_MODEL_PATH)''
          else if cfg_shmName config = [] then Inl ''--shm-name is required (or set EDGE_SHM_NAME)''
          else if cfg_supervisorSocketPath config = []
          then Inl ''--supervisor-socket is required (or set EDGE_SUPERVISOR_SOCK)''
          else if cfg_apiNotifySocketPath config = []
          then Inl ''--api-notify-socket is required (or set EDGE_API_NOTIFY_SOCK)''
          else if workerSockPrefix env = [] then Inl ''EDGE_WORKER_SOCKET_PREFIX is required''
          else if crashLogEnv env = [] then Inl ''EDGE_CRASH_LOG is required''
          else if modelConfigPath env = [] then Inl ''EDGE_MODEL_CONFIG_PATH is required''
          else Inr config)"

end
