(* ===== verification/Worker_Demo.thy ===== *)
theory Worker_Demo
  imports Worker_Process
begin

text \<open>A worker started for good: the smallest run of \<^verbatim>\<open>init\<close>, used to apply the worker's properties.\<close>

definition demoEnv :: environ where
  "demoEnv = [''EDGE_MODEL_PATH'' \<mapsto> ''/m'', ''EDGE_SHM_NAME'' \<mapsto> ''/edge'', ''EDGE_SUPERVISOR_SOCK'' \<mapsto> ''/sup'',
     ''EDGE_API_NOTIFY_SOCK'' \<mapsto> ''/api'', ''EDGE_WORKER_SOCKET_PREFIX'' \<mapsto> ''/w'', ''EDGE_CRASH_LOG'' \<mapsto> ''/c'',
     ''EDGE_MODEL_CONFIG_PATH'' \<mapsto> ''/j'', ''EDGE_DEVICE_LADDER'' \<mapsto> ''cpu'']"

definition demoWorkerConfig :: WorkerConfig where
  "demoWorkerConfig = defaultWorkerConfig\<lparr>wc_workerId := 3, wc_shmName := ''/edge'', wc_modelPath := ''/m'',
     wc_socketPath := workerSock demoEnv 3, wc_supervisorSocketPath := ''/sup'', wc_deviceLadder := [''cpu''],
     wc_assignedBackend := ''cpu''\<rparr>"

lemma demo_socket [simp]: "workerSock demoEnv 3 \<noteq> []"
  by (simp add: workerSock_def)

definition demoShm :: shm where
  "demoShm = [''/edge'' \<mapsto> [1], ''/edge.meta'' \<mapsto> [69, 68, 71, 69, 0, 0, 0, 0, 1, 0, 0, 0, 0, 0, 0, 0,
     0, 0, 0, 0, 0, 0, 0, 0, 0, 0, 0, 0, 0, 0, 0, 0, 2, 0, 0, 0, 1]]"

definition demoAttach :: attach_os where
  "demoAttach = \<lparr>ao_metaOpen = True, ao_metaMap = True, ao_shmOpen = True, ao_fstat = True, ao_shmMap = True, ao_readable = True\<rparr>"

definition demoListen :: listen_os where
  "demoListen = \<lparr>lo_socket = True, lo_bind = True, lo_listen = True\<rparr>"

definition demoWorkerWorld :: worker_world where
  "demoWorkerWorld = \<lparr>ww_os = demoWorld\<lparr>w_machine := (\<lambda>t. demoMachine [])\<rparr>, ww_hexagon = False, ww_engine = None,
     ww_llama = demoLlama\<lparr>ll_loads := [True]\<rparr>, ww_backends = [], ww_calls = []\<rparr>"

lemma demo_header:
  "mappedHeader (the (demoShm ''/edge.meta'')) =
     Some \<lparr>hdr_magic = edgeMagic @ [0, 0, 0, 0], hdr_modelSize = 1, hdr_checksum = 0, hdr_loadedAt = 0,
       hdr_version = 2, hdr_ready = 1, hdr_runNonce = 0\<rparr>"
  by (simp add: mappedHeader_def demoShm_def readHeader_def peek_def kHeaderSize_def edgeMagic_def)

lemma demo_attach:
  "attachSharedMemory demoAttach demoShm (newWorker demoWorkerConfig) =
     Some (True, (newWorker demoWorkerConfig)\<lparr>wk_shmFd := True, wk_shmSize := 1, wk_shmPtr := True,
       wk_config := demoWorkerConfig\<lparr>wc_modelPath := ''/dev/shm/edge''\<rparr>\<rparr>)"
  using demo_header
  by (simp add: attachSharedMemory_def demoAttach_def newWorker_def demoWorkerConfig_def defaultWorkerConfig_def
      shmMetaName_def shmFilePath_def Let_def demoShm_def edgeMagic_def)

lemmas demo_worker_defs = workerInit_def selectDevice_def newBackendRouter_def setProbe_def
  newDeviceLadder_def freshTier_def invalidateProbeCache_def ladderFrom_def registerBackend_def routerSelect_def
  onLadder_def select_def usable_def probeTierCached_def wwNow_def steadyNow_def probeTier_def backendFor_def
  set_tier_def logTierState_def tierState_def ladderToJson_def setDevice_def active_def
  probeDevice_def findBackend_def kBackends_def backendRow_def probeCpu_def wwMachine_def
  engineInit_def newInferEngine_def workerInferConfig_def defaultInferConfig_def loadModel_def llamaLoad_def
  llamaContext_def llamaNote_def bindHexagon_def registerLlamaBackends_def knownBackends_def tierIsLlamaServed_def
  setupSocketServer_def wwEnv_def Let_def

definition demoReady :: worker_state where
  "demoReady = the (snd (the (workerInit demoAttach demoShm demoListen (newWorker demoWorkerConfig) demoWorkerWorld)))"

lemma demo_init:
  "workerInit demoAttach demoShm demoListen (newWorker demoWorkerConfig) demoWorkerWorld = Some (True, Some demoReady) \<and>
   lad_active (rt_ladder demoReady) = ''cpu'' \<and> lad_activeIndex (rt_ladder demoReady) = 0 \<and>
   length (lad_tiers (rt_ladder demoReady)) = 1 \<and> lad_baselineIndex (rt_ladder demoReady) = 0 \<and>
   backendFor (rt_world demoReady) ''cpu'' = Some (LlamaInferenceBackend ''cpu'' True) \<and>
   (\<exists>E. ww_engine (rt_world demoReady) = Some E \<and> ie_model E \<and> ie_faultInjected E = False \<and> ic_maxTokens (ie_cfg E) = 512) \<and>
   ww_llama (rt_world demoReady) = demoLlama\<lparr>ll_loads := [], ll_contexts := [False],
     ll_trace := [LlContext 2048 True, LlLoad ''/dev/shm/edge'' 0 True, LlBackendInit]\<rparr> \<and>
   wwEnv (rt_world demoReady) = Map.empty \<and>
   wc_reexec (wk_config (rt_owner demoReady)) \<and> wk_running (rt_owner demoReady) = False \<and> wk_exitCode (rt_owner demoReady) = 0"
  unfolding demoReady_def workerInit_def demo_attach option.case prod.case
  by (simp add: demo_worker_defs demoWorkerWorld_def demoWorkerConfig_def defaultWorkerConfig_def newWorker_def
      demoWorld_def demoMachine_def demoLlama_def demoListen_def)


lemma demo_stream:
  "\<exists>w'. tryTier ''cpu'' ''q'' True (rt_world demoReady) =
     Some (emptyExecution\<lparr>bx_text := ''hi''\<rparr>, [''hi''], w') \<and> ww_calls w' = ww_calls (rt_world demoReady)"
proof -
  obtain E where E: "ww_engine (rt_world demoReady) = Some E" "ie_model E" "ie_faultInjected E = False"
    "ic_maxTokens (ie_cfg E) = 512" using demo_init by blast
  have ll: "ww_llama (rt_world demoReady) = demoLlama\<lparr>ll_loads := [], ll_contexts := [False],
     ll_trace := [LlContext 2048 True, LlLoad ''/dev/shm/edge'' 0 True, LlBackendInit]\<rparr>"
    "wwEnv (rt_world demoReady) = Map.empty" "backendFor (rt_world demoReady) ''cpu'' = Some (LlamaInferenceBackend ''cpu'' True)"
    using demo_init by blast+
  show ?thesis using E ll
    by (simp add: tryTier_def runThroughEngine_def generateStreaming_def injectedFault_def clearFault_def
        setExecutingTier_def demoLlama_def tokenize_def llamaTokenize_def llamaDecode_def runDecodeLoop_def
        llamaSample_def emptyExecution_def Let_def numeral_eq_Suc)
qed

lemma demo_route_owner:
  "\<exists>r'. route (Some onTierChanged) ''q'' True (demoReady\<lparr>rt_owner := W\<rparr>) =
     Some (\<lparr>rr_text = ''hi'', rr_device = ''cpu'', rr_degraded = False, rr_degradedReason = lad_degradedReason (rt_ladder r'),
       rr_fault = KNone, rr_detail = []\<rparr>, [''hi''], r') \<and> rt_owner r' = W"
proof -
  obtain w' where t: "tryTier ''cpu'' ''q'' True (rt_world demoReady) =
     Some (emptyExecution\<lparr>bx_text := ''hi''\<rparr>, [''hi''], w')" using demo_stream by blast
  have L: "lad_active (rt_ladder demoReady) = ''cpu''" "lad_activeIndex (rt_ladder demoReady) = 0"
    "length (lad_tiers (rt_ladder demoReady)) = 1" using demo_init by blast+
  have rec: "attemptRecovery (Some onTierChanged) (demoReady\<lparr>rt_owner := W\<rparr>) = Some (False, demoReady\<lparr>rt_owner := W\<rparr>)"
    using L by (simp add: attemptRecovery_def onLadder_def recoverEligibleTier_def Let_def)
  show ?thesis
    using L t by (simp add: route_def rec active_def tierCount_def finishRoute_def emptyExecution_def bx_ok_def
        degraded_def Let_def)
qed

lemma demo_route:
  "\<exists>r'. route (Some onTierChanged) ''q'' True demoReady =
     Some (\<lparr>rr_text = ''hi'', rr_device = ''cpu'', rr_degraded = False, rr_degradedReason = lad_degradedReason (rt_ladder r'),
       rr_fault = KNone, rr_detail = []\<rparr>, [''hi''], r')"
  using demo_route_owner [of "rt_owner demoReady"] by auto

text \<open>One client that asks for a stream and reads everything, and then the signal to stop.\<close>

definition demoAsk :: InferenceJob where
  "demoAsk = \<lparr>job_requestId = ''a'', job_prompt = ''q'', job_stream = True\<rparr>"

definition demoClient :: client_os where
  "demoClient = \<lparr>cl_now = 5, cl_reads = [ReadBytes (jobText demoAsk ''m'' @ [newline])], cl_sends = [SendBytes 1000, SendError]\<rparr>"

lemma demo_serves:
  "\<exists>r'. workerRun [AcceptClient demoClient, AcceptStop] demoReady = Some (0, [tokenFrame ''a'' ''hi''], r')"
proof -
  let ?W = "setStarted 5 ((rt_owner demoReady)\<lparr>wk_running := True\<rparr>)"
  obtain q where q: "route (Some onTierChanged) ''q'' True (demoReady\<lparr>rt_owner := ?W\<rparr>) =
     Some (\<lparr>rr_text = ''hi'', rr_device = ''cpu'', rr_degraded = False, rr_degradedReason = lad_degradedReason (rt_ladder q),
       rr_fault = KNone, rr_detail = []\<rparr>, [''hi''], q)" "rt_owner q = ?W" using demo_route_owner by blast
  have ask: "cl_now demoClient = 5" "cl_sends demoClient = [SendBytes 1000, SendError]"
    "job_requestId demoAsk = ''a''" "job_prompt demoAsk = ''q''" "job_stream demoAsk"
    by (simp_all add: demoClient_def demoAsk_def)
  have "length (jobText demoAsk ''m'') < 1000" "jobText demoAsk ''m'' \<noteq> []"
    by (simp_all add: jobText_def demoAsk_def workerJsonEscape_def)
  then have "readPayload (cl_reads demoClient) [] = Some (Inr (jobText demoAsk ''m'' @ [newline]))"
    by (intro readPayload_line) (simp_all add: demoClient_def sound_reads_def jobText_one_line)
  moreover have "firstLine (jobText demoAsk ''m'' @ [newline]) = jobText demoAsk ''m''"
    by (simp add: firstLine_line jobText_one_line)
  moreover obtain E where "ww_engine (rt_world demoReady) = Some E" using demo_init by blast
  moreover have "sendAll (resultFrame i t f) [SendError] = Some (False, [], [])" for i t f
    by (simp add: resultFrame_def)
  moreover have "sendTokens ''a'' [''hi''] [SendBytes 1000, SendError] = Some (True, tokenFrame ''a'' ''hi'', [SendError])"
    by (simp add: tokenFrame_def workerJsonEscape_def)
  ultimately have "handleClient demoClient (demoReady\<lparr>rt_owner := (rt_owner demoReady)\<lparr>wk_running := True\<rparr>\<rparr>) =
      Some (tokenFrame ''a'' ''hi'', onOwner (setStarted 0 \<circ> setDevice (active q)) q)"
    using q ask by (simp add: handleClient_def jobText_parsed serveJob_def streamWithFallback_def reply_def Let_def)
  moreover have "wk_exitCode (rt_owner demoReady) = 0" using demo_init by blast
  ultimately show ?thesis
    using q(2) by (simp add: workerRun_def serveLoop.simps workerRequestStop_def setStarted_def setDevice_def)
qed

end
