(* ===== verification/Worker_Properties.thy ===== *)
theory Worker_Properties
  imports Worker_Demo
begin

text \<open>
  What a worker process promises: its fallback hook keeps the router's contract, so the router's lemmas hold
  for every request it answers, from \<^verbatim>\<open>init\<close> to the exit code the supervisor reads.
\<close>

section \<open>The hook\<close>

lemma router_ok_ladder: "rt_ladder r' = rt_ladder r \<Longrightarrow> router_ok N r' = router_ok N r"
  by (simp add: router_ok_def)

lemma same_calls_owner [simp]: "same_calls r (onOwner f r)" "same_calls r s \<Longrightarrow> same_calls r (onOwner f s)"
  by (simp_all add: same_calls_def)

lemma reloadEngine_spec:
  assumes "reloadEngine forceCpu r = Some (ok, r')"
  shows "rt_ladder r' = rt_ladder r" "rt_owner r' = rt_owner r" "same_calls r r'"
    "\<exists>E ll E' ll'. ww_engine (rt_world r) = Some E \<and> ww_llama (rt_world r) = ll \<and>
       ww_engine (rt_world r') = Some E' \<and> ww_llama (rt_world r') = ll' \<and>
       reloadOn forceCpu (E, ll) = (ok, E', ll')"
  using assms by (auto simp: reloadEngine_def same_calls_def split: option.splits prod.splits)

lemma onTierChanged_reload:
  assumes "onTierChanged p n r = Some (up, r')"
  shows "\<exists>ok s. reloadEngine (n = ''cpu'') (onOwner (setDevice n) r) = Some (ok, s) \<and> up = ok \<and>
    (if ok then \<exists>W. r' = (logTierState s)\<lparr>rt_owner := W\<rparr> else r' = s)"
proof -
  obtain ok s where s: "reloadEngine (n = ''cpu'') (onOwner (setDevice n) r) = Some (ok, s)"
    using assms by (auto simp: onTierChanged_def Let_def split: option.splits if_splits)
  have owner: "\<exists>W. t = t\<lparr>rt_owner := W\<rparr>" for t :: worker_state by (rule exI [of _ "rt_owner t"]) simp
  have "up = ok \<and> (if ok then \<exists>W. r' = (logTierState s)\<lparr>rt_owner := W\<rparr> else r' = s)"
    using assms s owner [of "logTierState s"] by (auto simp: onTierChanged_def Let_def split: if_splits)
  with s show ?thesis by blast
qed

lemma onTierChanged_keeps:
  assumes "router_ok N r" and "onTierChanged p n r = Some (up, r')"
  shows "router_ok N r' \<and> same_but_cache (rt_ladder r) (rt_ladder r') \<and> same_calls r r'"
proof -
  obtain ok s where s: "reloadEngine (n = ''cpu'') (onOwner (setDevice n) r) = Some (ok, s)"
    "if ok then \<exists>W. r' = (logTierState s)\<lparr>rt_owner := W\<rparr> else r' = s"
    using onTierChanged_reload [OF assms(2)] by blast
  have l: "rt_ladder s = rt_ladder r" using reloadEngine_spec(1) [OF s(1)] by simp
  then have ok_s: "router_ok N s" using assms(1) router_ok_ladder by blast
  have calls: "same_calls r s"
    using reloadEngine_spec(3) [OF s(1)] by (simp add: same_calls_def)
  show ?thesis
  proof (cases ok)
    case False
    with s(2) l ok_s calls show ?thesis by simp
  next
    case True
    with s(2) obtain W where "r' = (logTierState s)\<lparr>rt_owner := W\<rparr>" by auto
    with log_state [OF ok_s] l calls show ?thesis
      by (auto simp: router_ok_def same_calls_def)
  qed
qed

interpretation wkh: tier_hook onTierChanged
  by unfold_locales (use onTierChanged_keeps in blast)+

section \<open>From start to exit\<close>

lemma invalidate_same: "same_but_cache L (invalidateProbeCache L)"
  by (auto simp: same_but_cache_def invalidateProbeCache_def tier_core_def)

lemma new_router_ok: "router_ok order (newBackendRouter order q p w W)"
  by (auto simp: router_ok_def newBackendRouter_def setProbe_def newDeviceLadder_def invalidateProbeCache_def
      ladder_ok_def freshTier_def cpu_cached_def tier_ok_def list_all_iff comp_def)

lemma register_ok: "router_ok N r \<Longrightarrow> router_ok N (registerBackend b r)" "same_calls r (registerBackend b r)"
proof -
  show "router_ok N r \<Longrightarrow> router_ok N (registerBackend b r)"
    using same_ok [OF invalidate_same [of "rt_ladder r"]] same_sel(8) [OF invalidate_same [of "rt_ladder r"]]
      same_names [OF invalidate_same [of "rt_ladder r"]]
    by (auto simp: router_ok_def registerBackend_def cpu_cached_def invalidateProbeCache_def)
  show "same_calls r (registerBackend b r)" by (simp add: registerBackend_def same_calls_def)
qed

lemma register_llama_ok:
  "router_ok N r \<Longrightarrow> router_ok N (registerLlamaBackends r) \<and> same_calls r (registerLlamaBackends r)"
proof -
  have "router_ok N (fold (\<lambda>tier. registerBackend (LlamaInferenceBackend tier True)) ts r) \<and>
      same_calls r (fold (\<lambda>tier. registerBackend (LlamaInferenceBackend tier True)) ts r)" if "router_ok N r" for ts
    using that
  proof (induction ts arbitrary: r)
    case (Cons t ts)
    from Cons.IH [OF register_ok(1) [OF Cons.prems, of "LlamaInferenceBackend t True"]]
    show ?case using register_ok(2) [of r "LlamaInferenceBackend t True"] by (auto intro: same_calls_trans)
  qed simp
  then show "router_ok N r \<Longrightarrow> ?thesis" by (simp add: registerLlamaBackends_def)
qed

lemma routerSelect_ok:
  assumes "routerSelect r = (ok, r')" and "router_ok N r"
  shows "router_ok N r' \<and> same_calls r r'"
proof -
  obtain ok0 r0 where sel: "onLadder (select wwNow) r = (ok0, r0)" by force
  obtain x r9 where json: "onLadder (ladderToJson wwNow) r0 = (x, r9)" by force
  note r0 = router_select [OF sel assms(2)]
  have "r' = (if ok0 then logTierState r0 else r9)"
    using sel json assms(1) by (auto simp: routerSelect_def split: if_splits)
  with r0 log_state(1,2) [OF r0(1)] router_log(1,2) [OF disjI2 [OF json] r0(1)] show ?thesis
    by (auto intro: same_calls_trans)
qed

definition world_calls :: "worker_world \<Rightarrow> worker_world \<Rightarrow> bool" where
  "world_calls w w' \<longleftrightarrow> ww_calls w' = ww_calls w \<and> w_machine (ww_os w') = w_machine (ww_os w)"

definition workerTiers :: "WorkerConfig \<Rightarrow> string list" where
  "workerTiers config = ladderFrom (wc_deviceLadder config) (wc_assignedBackend config = ''cpu'') (wc_forceCpu config)"

lemma selectDevice_ok:
  assumes "selectDevice W w = (ok, r)"
  shows "router_ok (workerTiers (wk_config W)) r \<and> world_calls w (rt_world r)"
proof -
  define r0 :: worker_state where "r0 = registerBackend (RemoteInferenceBackend (makeRemoteTransport (wwEnv w)) False)
    (registerBackend CoreMlAneBackend (registerBackend (QualcommHexagonBackend False False)
      (newBackendRouter (ladderFrom (wc_deviceLadder (wk_config W)) (wc_assignedBackend (wk_config W) = ''cpu'')
         (wc_forceCpu (wk_config W))) (wc_deviceQuarantineMs (wk_config W)) (wc_deviceProbeIntervalMs (wk_config W)) w W)))"
  have r0: "router_ok (workerTiers (wk_config W)) r0" "world_calls w (rt_world r0)"
    by (simp_all add: r0_def workerTiers_def register_ok new_router_ok)
       (simp add: world_calls_def registerBackend_def newBackendRouter_def)
  obtain ok1 r1 where s: "routerSelect r0 = (ok1, r1)" by force
  note r1 = routerSelect_ok [OF s r0(1)]
  let ?r1 = "onOwner (setDevice (active r1)) r1"
  obtain x r2 where json: "onLadder (ladderToJson wwNow) ?r1 = (x, r2)" by force
  have "router_ok (workerTiers (wk_config W)) ?r1" using r1 router_ok_ladder [of ?r1 r1] by simp
  note r2 = router_log(1,2) [OF disjI2 [OF json] this]
  have "r = (if ok1 then r2 else r1)"
    using assms s json by (auto simp: selectDevice_def Let_def r0_def [symmetric] split: if_splits)
  with r0(2) r1 r2 show ?thesis by (auto simp: world_calls_def same_calls_def)
qed

lemma workerInit_ok:
  assumes "workerInit aos s los W w = Some (True, Some r)"
  shows "router_ok (workerTiers (wk_config W)) r" and "world_calls w (rt_world r)" and "ww_engine (rt_world r) \<noteq> None"
proof -
  obtain W1 where W1: "attachSharedMemory aos s W = Some (True, W1)"
    using assms by (auto simp: workerInit_def split: option.splits if_splits)
  obtain r1 where r1: "selectDevice W1 w = (True, r1)"
    using assms W1 by (auto simp: workerInit_def split: prod.splits if_splits)
  have tiers: "workerTiers (wk_config W1) = workerTiers (wk_config W)"
    using W1 by (auto simp: attachSharedMemory_def workerTiers_def Let_def split: option.splits if_splits)
  note ok1 = selectDevice_ok [OF r1, unfolded tiers]
  define off where "off \<longleftrightarrow> active r1 = ''cuda'' \<or> active r1 = ''npu'' \<and> hexagonCompiledIn (rt_world r1)"
  obtain ok E ll where e: "engineInit (newInferEngine (workerInferConfig (wk_config (rt_owner r1)) off), ww_llama (rt_world r1))
      = (ok, E, ll)" by (metis prod_cases3)
  define r2 where "r2 = r1\<lparr>rt_world := (rt_world r1)\<lparr>ww_engine := Some E, ww_llama := ll\<rparr>\<rparr>"
  have ok2: "router_ok (workerTiers (wk_config W)) r2" "world_calls w (rt_world r2)" "ww_engine (rt_world r2) = Some E"
    using ok1 by (simp_all add: r2_def router_ok_def world_calls_def)
  obtain b r3 where f: "onLadder (reportFault wwNow KUnavailable ''gpu model load failed at startup'') r2 = (b, r3)" by force
  define r4 where "r4 = (if active r2 = ''cuda'' \<and> \<not> isUsingGPU E then r3 else r2)"
  note ok3 = router_fault(1,2) [OF f ok2(1)]
  have e3: "ww_engine (rt_world r3) = Some E"
  proof -
    obtain L v where v: "reportFault wwNow KUnavailable ''gpu model load failed at startup'' (rt_ladder r2) (rt_world r2) = (b, L, v)"
      "r3 = r2\<lparr>rt_ladder := L, rt_world := v\<rparr>" using onLadder_eq [OF f] by blast
    have "lad_probe (rt_ladder r2) = probeTier" using ok2(1) by (simp add: router_ok_def)
    from wwr.ladder_op_reads(5) [OF this v(1)] v(2) ok2(3) show ?thesis
      unfolding clockOnly_def by (metis router.select_convs(2) router.surjective router.update_convs(1,2)
          worker_world.select_convs(3) worker_world.surjective worker_world.update_convs(1))
  qed
  have ok4: "router_ok (workerTiers (wk_config W)) r4" "world_calls w (rt_world r4)" "ww_engine (rt_world r4) = Some E"
    using ok2 ok3 e3 by (auto simp: r4_def world_calls_def same_calls_def)
  note ok5 = register_llama_ok [OF ok4(1)]
  have r: "rt_ladder r = rt_ladder (registerLlamaBackends r4)"
    "rt_world r = rt_world (bindHexagon (registerLlamaBackends r4))"
    using assms W1 r1 e [unfolded off_def] f
    by (auto simp: workerInit_def Let_def r4_def r2_def [symmetric] bindHexagon_def split: if_splits prod.splits)
  show "router_ok (workerTiers (wk_config W)) r" using ok5 r(1) router_ok_ladder by blast
  show "world_calls w (rt_world r)"
    using ok5 ok4(2) r(2) by (auto simp: world_calls_def same_calls_def bindHexagon_def)
  have keep: "ww_engine (rt_world (fold (\<lambda>tier. registerBackend (LlamaInferenceBackend tier True)) ts q)) = ww_engine (rt_world q)" for ts and q :: worker_state
    by (induction ts arbitrary: q) (simp_all add: registerBackend_def)
  show "ww_engine (rt_world r) \<noteq> None"
    using ok4(3) r(2) keep by (simp add: registerLlamaBackends_def bindHexagon_def)
qed

section \<open>Serving\<close>

text \<open>What serving one client, or many, leaves behind.\<close>

definition serve_keeps :: "string list \<Rightarrow> worker_state \<Rightarrow> worker_state \<Rightarrow> bool" where
  "serve_keeps N r r' \<longleftrightarrow> router_ok N r' \<and> (no_consent r \<longrightarrow> same_calls r r')"

lemma serve_keeps_trans: "serve_keeps N r s \<Longrightarrow> serve_keeps N s t \<Longrightarrow> serve_keeps N r t"
  unfolding serve_keeps_def using same_calls_consent [of r s] same_calls_trans [of r s t] by blast

lemma serve_keeps_owner:
  "router_ok N r \<Longrightarrow> serve_keeps N r (onOwner f r)" "serve_keeps N r s \<Longrightarrow> serve_keeps N r (onOwner f s)"
  by (auto simp: serve_keeps_def router_ok_def)

lemma route_keeps:
  "route (Some onTierChanged) prompt onToken r = Some (res, tokens, r') \<Longrightarrow> router_ok N r \<Longrightarrow> serve_keeps N r r'"
  using wkh.route_spec by (auto simp: serve_keeps_def)

lemma reply_state: "reply frame ss r = Some (out, r') \<Longrightarrow> r' = r"
  by (auto simp: reply_def)

lemma serveJob_keeps:
  assumes "serveJob job ss r = Some (out, r')" and "router_ok N r"
  shows "serve_keeps N r r'"
proof -
  consider "ww_engine (rt_world r) = None" | "ww_engine (rt_world r) \<noteq> None" "\<not> job_stream job"
    | "ww_engine (rt_world r) \<noteq> None" "job_stream job" by blast
  then show ?thesis
  proof cases
    case 1
    with assms show ?thesis using serve_keeps_owner(1) [of N r id]
      by (auto simp: serveJob_def Let_def dest!: reply_state)
  next
    case 2
    with assms show ?thesis
      by (auto simp: serveJob_def generateWithFallback_def Let_def dest!: reply_state
          split: option.splits intro!: serve_keeps_owner(2) route_keeps)
  next
    case 3
    then obtain res tokens s where "route (Some onTierChanged) (job_prompt job) True r = Some (res, tokens, s)"
      "r' = onOwner (setDevice (active s)) s"
      using assms(1) by (auto simp: serveJob_def streamWithFallback_def Let_def dest!: reply_state
          split: option.splits if_splits)
    then show ?thesis using route_keeps [OF _ assms(2)] serve_keeps_owner(2) by blast
  qed
qed

lemma handleClient_keeps:
  assumes "handleClient client r = Some (out, r')" and "router_ok N r"
  shows "serve_keeps N r r'"
proof -
  let ?r = "onOwner (setStarted (cl_now client)) r"
  have r: "router_ok N ?r" "serve_keeps N r ?r" using assms(2) serve_keeps_owner(1) by (auto simp: router_ok_def)
  obtain s out0 where inner: "(case readPayload (cl_reads client) [] of None \<Rightarrow> None
      | Some (Inl u) \<Rightarrow> Some ([], ?r)
      | Some (Inr payload) \<Rightarrow>
          (case parseJob (firstLine payload) of
             (job, Some parseError) \<Rightarrow> reply (errorFrame (job_requestId job) parseError) (cl_sends client) ?r
           | (job, None) \<Rightarrow> serveJob job (cl_sends client) ?r)) = Some (out0, s)"
    and r': "r' = onOwner (setStarted 0) s"
    using assms(1) unfolding handleClient_def Let_def by (auto simp only: map_option_eq_Some split: prod.splits)
  have s: "s = ?r \<or> (\<exists>job out. serveJob job (cl_sends client) ?r = Some (out, s))"
    using inner by (auto split: option.splits sum.splits prod.splits dest!: reply_state)
  have "serve_keeps N r s"
    using s r(2) serve_keeps_trans [OF r(2) serveJob_keeps [OF _ r(1)]] by blast
  with r' serve_keeps_owner(2) show ?thesis by simp
qed

lemma serveLoop_keeps:
  "serveLoop as r = Some (outs, r') \<Longrightarrow> router_ok N r \<Longrightarrow> serve_keeps N r r'"
proof (induction as r arbitrary: outs r' rule: serveLoop.induct)
  case (1 as r)
  show ?case
  proof (cases "wk_running (rt_owner r)")
    case False
    with 1(4,5) serve_keeps_owner(1) [of N r id] show ?thesis by (simp add: serveLoop.simps)
  next
    case True
    note run = 1(4) [unfolded serveLoop.simps [of as r]]
    show ?thesis
    proof (cases as)
      case Nil
      with True run show ?thesis by simp
    next
      case (Cons a as')
      show ?thesis
      proof (cases a)
        case (AcceptClient client)
        obtain out s outs' where c: "handleClient client r = Some (out, s)" "serveLoop as' s = Some (outs', r')"
          using run True Cons AcceptClient by (auto split: option.splits)
        have s: "serve_keeps N r s" using handleClient_keeps [OF c(1) 1(5)] .
        then have "router_ok N s" by (simp add: serve_keeps_def)
        from 1(1) [OF _ Cons AcceptClient c(1) refl c(2) this] True have "serve_keeps N s r'" by simp
        with s show ?thesis by (rule serve_keeps_trans)
      next
        case AcceptFailed
        then have "serveLoop as' r = Some (outs, r')" using run True Cons by simp
        with 1(2) True Cons AcceptFailed 1(5) show ?thesis by simp
      next
        case AcceptStop
        have "serveLoop as' (onOwner workerRequestStop r) = Some (outs, r')"
          using run True Cons AcceptStop by simp
        moreover have "router_ok N (onOwner workerRequestStop r)" using 1(5) by (simp add: router_ok_def)
        ultimately have "serve_keeps N (onOwner workerRequestStop r) r'" using 1(3) True Cons AcceptStop by simp
        with serve_keeps_owner(1) [OF 1(5)] show ?thesis by (rule serve_keeps_trans)
      qed
    qed
  qed
qed

section \<open>What a worker promises\<close>

text \<open>C3: without consent no prompt leaves the device. From \<^verbatim>\<open>init\<close> to its exit, whatever clients send, however
  tiers fail, recover and fall, a worker on a machine whose remote tier is never available (the opt-in is
  not given, or nothing is configured) never once calls the remote transport.\<close>

theorem prompts_stay_home:
  assumes "workerInit aos s los W w = Some (True, Some r)"
    and "\<forall>t. probeDevice (w_machine (ww_os w) t) ''remote'' \<noteq> KAvailable"
    and "workerRun as r = Some (code, outs, r')"
  shows "ww_calls (rt_world r') = ww_calls w"
proof -
  let ?r = "onOwner (\<lambda>W. W\<lparr>wk_running := True\<rparr>) r"
  note init = workerInit_ok(1,2) [OF assms(1)]
  have "router_ok (workerTiers (wk_config W)) ?r" using init(1) by (simp add: router_ok_def)
  moreover have "no_consent ?r" using assms(2) init(2) by (simp add: no_consent_def world_calls_def)
  moreover obtain outs' where "serveLoop as ?r = Some (outs', r')" using assms(3) by (auto simp: workerRun_def)
  ultimately have "same_calls ?r r'" using serveLoop_keeps unfolding serve_keeps_def by blast
  with init(2) show ?thesis by (simp add: same_calls_def world_calls_def)
qed

theorem prompts_stay_home_witness:
  "\<exists>r'. workerRun [AcceptClient demoClient, AcceptStop] demoReady = Some (0, [tokenFrame ''a'' ''hi''], r') \<and>
     ww_calls (rt_world r') = []"
proof -
  obtain r' where run: "workerRun [AcceptClient demoClient, AcceptStop] demoReady = Some (0, [tokenFrame ''a'' ''hi''], r')"
    using demo_serves by blast
  have "\<forall>t. probeDevice (w_machine (ww_os demoWorkerWorld) t) ''remote'' \<noteq> KAvailable"
    by (simp add: demoWorkerWorld_def demoMachine_def probeDevice_def findBackend_def kBackends_def backendRow_def
        probeRemote_def)
  from prompts_stay_home [OF conjunct1 [OF demo_init] this run] run show ?thesis
    by (auto simp: demoWorkerWorld_def)
qed





definition fullAnswer :: "string \<Rightarrow> string list \<Rightarrow> string \<Rightarrow> worker_state \<Rightarrow> string" where
  "fullAnswer rid tokens text' r = concat (map (tokenFrame rid) tokens) @ resultFrame rid text' (deviceResultFields r)"

lemma sendTokens_spec:
  "sendTokens rid tokens ss = Some (ok, got, ss') \<Longrightarrow>
   if ok then got = concat (map (tokenFrame rid) tokens)
   else \<exists>rest. concat (map (tokenFrame rid) tokens) = got @ rest"
proof (induction tokens arbitrary: ss ok got)
  case (Cons t ts)
  obtain ok1 got1 ss1 where s: "sendAll (tokenFrame rid t) ss = Some (ok1, got1, ss1)"
    using Cons.prems by (auto split: option.splits)
  note ss = sendAll_spec [OF s]
  show ?case
  proof (cases ok1)
    case False
    with s ss Cons.prems show ?thesis by auto
  next
    case True
    with s Cons.prems obtain more where m: "sendTokens rid ts ss1 = Some (ok, more, ss')" "got = got1 @ more"
      by auto
    from Cons.IH [OF m(1)] m(2) True ss show ?thesis by auto
  qed
qed simp

lemma sendTokens_delivers:
  "all_taken ss \<Longrightarrow> length (concat (map (tokenFrame rid) tokens)) \<le> length ss \<Longrightarrow>
   \<exists>k \<le> length (concat (map (tokenFrame rid) tokens)).
     sendTokens rid tokens ss = Some (True, concat (map (tokenFrame rid) tokens), drop k ss)"
proof (induction tokens arbitrary: ss)
  case (Cons t ts)
  let ?f = "tokenFrame rid t"
  obtain k where k: "k \<le> length ?f" "sendAll ?f ss = Some (True, ?f, drop k ss)"
    using sendAll_delivers [OF Cons.prems(1), of ?f] Cons.prems(2) by auto
  have "all_taken (drop k ss)" "length (concat (map (tokenFrame rid) ts)) \<le> length (drop k ss)"
    using Cons.prems k(1) by (auto simp: all_taken_def list_all_iff dest: in_set_dropD)
  from Cons.IH [OF this] obtain j where "j \<le> length (concat (map (tokenFrame rid) ts))"
    "sendTokens rid ts (drop k ss) = Some (True, concat (map (tokenFrame rid) ts), drop j (drop k ss))" by blast
  with k show ?case by (intro exI [of _ "j + k"]) (simp add: add.commute)
qed simp

lemma reply_spec:
  assumes "reply frame ss r = Some (out, r')"
  shows "r' = r" "\<exists>rest. frame = out @ rest" "all_taken ss \<and> length frame \<le> length ss \<longrightarrow> out = frame"
proof -
  obtain ok got ss' where s: "sendAll frame ss = Some (ok, got, ss')" "out = got" "r' = r"
    using assms by (auto simp: reply_def)
  show "r' = r" "\<exists>rest. frame = out @ rest" using s sendAll_spec [OF s(1)] by (auto split: if_splits)
  show "all_taken ss \<and> length frame \<le> length ss \<longrightarrow> out = frame" using s sendAll_delivers [of ss frame] by auto
qed

text \<open>The text of an answer: what was routed, or a fault spelled out when there is no text and nothing was streamed.\<close>

definition answerText :: "bool \<Rightarrow> RouteResult \<Rightarrow> string" where
  "answerText stream res =
     (if stream \<or> rr_ok res \<or> rr_text res \<noteq> [] then rr_text res else ''[error: '' @ rr_detail res @ '']'')"

text \<open>Sending tokens and then the result, and what the client has of it in the end.\<close>

definition sendAnswer :: "string \<Rightarrow> string list \<Rightarrow> string \<Rightarrow> send_answer list \<Rightarrow> worker_state \<Rightarrow> (string \<times> worker_state) option" where
  "sendAnswer rid tokens text' ss s =
     (case sendTokens rid tokens ss of
        None \<Rightarrow> None
      | Some (ok, got, ss) \<Rightarrow>
          if \<not> ok then Some (got, s)
          else map_option (\<lambda>(out, s). (got @ out, s)) (reply (resultFrame rid text' (deviceResultFields s)) ss s))"

lemma sendAnswer_Nil: "sendAnswer rid [] text' ss s = reply (resultFrame rid text' (deviceResultFields s)) ss s"
  by (cases "sendAll (resultFrame rid text' (deviceResultFields s)) ss") (auto simp: sendAnswer_def reply_def)

lemma sendAnswer_spec:
  assumes "sendAnswer rid tokens text' ss s = Some (out, r')"
  shows "r' = s" and "\<exists>rest. fullAnswer rid tokens text' s = out @ rest"
    and "all_taken ss \<and> length (fullAnswer rid tokens text' s) \<le> length ss \<longrightarrow> out = fullAnswer rid tokens text' s"
proof -
  let ?frames = "concat (map (tokenFrame rid) tokens)" and ?last = "resultFrame rid text' (deviceResultFields s)"
  obtain ok got ss' where t: "sendTokens rid tokens ss = Some (ok, got, ss')"
    and out: "if ok then \<exists>o2. reply ?last ss' s = Some (o2, r') \<and> out = got @ o2 else out = got \<and> r' = s"
    using assms by (auto simp: sendAnswer_def split: option.splits if_splits)
  show "r' = s" using out reply_spec(1) by (auto split: if_splits)
  show "\<exists>rest. fullAnswer rid tokens text' s = out @ rest"
    using out reply_spec(2) [of ?last ss' s] sendTokens_spec [OF t] by (auto simp: fullAnswer_def split: if_splits)
  show "all_taken ss \<and> length (fullAnswer rid tokens text' s) \<le> length ss \<longrightarrow> out = fullAnswer rid tokens text' s"
  proof (rule impI)
    assume taken: "all_taken ss \<and> length (fullAnswer rid tokens text' s) \<le> length ss"
    then obtain k where k: "k \<le> length ?frames" "sendTokens rid tokens ss = Some (True, ?frames, drop k ss)"
      using sendTokens_delivers [of ss rid tokens] by (auto simp: fullAnswer_def)
    then have o: "ok" "got = ?frames" "ss' = drop k ss" using t by simp_all
    then obtain o2 where o2: "reply ?last ss' s = Some (o2, r')" "out = got @ o2" using out by auto
    have "all_taken ss'" "length ?last \<le> length ss'"
      using taken o(3) k(1) by (auto simp: fullAnswer_def all_taken_def list_all_iff dest: in_set_dropD)
    with reply_spec(3) [OF o2(1)] o2(2) o(2) show "out = fullAnswer rid tokens text' s" by (simp add: fullAnswer_def)
  qed
qed

text \<open>Both ways of answering are one: route, then send; a request that does not stream has no tokens.\<close>

lemma serveJob_routes:
  assumes "serveJob job ss r = Some (out, r')" and "ww_engine (rt_world r) \<noteq> None" and "router_ok N r"
  shows "\<exists>res tokens q. route (Some onTierChanged) (job_prompt job) (job_stream job) r = Some (res, tokens, q) \<and>
    (tokens = [] \<or> job_stream job \<and> concat tokens = rr_text res) \<and>
    sendAnswer (job_requestId job) tokens (answerText (job_stream job) res) ss (onOwner (setDevice (active q)) q) = Some (out, r')"
proof -
  obtain res tokens q where q: "route (Some onTierChanged) (job_prompt job) (job_stream job) r = Some (res, tokens, q)"
    using assms(1,2) by (cases "job_stream job")
      (auto simp: serveJob_def generateWithFallback_def streamWithFallback_def Let_def split: option.splits)
  have tokens: "tokens = [] \<or> job_stream job \<and> concat tokens = rr_text res"
    using wkh.route_spec [OF q assms(3)] by (auto simp: wkh.served_def split: if_splits)
  let ?s = "onOwner (setDevice (active q)) q"
  have "sendAnswer (job_requestId job) tokens (answerText (job_stream job) res) ss ?s = Some (out, r')"
  proof (cases "job_stream job")
    case False
    then have "generateWithFallback (job_prompt job) r = Some (answerText False res, ?s)" "tokens = []"
      using q tokens by (simp_all add: generateWithFallback_def answerText_def)
    with assms(1,2) False show ?thesis by (simp add: serveJob_def sendAnswer_Nil)
  next
    case True
    then have "streamWithFallback (job_prompt job) r = Some (answerText True res, tokens, ?s)"
      using q by (simp add: streamWithFallback_def answerText_def)
    with assms(1,2) True show ?thesis by (simp add: serveJob_def sendAnswer_def Let_def)
  qed
  with q tokens show ?thesis by blast
qed



section \<open>Leaving the GPU\<close>

lemma logTierState_owner: "rt_owner (logTierState r) = rt_owner r"
  by (simp add: logTierState_def onLadder_def split: prod.splits)

lemma setDevice_sel [simp]:
  "wk_config (setDevice d W) = wk_config W" "wk_exitCode (setDevice d W) = wk_exitCode W"
  by (simp_all add: setDevice_def)

lemma engineResident_owner [simp]: "engineResident (r\<lparr>rt_owner := W\<rparr>) = engineResident r"
  by (simp add: engineResident_def)

text \<open>C23: exit code 70 means exactly what the supervisor reads in it. For a worker that has not decided to exit, the
  fallback hook sets the reassignment code if and only if the worker falls from another tier to the CPU
  while its engine has touched the device, re-exec is enabled and the engine was brought up again; then the
  serve loop takes no further client.\<close>

theorem reassign_exit_iff:
  assumes "onTierChanged previous next' r = Some (up, r')" and "wk_exitCode (rt_owner r) = 0"
  shows "(wk_exitCode (rt_owner r') = kReassignCpu \<longleftrightarrow>
      up \<and> \<not> indexOf (rt_ladder r) next' < indexOf (rt_ladder r) previous \<and>
      previous \<noteq> ''cpu'' \<and> next' = ''cpu'' \<and> engineResident r \<and> wc_reexec (wk_config (rt_owner r))) \<and>
    (wk_exitCode (rt_owner r') = kReassignCpu \<longrightarrow> serveLoop as r' = Some ([], r'))"
proof -
  let ?r = "onOwner (setDevice next') r"
  obtain ok s where s: "reloadEngine (next' = ''cpu'') ?r = Some (ok, s)"
    using onTierChanged_reload [OF assms(1)] by blast
  have owner: "rt_owner s = setDevice next' (rt_owner r)" "rt_owner (logTierState s) = rt_owner s"
    using reloadEngine_spec(2) [OF s] by (simp_all add: logTierState_owner)
  consider (failed) "\<not> ok" "\<not> up" "r' = s"
    | (up) "ok" "up" "indexOf (rt_ladder r) next' < indexOf (rt_ladder r) previous" "r' = logTierState s"
    | (down) "ok" "up" "\<not> indexOf (rt_ladder r) next' < indexOf (rt_ladder r) previous"
        "r' = (if requiresProcessRestartForCpuOnly (engineResident r) previous next' \<and>
                 deviceFallbackAction (engineResident r) previous next' (wc_reexec (wk_config (rt_owner r))) = KReexecAsCpu
               then onOwner (\<lambda>W. workerRequestStop (W\<lparr>wk_exitCode := kReassignCpu\<rparr>)) (logTierState s) else logTierState s)"
    using assms(1) s unfolding onTierChanged_def Let_def
    by (auto split: if_splits)
  then show ?thesis
  proof cases
    case failed
    with owner assms(2) show ?thesis by (simp add: kReassignCpu_def)
  next
    case up
    with owner assms(2) show ?thesis by (simp add: kReassignCpu_def)
  next
    case down
    with owner assms(2) show ?thesis
      by (auto simp: kReassignCpu_def requiresProcessRestartForCpuOnly_def deviceFallbackAction_def
          workerRequestStop_def serveLoop.simps split: if_splits)
  qed
qed

text \<open>A worker on the GPU whose engine reloads on the CPU.\<close>

definition demoOnGpu :: worker_state where
  "demoOnGpu = demoReady\<lparr>rt_ladder := newDeviceLadder probeTier [''cuda'', ''cpu''] 1000 0,
     rt_world := (rt_world demoReady)\<lparr>ww_engine := Some (fst demoGpuEngine),
       ww_llama := (snd demoGpuEngine)\<lparr>ll_loads := [True], ll_contexts := [True]\<rparr>\<rparr>\<rparr>"

lemma demo_fallback: "\<exists>r'. onTierChanged ''cuda'' ''cpu'' demoOnGpu = Some (True, r')"
proof -
  have "indexOf (rt_ladder demoOnGpu) ''cuda'' = 0"
    by (simp add: demoOnGpu_def indexOf_def newDeviceLadder_def freshTier_def)
  moreover have "\<exists>s. reloadEngine True (demoOnGpu\<lparr>rt_owner := W\<rparr>) = Some (True, s)" for W
    by (simp add: reloadEngine_def demoOnGpu_def demoGpuEngine_def demo_engine_defs reloadOn_def
        freeModelAndContext_def clearFault_def)
  then obtain s where "reloadEngine True (onOwner (setDevice ''cpu'') demoOnGpu) = Some (True, s)" by blast
  ultimately show ?thesis by (simp add: onTierChanged_def Let_def)
qed

theorem reassign_exit_iff_witness:
  "\<exists>r'. onTierChanged ''cuda'' ''cpu'' demoOnGpu = Some (True, r') \<and> wk_exitCode (rt_owner r') = kReassignCpu"
proof -
  obtain r' where r': "onTierChanged ''cuda'' ''cpu'' demoOnGpu = Some (True, r')" using demo_fallback by blast
  have "wk_exitCode (rt_owner demoReady) = 0" using demo_init by blast
  moreover have "wc_reexec (wk_config (rt_owner demoReady))" using demo_init by blast
  moreover have "engineResident demoOnGpu"
    by (simp add: engineResident_def demoOnGpu_def demoGpuEngine_def demo_engine_defs deviceResourcesResident_def)
  moreover have "indexOf (rt_ladder demoOnGpu) ''cuda'' = 0"
    by (simp add: demoOnGpu_def indexOf_def newDeviceLadder_def freshTier_def)
  ultimately show ?thesis using reassign_exit_iff [OF r'] r' by (simp add: demoOnGpu_def)
qed

section \<open>The ladder a worker may climb\<close>

text \<open>A worker without a GPU slot never climbs to CUDA, and always has the CPU below it. When the supervisor
  gave the worker no GPU slot, or the CPU is forced, the ladder keeps the configured order, loses \<^verbatim>\<open>cuda\<close> (every
  local accelerator when the CPU is forced), keeps every other tier, and ends on or contains the CPU tier.\<close>

theorem ladder_keeps_the_floor:
  assumes "noGpuSlot \<or> forceCpu"
  shows "''cpu'' \<in> set (ladderFrom configured noGpuSlot forceCpu) \<and>
    ''cuda'' \<notin> set (ladderFrom configured noGpuSlot forceCpu) \<and>
    (forceCpu \<longrightarrow> list_all (\<lambda>t. \<not> isLocalAccelerator t) (ladderFrom configured noGpuSlot forceCpu)) \<and>
    (\<exists>tail. ladderFrom configured noGpuSlot forceCpu =
       filter (\<lambda>t. \<not> (if forceCpu then isLocalAccelerator t else t = ''cuda'')) configured @ tail \<and>
       (tail = [] \<or> tail = [''cpu'']))"
  using assms by (auto simp: ladderFrom_def Let_def isLocalAccelerator_def list_all_iff)

theorem ladder_keeps_the_floor_witness:
  "''cuda'' \<notin> set (ladderFrom [''cuda'', ''npu''] True False) \<and> ladderFrom [''cuda'', ''npu''] True False = [''npu'', ''cpu'']"
  using ladder_keeps_the_floor [of True False "[''cuda'', ''npu'']"] by (simp add: ladderFrom_def)

section \<open>The model it attaches\<close>

text \<open>C27: the worker attaches what the cache published. After a successful \<^verbatim>\<open>initialize\<close> of the model cache, a
  worker of the same shared-memory name, told the size of the model or nothing about it, whose system calls
  succeed attaches the weights with exactly the size of the model file and then loads them from the shared
  object.\<close>

theorem worker_attaches_published_model:
  assumes "mcInitialize os mc [s] = Some (True, mc', hist)" and "staleNonce s (mc_shmName mc) \<noteq> mc_runNonce mc"
    and "os_stat os = Some (int n)" and "n < 2 ^ 64"
    and "wc_shmName (wk_config W) = mc_shmName mc" and "wc_modelSizeBytes (wk_config W) \<in> {0, word_of_nat n}"
    and "ao_metaOpen aos \<and> ao_metaMap aos \<and> ao_shmOpen aos \<and> ao_fstat aos \<and> ao_shmMap aos \<and> ao_readable aos"
  shows "\<exists>W'. attachSharedMemory aos (hd hist) W = Some (True, W') \<and> unat (wk_shmSize W') = n \<and>
    wc_modelPath (wk_config W') = shmFilePath (mc_shmName mc)"
proof -
  obtain m where pub: "publishedState os (mc_shmName mc) (mc_runNonce mc) m (hd hist)"
    using initialize_spec [OF assms(2,1)] by blast
  have m: "m = n" using pub assms(3) by (simp add: publishedState_def)
  have n: "0 < n" using assms(1,3) by (auto simp: mcInitialize_def openModelFile_def Let_def split: if_splits)
  have size: "unat (word_of_nat n :: size_t) = n" using assms(4) by (simp add: unat_of_nat)
  then have pos: "(word_of_nat n :: size_t) \<noteq> 0" using n by (metis less_numeral_extra(3) unat_0)
  have len: "length (take n (os_file os)) = n" using pub m by (simp add: publishedState_def)
  define bytes where "bytes = publishedBytes (mc_runNonce mc) n (updateChecksum kFnvOffsetBasis (take n (os_file os))) (os_loadedAt os)"
  have b: "hd hist (shmMetaName (mc_shmName mc)) = Some bytes" "hd hist (mc_shmName mc) = Some (take n (os_file os))"
    using pub m by (simp_all add: publishedState_def bytes_def)
  have "length bytes = kHeaderSize" "kHeaderSize \<noteq> 0" by (simp_all add: bytes_def published_fields(2) kHeaderSize_def)
  then have h: "mappedHeader bytes = Some (readHeader bytes)" by (auto simp: mappedHeader_def)
  have "take 4 (hdr_magic (readHeader bytes)) = edgeMagic" "hdr_ready (readHeader bytes) = 1"
    "hdr_modelSize (readHeader bytes) = word_of_nat n"
    by (simp_all add: bytes_def published_fields edgeMagic_def)
  with b h assms(5-7) pos len size show ?thesis
    by (auto simp: attachSharedMemory_def Let_def word_gt_0)
qed

theorem worker_attaches_published_model_witness:
  "\<exists>mc' hist W'. mcInitialize demoCacheOs demoCache [Map.empty] = Some (True, mc', hist) \<and>
     attachSharedMemory demoAttach (hd hist) (newWorker demoWorkerConfig) = Some (True, W') \<and> unat (wk_shmSize W') = 3"
proof -
  obtain mc' hist where run: "mcInitialize demoCacheOs demoCache [Map.empty] = Some (True, mc', hist)"
    using demo_initialize by blast
  from worker_attaches_published_model [OF run demo_stale, of 3 "newWorker demoWorkerConfig" demoAttach] run show ?thesis
    by (auto simp: demoCacheOs_def demoCache_def demoAttach_def newWorker_def demoWorkerConfig_def defaultWorkerConfig_def)
qed

section \<open>A reload that fails\<close>

text \<open>
  When the hook reports that the engine could not be brought up, the request ends with the fault, but the
  ladder stays on the new tier with an engine that holds no model. The next request on that tier dereferences
  the null model: the attempt has no result.
\<close>

lemma failed_reload_crashes_next_attempt:
  assumes "backendFor w tier = Some (LlamaInferenceBackend tier True)" and "ww_engine w = Some E"
    and "\<not> ie_model E" and "ll_built (ww_llama w)" and "wwEnv w ''EDGE_SIMULATE_DEVICE_FAULT'' = None"
  shows "tryTier tier prompt onToken w = None"
  using assms
  by (simp add: tryTier_def runThroughEngine_def generate_def generateStreaming_def injectedFault_def
      clearFault_def setExecutingTier_def Let_def)

text \<open>A worker's tiers keep their names for its whole life.\<close>

lemma worker_tiers_fixed:
  assumes "workerInit aos s los W w = Some (True, Some r)" and "workerRun as r = Some (code, outs, r')"
  shows "map tier_name (lad_tiers (rt_ladder r')) = workerTiers (wk_config W)"
    and "active r' = [] \<or> active r' \<in> set (workerTiers (wk_config W))"
proof -
  let ?r = "onOwner (\<lambda>W. W\<lparr>wk_running := True\<rparr>) r"
  have "router_ok (workerTiers (wk_config W)) ?r" using workerInit_ok(1) [OF assms(1)] by (simp add: router_ok_def)
  moreover obtain outs' where "serveLoop as ?r = Some (outs', r')" using assms(2) by (auto simp: workerRun_def)
  ultimately have r': "router_ok (workerTiers (wk_config W)) r'" using serveLoop_keeps unfolding serve_keeps_def by blast
  then show "map tier_name (lad_tiers (rt_ladder r')) = workerTiers (wk_config W)" by (simp add: router_ok_def)
  show "active r' = [] \<or> active r' \<in> set (workerTiers (wk_config W))"
  proof (cases "active r' = []")
    case False
    let ?L = "rt_ladder r'"
    have "lad_activeIndex ?L < length (lad_tiers ?L)" "active r' = tier_name (lad_tiers ?L ! lad_activeIndex ?L)"
      using r' False by (auto simp: router_ok_def ladder_ok_def active_def)
    then have "active r' \<in> set (map tier_name (lad_tiers ?L))" by simp
    moreover have "map tier_name (lad_tiers ?L) = workerTiers (wk_config W)" using r' by (simp add: router_ok_def)
    ultimately show ?thesis by metis
  qed simp
qed

end
