(* ===== verification/Start_Properties.thy ===== *)
theory Start_Properties
  imports Command_Line Worker_Properties
begin

text \<open>
  How the processes start each other: the command line and the environment the supervisor gives a worker are
  read back by the worker's \<^verbatim>\<open>main\<close>, its assignment decides which tiers the worker can ever reach, and the
  probe child's line is the report the supervisor parses.
\<close>

section \<open>The supervisor's words, the worker's ears\<close>

text \<open>The environment of a child: the supervisor's own, with the assignments of \<^verbatim>\<open>setenv\<close> on top.\<close>

definition overlayEnv :: "environ \<Rightarrow> (string \<times> string) list \<Rightarrow> environ" where
  "overlayEnv env extra = (\<lambda>name. case map_of extra name of Some v \<Rightarrow> Some v | None \<Rightarrow> env name)"

lemma worker_args_parsed:
  assumes "in_int32 workerId"
  shows "parseFlags (workerFlags stof) workerSwitches (tl (workerArgs config env workerId)) (c, False) =
    Inr (c\<lparr>wc_workerId := workerId, wc_socketPath := workerSock env workerId,
           wc_supervisorSocketPath := cfg_supervisorSocketPath config, wc_shmName := cfg_shmName config,
           wc_modelPath := cfg_modelPath config\<rparr>, True)"
  using stoi_int_str [OF assms]
  by (simp add: workerArgs_def workerFlags_def takeValue_def starts_with_def storeParsed_def storeText_def
      overConfig_def parseIntArg_def)

lemma fromEnv_keeps:
  "(\<And>v c. f (put_in v c) = f c) \<Longrightarrow> f (fromEnv env name parse put_in c) = f c"
  by (simp add: fromEnv_def split: option.split)

lemmas fromEnv_keeps_count = fromEnv_keeps [where f = cfg_workerCount]

lemma workerArgs_capacity [simp]: "workerArgs (config\<lparr>cfg_capacity := limits\<rparr>) env w = workerArgs config env w"
  by (simp add: workerArgs_def)

text \<open>What every flag and switch keeps, parsing keeps.\<close>

lemma matchFlag_keeps:
  assumes "\<And>flag f v c c'. (flag, f) \<in> set flags \<Longrightarrow> f v c = Inr c' \<Longrightarrow> P c \<Longrightarrow> P c'"
    and "matchFlag flags arg rest c = Some (Inr c', rest')" and "P c"
  shows "P c'"
  using assms by (induction flags) (force split: option.splits)+

lemma parseFlags_keeps:
  assumes "\<And>flag f v c c'. (flag, f) \<in> set flags \<Longrightarrow> f v c = Inr c' \<Longrightarrow> P c \<Longrightarrow> P c'"
    and "\<And>arg f c. switches arg = Some f \<Longrightarrow> P c \<Longrightarrow> P (f c)"
    and "parseFlags flags switches args c = Inr c'" and "P c"
  shows "P c'"
  using assms
proof (induction flags switches args c rule: parseFlags.induct)
  case (2 flags switches arg rest c)
  consider (flag) c1 rest' where "matchFlag flags arg rest c = Some (Inr c1, rest')" "parseFlags flags switches rest' c1 = Inr c'"
    | (switch) f where "matchFlag flags arg rest c = None" "switches arg = Some f" "parseFlags flags switches rest (f c) = Inr c'"
    using 2(5) by (auto split: option.splits sum.splits)
  then show ?case
  proof cases
    case flag
    have k: "P c1" by (rule matchFlag_keeps [where P = P, OF _ flag(1) 2(6)]) (use 2(3) in blast)
    show ?thesis by (rule 2(2) [OF flag(1) refl refl _ _ flag(2) k]) (use 2(3,4) in blast)+
  next
    case switch
    have k: "P (f c)" using 2(4) [OF switch(2) 2(6)] .
    show ?thesis by (rule 2(1) [OF switch(1,2) _ _ switch(3) k]) (use 2(3,4) in blast)+
  qed
qed simp

text \<open>However the supervisor was started, its worker ids fit the \<^verbatim>\<open>int\<close> they are printed from and parsed into.\<close>

lemma supervisorMain_workers:
  assumes "supervisorMain env args = Inr config"
  shows "in_int32 (cfg_workerCount config)"
proof -
  have parsed: "parseIntArg raw = Some v \<Longrightarrow> in_int32 v" for raw v
    by (auto simp: parseIntArg_def stoi_range split: sum.splits)
  then have count: "parseWorkerCount raw = Some v \<Longrightarrow> in_int32 v" for raw v
    by (auto simp: parseWorkerCount_def split: option.splits if_splits)
  have "cfg_workerCount (supervisorEnvConfig env) = cfg_workerCount
      (fromEnv env ''EDGE_WORKER_COUNT'' parseIntArg (\<lambda>v c. c\<lparr>cfg_workerCount := v\<rparr>) defaultSupervisorConfig)"
    unfolding supervisorEnvConfig_def Let_def by (simp add: fromEnv_keeps_count) (simp add: fromEnv_def split: option.split)
  then have "in_int32 (cfg_workerCount (supervisorEnvConfig env))"
    using parsed by (auto simp: fromEnv_def defaultSupervisorConfig_def in_int32_def split: option.split)
  moreover have "parseFlags supervisorFlags (\<lambda>arg. None) args (supervisorEnvConfig env) = Inr config"
    using assms by (auto simp: supervisorMain_def split: sum.splits if_splits)
  moreover have "in_int32 (cfg_workerCount c')"
    if "(flag, f) \<in> set supervisorFlags" "f v c = Inr c'" "in_int32 (cfg_workerCount c)" for flag f v c c'
    using that count by (auto simp: supervisorFlags_def storeText_def storeParsed_def split: option.splits)
  ultimately show ?thesis
    using parseFlags_keeps [of supervisorFlags "\<lambda>c. in_int32 (cfg_workerCount c)" "\<lambda>arg. None" args
        "supervisorEnvConfig env" config] by auto
qed

lemmas fromEnv_keeps_backend [simp] = fromEnv_keeps [where f = wc_assignedBackend]

lemma fromEnv_backend [simp]:
  "wc_assignedBackend (fromEnv env name Some (\<lambda>v c. c\<lparr>wc_assignedBackend := v\<rparr>) c) =
     (case env name of None \<Rightarrow> wc_assignedBackend c | Some v \<Rightarrow> v)"
  by (simp add: fromEnv_def split: option.split)

lemma env_backend: "wc_assignedBackend (workerEnvConfig stof env) = envValue env ''EDGE_WORKER_BACKEND''"
  by (simp add: workerEnvConfig_def Let_def envValue_def defaultWorkerConfig_def split: option.split)

lemma worker_start:
  assumes "supervisorMain env args = Inr config" and "in_int32 workerId"
    and "''--probe-hardware'' \<notin> {cfg_supervisorSocketPath config, cfg_shmName config, cfg_modelPath config, workerSock env workerId}"
  shows "\<exists>c. workerMain stof (overlayEnv env (workerBackendEnv a)) (tl (workerArgs config env workerId)) = StartWorker c \<and>
    wc_workerId c = workerId \<and> wc_socketPath c = workerSock env workerId \<and>
    wc_supervisorSocketPath c = cfg_supervisorSocketPath config \<and> wc_shmName c = cfg_shmName config \<and>
    wc_modelPath c = cfg_modelPath config \<and> wc_assignedBackend c = workerBackendName (asg_backend a)"
proof -
  have cfg: "cfg_modelPath config \<noteq> []" "cfg_shmName config \<noteq> []" "cfg_supervisorSocketPath config \<noteq> []"
    using assms(1) by (auto simp: supervisorMain_def split: sum.splits if_splits)
  have sock: "workerSock env workerId \<noteq> []" by (simp add: workerSock_def)
  have id: "int_str workerId \<noteq> ''--probe-hardware''"
    using nat_str_hd_digit [of "nat workerId"] nat_str_hd_digit [of "nat (- workerId)"]
    by (auto simp: int_str_def is_digit_def)
  have backend: "envValue (overlayEnv env (workerBackendEnv a)) ''EDGE_WORKER_BACKEND'' = workerBackendName (asg_backend a)"
    by (simp add: envValue_def overlayEnv_def workerBackendEnv_def)
  have "''--probe-hardware'' \<notin> set (tl (workerArgs config env workerId))"
    using assms(3) id by (auto simp: workerArgs_def)
  then show ?thesis
    using cfg sock backend
    by (simp add: workerMain_def worker_args_parsed [OF assms(2)] finishWorkerConfig_def env_backend)
qed

text \<open>A worker starts as what the supervisor meant it to be. From a command line the supervisor accepted, the
  vector it builds for a worker id, read in the supervisor's environment with the assignment's two variables on
  top, makes the worker's \<^verbatim>\<open>main\<close> start a worker with that id, socket, supervisor socket, shared memory and
  model, and with the assigned backend; it is never taken for a probe and never rejected.\<close>

theorem worker_understands_supervisor:
  assumes "supervisorMain env args = Inr config" and "in_int32 workerId"
    and "''--probe-hardware'' \<notin> {cfg_supervisorSocketPath config, cfg_shmName config, cfg_modelPath config, workerSock env workerId}"
  shows "\<exists>c. workerMain stof (overlayEnv env (workerBackendEnv a)) (tl (workerArgs config env workerId)) = StartWorker c \<and>
    wc_workerId c = workerId \<and> wc_socketPath c = workerSock env workerId \<and>
    wc_supervisorSocketPath c = cfg_supervisorSocketPath config \<and> wc_shmName c = cfg_shmName config \<and>
    wc_modelPath c = cfg_modelPath config \<and> wc_assignedBackend c = workerBackendName (asg_backend a)"
  using worker_start [OF assms] .

lemma demo_supervisor: "\<exists>config. supervisorMain demoEnv [''--worker-bin=/b'', ''--api-bin'', ''node''] = Inr config \<and>
    cfg_supervisorSocketPath config = ''/sup'' \<and> cfg_shmName config = ''/edge'' \<and> cfg_modelPath config = ''/m''"
  by (simp add: supervisorMain_def supervisorFlags_def takeValue_def starts_with_def storeParsed_def storeText_def
      supervisorEnvConfig_def fromEnv_def demoEnv_def defaultSupervisorConfig_def shmNameEnv_def supervisorSock_def
      apiNotifySock_def envValue_def workerSockPrefix_def crashLogEnv_def modelConfigPath_def Let_def)

definition demoCpuAssignment :: WorkerAssignment where
  "demoCpuAssignment = \<lparr>asg_workerId = 3, asg_backend = KCpu, asg_gpuIndex = 0, asg_reason = []\<rparr>"

theorem worker_understands_supervisor_witness:
  "\<exists>config c. supervisorMain demoEnv [''--worker-bin=/b'', ''--api-bin'', ''node''] = Inr config \<and>
     workerMain (\<lambda>s. None) (overlayEnv demoEnv (workerBackendEnv demoCpuAssignment)) (tl (workerArgs config demoEnv 3)) = StartWorker c \<and>
     wc_workerId c = 3 \<and> wc_assignedBackend c = ''cpu''"
proof -
  obtain config where c: "supervisorMain demoEnv [''--worker-bin=/b'', ''--api-bin'', ''node''] = Inr config"
    "cfg_supervisorSocketPath config = ''/sup''" "cfg_shmName config = ''/edge''" "cfg_modelPath config = ''/m''"
    using demo_supervisor by blast
  have "workerSock demoEnv 3 \<noteq> ''--probe-hardware''"
    by (simp add: workerSock_def workerSockPrefix_def envValue_def demoEnv_def)
  with worker_understands_supervisor [OF c(1), of 3 "\<lambda>s. None" demoCpuAssignment] c show ?thesis
    by (force simp: in_int32_def demoCpuAssignment_def)
qed

text \<open>What the CPU assignment means for the worker that reads it.\<close>

lemma cpu_backend_no_cuda:
  assumes "wc_assignedBackend c = ''cpu''"
    and "workerInit aos s los (newWorker c) w = Some (True, Some r)"
    and "workerRun as r = Some (code, outs, r')"
  shows "active r' \<noteq> ''cuda'' \<and> list_all (\<lambda>t. tier_name t \<noteq> ''cuda'') (lad_tiers (rt_ladder r'))"
proof -
  have no: "''cuda'' \<notin> set (workerTiers c)"
    using assms(1) by (auto simp: workerTiers_def ladderFrom_def Let_def isLocalAccelerator_def)
  have names: "map tier_name (lad_tiers (rt_ladder r')) = workerTiers c" "active r' = [] \<or> active r' \<in> set (workerTiers c)"
    using worker_tiers_fixed [OF assms(2,3)] by (simp_all add: newWorker_def)
  have "list_all (\<lambda>n. n \<noteq> ''cuda'') (map tier_name (lad_tiers (rt_ladder r')))"
    unfolding names(1) using no by (auto simp: list_all_iff)
  then have "list_all (\<lambda>t. tier_name t \<noteq> ''cuda'') (lad_tiers (rt_ladder r'))"
    by (simp only: list.pred_map comp_def)
  moreover have "active r' \<noteq> ''cuda''" using no names(2) by (elim disjE) (simp, metis)
  ultimately show ?thesis by blast
qed


lemma demo_worker_env:
  "(workerEnvConfig (\<lambda>s. None) (overlayEnv demoEnv (workerBackendEnv demoCpuAssignment)))
     \<lparr>wc_workerId := i, wc_socketPath := s, wc_supervisorSocketPath := p, wc_shmName := n, wc_modelPath := m\<rparr> =
   defaultWorkerConfig\<lparr>wc_workerId := i, wc_socketPath := s, wc_supervisorSocketPath := p, wc_shmName := n,
     wc_modelPath := m, wc_deviceLadder := [''cpu''], wc_assignedBackend := ''cpu''\<rparr>"
  by (simp add: workerEnvConfig_def fromEnv_def overlayEnv_def workerBackendEnv_def demoCpuAssignment_def demoEnv_def
      defaultWorkerConfig_def parseDeviceLadder_def trim_def is_blank_def split_lines_def
      deviceFallbackModeIsReexec_def Let_def)

lemma demo_main:
  assumes "supervisorMain demoEnv [''--worker-bin=/b'', ''--api-bin'', ''node''] = Inr config"
    and "cfg_supervisorSocketPath config = ''/sup''" "cfg_shmName config = ''/edge''" "cfg_modelPath config = ''/m''"
  shows "workerMain (\<lambda>s. None) (overlayEnv demoEnv (workerBackendEnv demoCpuAssignment)) (tl (workerArgs config demoEnv 3))
    = StartWorker demoWorkerConfig"
proof -
  have id: "int_str 3 \<noteq> ''--probe-hardware''" "workerSock demoEnv 3 \<noteq> ''--probe-hardware''"
    using nat_str_hd_digit [of 3]
    by (auto simp: int_str_def is_digit_def workerSock_def workerSockPrefix_def envValue_def demoEnv_def)
  have args: "''--probe-hardware'' \<notin> set (tl (workerArgs config demoEnv 3))"
    using assms id by (auto simp: workerArgs_def)
  have "in_int32 3" by (simp add: in_int32_def)
  note parsed = worker_args_parsed [OF this]
  show ?thesis
    using args assms(2-4) unfolding workerMain_def parsed demo_worker_env
    by (simp add: finishWorkerConfig_def demoWorkerConfig_def Let_def)
qed


section \<open>The probe child's line\<close>

text \<open>The supervisor reads the probe it started. Whatever devices ggml enumerates, the line the probe child
  prints is parsed by the supervisor into a report with exactly the GPU devices in their order and their
  memory, the host memory, and the note, with every text as the printer escaped it.\<close>

theorem probe_line_is_the_report:
  "parseHardwareReport (runHardwareProbe devices meminfo) = Some (escapedReport (probeHardware devices meminfo)) \<and>
   map gpu_totalBytes (rep_gpus (probeHardware devices meminfo)) =
     (case devices of None \<Rightarrow> []
      | Some ds \<Rightarrow> map (gd_totalBytes \<circ> the) (filter (\<lambda>d. d \<noteq> None \<and> gd_gpu (the d)) ds))"
proof -
  have "map gpu_totalBytes (List.map_filter probeGpu ds) =
      map (gd_totalBytes \<circ> the) (filter (\<lambda>d. d \<noteq> None \<and> gd_gpu (the d)) ds)" for ds
    by (induction ds) (auto simp: List.map_filter_def probeGpu_def split: option.splits)
  then show ?thesis
    by (auto simp: runHardwareProbe_def parse_toJson_line probeHardware_def Let_def split: option.split)
qed

end
