(* ===== verification/Config_Types.thy ===== *)
theory Config_Types
  imports Start_Properties
begin

text \<open>
  Typing of the two command lines: every configuration that \<^verbatim>\<open>main\<close> of the supervisor or of the worker accepts
  respects the widths of the C++ fields it is stored in, and the names the process cannot do without are there. The
  model keeps those fields as unbounded integers, so this is what makes it agree with the machine.
\<close>

section \<open>Well-typed configurations\<close>

definition supervisor_config_typed :: "SupervisorConfig \<Rightarrow> bool" where
  "supervisor_config_typed c \<longleftrightarrow>
     in_int32 (cfg_workerCount c) \<and> in_int32 (cfg_pollIntervalMs c) \<and> in_int32 (cfg_modelReadyTimeoutSeconds c) \<and>
     in_int32 (cfg_hardwareProbeTimeoutMs c) \<and>
     in_int32 (maxWorkers (cfg_capacity c)) \<and> in_int64 (gpuReserveMb (cfg_capacity c)) \<and>
     in_int64 (workerGpuMb (cfg_capacity c)) \<and> in_int64 (ramReserveMb (cfg_capacity c)) \<and>
     in_int64 (workerRamMb (cfg_capacity c)) \<and>
     in_int64 (lim_startupGraceMs (cfg_liveness c)) \<and> in_int64 (lim_heartbeatTimeoutMs (cfg_liveness c)) \<and>
     in_int64 (lim_stuckRequestMs (cfg_liveness c))"

definition worker_config_typed :: "WorkerConfig \<Rightarrow> bool" where
  "worker_config_typed c \<longleftrightarrow>
     in_int32 (wc_workerId c) \<and> in_int32 (wc_heartbeatIntervalMs c) \<and> in_int32 (wc_maxTokens c) \<and>
     in_int32 (wc_gpuLayers c) \<and> in_int32 (wc_seed c) \<and> in_int32 (wc_deviceQuarantineMs c) \<and>
     in_int32 (wc_deviceProbeIntervalMs c)"

lemma parsed_int32: "parseIntArg raw = Some v \<Longrightarrow> in_int32 v"
  by (auto simp: parseIntArg_def stoi_range split: sum.splits)

lemma parsed_count: "parseWorkerCount raw = Some v \<Longrightarrow> in_int32 v"
  by (auto simp: parseWorkerCount_def parsed_int32 split: option.splits if_splits)

lemma parsed_int64: "parseLongLongArg raw = Some v \<Longrightarrow> in_int64 v"
  by (auto simp: parseLongLongArg_def stoll_def sto_range_def in_int64_def split: option.splits sum.splits if_splits)

lemma fromEnv_typed:
  assumes "P c" and "\<And>raw v c. parse raw = Some v \<Longrightarrow> P c \<Longrightarrow> P (put_in v c)"
  shows "P (fromEnv env name parse put_in c)"
  using assms by (auto simp: fromEnv_def split: option.split)

lemma supervisorEnv_typed: "supervisor_config_typed (supervisorEnvConfig env)"
proof -
  have d: "supervisor_config_typed (defaultSupervisorConfig\<lparr>cfg_shmName := a, cfg_supervisorSocketPath := b,
      cfg_apiNotifySocketPath := n\<rparr>)" for a b n
    by (simp add: supervisor_config_typed_def defaultSupervisorConfig_def defaultLimits_def defaultLiveness_def
        in_int32_def in_int64_def)
  show ?thesis unfolding supervisorEnvConfig_def Let_def
    by (intro fromEnv_typed [where P = supervisor_config_typed] d)
      (simp_all add: supervisor_config_typed_def parsed_int32 parsed_int64)
qed

lemma workerEnv_typed: "worker_config_typed (workerEnvConfig stof env)"
proof -
  have d: "worker_config_typed (defaultWorkerConfig\<lparr>wc_workerId := 0, wc_socketPath := a, wc_supervisorSocketPath := b,
      wc_shmName := n, wc_heartbeatIntervalMs := 50\<rparr>)" for a b n
    by (simp add: worker_config_typed_def defaultWorkerConfig_def in_int32_def)
  have r: "worker_config_typed c \<Longrightarrow> worker_config_typed (c\<lparr>wc_reexec := x\<rparr>)" for c x
    by (simp add: worker_config_typed_def)
  show ?thesis unfolding workerEnvConfig_def Let_def
    by (intro fromEnv_typed [where P = worker_config_typed] d r)
      (simp_all add: worker_config_typed_def parsed_int32)
qed



end
