(* ===== verification/Js_Collections.thy ===== *)
theory Js_Collections
  imports Text_Util "HOL-Library.AList" "HOL-Library.Multiset"
begin

text \<open>
  What the JavaScript sources use of the language. A \<^verbatim>\<open>Map\<close> is an association list in insertion order:
  \<^verbatim>\<open>set\<close> on a key it holds keeps the key's place (\<open>AList.update\<close>), \<^verbatim>\<open>delete\<close> closes the gap
  (\<open>AList.delete\<close>), \<^verbatim>\<open>size\<close> is the length. \<^verbatim>\<open>findIndex\<close> and \<^verbatim>\<open>splice(i, 1)\<close> act on arrays. The locale
  \<open>owner_counter\<close> is the contract of a map that counts how many things each owner holds.
\<close>

section \<open>Arrays\<close>

text \<open>\<^verbatim>\<open>Array.prototype.findIndex\<close>, with \<open>None\<close> for -1, and \<^verbatim>\<open>splice(i, 1)\<close>.\<close>

fun findIndex :: "('a \<Rightarrow> bool) \<Rightarrow> 'a list \<Rightarrow> nat option" where
  "findIndex P [] = None"
| "findIndex P (x # xs) = (if P x then Some 0 else map_option Suc (findIndex P xs))"

definition splice_out :: "nat \<Rightarrow> 'a list \<Rightarrow> 'a list" where
  "splice_out i xs = take i xs @ drop (Suc i) xs"

lemma findIndex_None: "findIndex P xs = None \<longleftrightarrow> (\<forall>x \<in> set xs. \<not> P x)"
  by (induction xs) auto

lemma findIndex_SomeE:
  assumes "findIndex P xs = Some i"
  obtains ys x zs where "xs = ys @ x # zs" "P x" "\<forall>y \<in> set ys. \<not> P y" "i = length ys"
  using assms
proof (induction xs arbitrary: i thesis)
  case (Cons a xs)
  show ?case
  proof (cases "P a")
    case True
    with Cons.prems show ?thesis by (intro Cons.prems(1) [of "[]" a xs]) auto
  next
    case False
    with Cons.prems obtain k where k: "findIndex P xs = Some k" "i = Suc k" by auto
    from Cons.IH [OF _ k(1)] obtain ys x zs
      where "xs = ys @ x # zs" "P x" "\<forall>y \<in> set ys. \<not> P y" "k = length ys" by blast
    with False k(2) show ?thesis by (intro Cons.prems(1) [of "a # ys" x zs]) auto
  qed
qed simp

lemma splice_out_middle [simp]: "splice_out (length ys) (ys @ x # zs) = ys @ zs"
  by (simp add: splice_out_def)

lemma set_splice_out: "set (splice_out i xs) \<subseteq> set xs"
  unfolding splice_out_def using set_take_subset [of i xs] set_drop_subset [of "Suc i" xs] by auto

text \<open>With distinct keys, the first element with a key is the element itself.\<close>

lemma findIndex_self:
  assumes "x \<in> set xs" and "distinct (map f xs)"
  obtains ys zs where "xs = ys @ x # zs" "findIndex (\<lambda>y. f y = f x) xs = Some (length ys)"
proof -
  have "findIndex (\<lambda>y. f y = f x) xs \<noteq> None"
    using assms(1) by (auto simp: findIndex_None)
  then obtain i where i: "findIndex (\<lambda>y. f y = f x) xs = Some i" by blast
  from findIndex_SomeE [OF this] obtain ys y zs
    where y: "xs = ys @ y # zs" "f y = f x" "i = length ys" by metis
  have "inj_on f (set xs)" using assms(2) by (simp add: distinct_map)
  then have "y = x" using assms(1) y(1,2) by (auto dest: inj_onD)
  with i y that show thesis by blast
qed

text \<open>Changing one entry of an array of objects, seen through those that satisfy \<open>P\<close>.\<close>

lemma filter_update_same:
  assumes "i < length xs" and "f x' = f (xs ! i)" and "P x' = P (xs ! i)"
  shows "map f (filter P (xs[i := x'])) = map f (filter P xs)"
  using assms by (induction xs arbitrary: i) (auto split: nat.split simp: less_Suc_eq_0_disj)

lemma filter_update_leave:
  assumes "i < length xs" and "P (xs ! i)" and "\<not> P x'"
  shows "mset (map f (filter P xs)) = add_mset (f (xs ! i)) (mset (map f (filter P (xs[i := x']))))"
  using assms by (induction xs arbitrary: i) (auto split: nat.split simp: less_Suc_eq_0_disj)

section \<open>Strings\<close>

text \<open>\<^verbatim>\<open>trim\<close>, \<^verbatim>\<open>trimStart\<close> and \<^verbatim>\<open>trimEnd\<close>, on ASCII white space.\<close>

definition trim_start :: "string \<Rightarrow> string" where
  "trim_start s = dropWhile is_space s"

definition trim_end :: "string \<Rightarrow> string" where
  "trim_end s = rev (dropWhile is_space (rev s))"

definition js_trim :: "string \<Rightarrow> string" where
  "js_trim s = trim_end (trim_start s)"

lemma find_char_bound: "find_char ch s = Some i \<Longrightarrow> i < length s"
  by (induction s arbitrary: i) (auto split: if_splits)

lemma trim_end_id: "s \<noteq> [] \<Longrightarrow> \<not> is_space (last s) \<Longrightarrow> trim_end s = s"
  by (cases s rule: rev_cases) (simp_all add: trim_end_def)

lemma trim_start_id: "s \<noteq> [] \<Longrightarrow> \<not> is_space (hd s) \<Longrightarrow> trim_start s = s"
  by (cases s) (simp_all add: trim_start_def)

lemma find_char_prefix: "find_char ch xs = Some i \<Longrightarrow> find_char ch (xs @ ys) = Some i"
  by (induction xs arbitrary: i) (auto split: if_splits)

text \<open>The complete lines of a buffer and what is left of it. How the text was cut into chunks does not matter.\<close>

function js_lines :: "string \<Rightarrow> string list \<times> string" where
  "js_lines buf =
     (case find_char newline buf of
        None \<Rightarrow> ([], buf)
      | Some i \<Rightarrow> (let (ls, rest) = js_lines (drop (Suc i) buf) in (take i buf # ls, rest)))"
  by pat_completeness auto

termination
  by (relation "measure length") (auto dest: find_char_bound)

declare js_lines.simps [simp del]

lemma js_lines_append:
  "js_lines (x @ y) = (let (ls, r) = js_lines x; (ls', r') = js_lines (r @ y) in (ls @ ls', r'))"
proof (induction x rule: js_lines.induct)
  case (1 x)
  show ?case
  proof (cases "find_char newline x")
    case None
    then have "js_lines x = ([], x)" by (simp add: js_lines.simps [of x])
    then show ?thesis by simp
  next
    case (Some i)
    then have i: "i < length x" by (rule find_char_bound)
    have "js_lines (x @ y) = (let (ls, r) = js_lines (drop (Suc i) x @ y) in (take i x # ls, r))"
      using i by (simp add: js_lines.simps [of "x @ y"] find_char_prefix [OF Some])
    moreover have "js_lines x = (let (ls, r) = js_lines (drop (Suc i) x) in (take i x # ls, r))"
      by (simp add: js_lines.simps [of x] Some)
    ultimately show ?thesis using 1 [OF Some] by (simp split: prod.splits)
  qed
qed

lemma js_lines_rest: "js_lines x = (ls, r) \<Longrightarrow> js_lines r = ([], r)"
proof (induction x arbitrary: ls rule: js_lines.induct)
  case (1 x)
  show ?case
  proof (cases "find_char newline x")
    case None
    then have "js_lines x = ([], x)" by (simp add: js_lines.simps [of x])
    with 1(2) show ?thesis by simp
  next
    case (Some i)
    then obtain ls' where "js_lines (drop (Suc i) x) = (ls', r)"
      using 1(2) by (auto simp: js_lines.simps [of x] split: prod.splits)
    then show ?thesis using 1(1) [OF Some] by blast
  qed
qed

section \<open>Values of JSON\<close>

text \<open>What \<^verbatim>\<open>JSON.parse\<close> answers, with the names of an object distinct; a number that is no integer keeps its text.\<close>

datatype json =
    J_null
  | J_bool bool
  | J_int int
  | J_frac string
  | J_string string
  | J_array "json list"
  | J_object "(string \<times> json) list"

section \<open>Insertion-ordered maps\<close>

lemma map_of_delete [simp]: "map_of (AList.delete k al) = (map_of al)(k := None)"
  by (rule AList.delete_conv')

lemma map_of_update [simp]: "map_of (AList.update k v al) = (map_of al)(k \<mapsto> v)"
  by (rule AList.update_conv')

lemma update_fresh: "k \<notin> fst ` set al \<Longrightarrow> AList.update k v al = al @ [(k, v)]"
  by (induction al) auto

lemma delete_fresh: "k \<notin> fst ` set al \<Longrightarrow> AList.delete k al = al"
  by (induction al) (auto simp: AList.delete_eq)

lemma delete_middle:
  assumes "distinct (map fst (xs @ (k, v) # ys))"
  shows "AList.delete k (xs @ (k, v) # ys) = xs @ ys"
proof -
  have "AList.delete k xs = xs" "AList.delete k ys = ys"
    using assms by (auto intro!: delete_fresh)
  then show ?thesis by (simp add: AList.delete_eq)
qed

lemma length_update_le: "length (AList.update k v al) \<le> Suc (length al)"
  by (induction al) auto

lemma length_delete: "length (AList.delete k al) \<le> length al"
  by (simp add: AList.delete_eq)

lemma map_of_SomeE:
  assumes "map_of al k = Some v"
  obtains xs ys where "al = xs @ (k, v) # ys"
  using assms by (meson map_of_SomeD in_set_conv_decomp)

text \<open>
  Expiry as both maps write it: walk from the oldest entry and stop at the first that is young enough. When the
  entries are in the order of their times that is the same as dropping every entry that is too old.
\<close>

definition drop_expired :: "('v \<Rightarrow> int) \<Rightarrow> int \<Rightarrow> ('k \<times> 'v) list \<Rightarrow> ('k \<times> 'v) list" where
  "drop_expired time cutoff al = dropWhile (\<lambda>(k, v). time v < cutoff) al"

lemma drop_expired_filter:
  assumes "sorted (map (time \<circ> snd) al)"
  shows "drop_expired time cutoff al = filter (\<lambda>(k, v). cutoff \<le> time v) al"
  using assms
proof (induction al)
  case (Cons e al)
  have "cutoff \<le> time (snd e) \<Longrightarrow> filter (\<lambda>(k, v). cutoff \<le> time v) al = al"
    using Cons.prems by (force simp: filter_id_conv)
  with Cons show ?case by (cases e) (auto simp: drop_expired_def)
qed (simp add: drop_expired_def)

lemma map_of_filter_value:
  assumes "distinct (map fst al)"
  shows "map_of (filter (\<lambda>(k, v). P v) al) k = (case map_of al k of None \<Rightarrow> None | Some v \<Rightarrow> if P v then Some v else None)"
  using assms by (induction al) (auto split: option.splits simp: map_of_eq_None_iff)

lemma falling_distinct: "sorted_wrt (>) (xs :: 'a :: linorder list) \<Longrightarrow> distinct xs"
  by (induction xs) auto

lemma drop_expired_suffix: "\<exists>xs. al = xs @ drop_expired time cutoff al"
  unfolding drop_expired_def by (metis takeWhile_dropWhile_id)

section \<open>A counter per owner\<close>

locale owner_counter =
  fixes held :: "'m \<Rightarrow> 'k \<Rightarrow> nat"
    and acquire :: "'k \<Rightarrow> 'm \<Rightarrow> 'm"
    and release :: "'k \<Rightarrow> 'm \<Rightarrow> 'm"
  assumes held_acquire: "held (acquire k m) k' = held m k' + (if k' = k then 1 else 0)"
    and held_release: "held (release k m) k' = held m k' - (if k' = k then 1 else 0)"
begin

text \<open>The counter is exact for a multiset of owners.\<close>

definition exact :: "'m \<Rightarrow> 'k multiset \<Rightarrow> bool" where
  "exact m M \<longleftrightarrow> (\<forall>k. held m k = count M k)"

lemma exact_acquire: "exact m M \<Longrightarrow> exact (acquire k m) (add_mset k M)"
  by (simp add: exact_def held_acquire)

lemma exact_release: "exact m (add_mset k M) \<Longrightarrow> exact (release k m) M"
  by (simp add: exact_def held_release)

lemma acquire_bound:
  assumes "\<forall>k. int (held m k) \<le> b" and "int (held m k) < b"
  shows "\<forall>k'. int (held (acquire k m) k') \<le> b"
  using assms by (auto simp: held_acquire)

lemma release_bound: "\<forall>k. int (held m k) \<le> b \<Longrightarrow> int (held (release k m) k') \<le> b"
  using order_trans [of "int (held m k' - (if k' = k then 1 else 0))" "int (held m k')" b]
  by (simp add: held_release)

end

end
