(* ===== verification/Scheduler.thy ===== *)
theory Scheduler
  imports Js_Collections "HOL-Library.Product_Lexorder"
begin

text \<open>
  \<^verbatim>\<open>shell-app/scheduler.js\<close>: the queue in front of the inference service. A job waits in the queue until a slot is
  free and its front end (\<open>mfe\<close>) holds fewer than its share, the best waiting job is started first, and a slot is
  given back by the first of the job's end and its time limit. The state is that of the \<^verbatim>\<open>Scheduler\<close> object with
  what its closures keep: each call of \<^verbatim>\<open>_run\<close> is an entry of \<open>sRuns\<close>, a pending timer is a member of
  \<open>sQueueTimers\<close> or a flag of its run, a promise is an entry of \<open>sSettled\<close>, and the calls of \<^verbatim>\<open>onStatus\<close> are the
  list \<open>sTold\<close>, newest first. A job is known by its place in \<open>sJobs\<close>, all jobs ever accepted (the object's identity), since
  its \<^verbatim>\<open>requestId\<close> comes from the client. Every callback of the event loop is an \<open>event\<close> that carries the time it reads; a
  callback reads the clock once here. The settings are whole numbers, the average duration is kept in exact
  arithmetic where the code uses doubles, and \<^verbatim>\<open>onStatus\<close> does not call back into the scheduler.
\<close>

section \<open>Data\<close>

record sched_config =
  maxSlots :: int
  maxPerMfe :: int
  maxQueue :: int
  agingMs :: int
  defaultDurationMs :: int
  queueTimeoutMs :: int
  execTimeoutMs :: int
  doneTtlMs :: int
  doneMaxEntries :: nat

definition default_sched_config :: sched_config where
  "default_sched_config = \<lparr>maxSlots = 4, maxPerMfe = 2, maxQueue = 20, agingMs = 15000, defaultDurationMs = 8000,
     queueTimeoutMs = 30000, execTimeoutMs = 120000, doneTtlMs = 300000, doneMaxEntries = 500\<rparr>"

datatype priority = High | Normal | Low

record job =
  jId :: nat
  jReq :: string
  jMfe :: string
  jPrio :: priority
  jCreated :: int

datatype sched_error =
    Scheduler_overloaded int
  | Queue_timeout int
  | Exec_timeout int
  | Request_cancelled
  | Job_error "string option"

datatype outcome = Resolved_with string | Rejected_with sched_error

datatype done_state = Timed_out_waiting int | Timed_out_running int | Was_cancelled | Was_done | Was_failed string

record done_entry =
  dState :: done_state
  dFinishedAt :: int

datatype status =
    Told_queued int int
  | Told_started
  | Told_timeout int
  | Told_exec_timeout int
  | Told_cancelled

datatype phase = Executing | Settled | Finished

record run =
  rJob :: job
  rStartedAt :: int
  rReleased :: bool
  rTimer :: bool
  rPhase :: phase

record sched =
  sQueue :: "job list"
  sActive :: "(string \<times> job) list"
  sDone :: "(string \<times> done_entry) list"
  sPerMfe :: "(string \<times> nat) list"
  sAvg :: int
  sRuns :: "run list"
  sExecTimer :: "nat \<Rightarrow> nat option"
  sQueueTimers :: "nat set"
  sTimedOut :: "nat set"
  sAborted :: "nat set"
  sSettled :: "nat \<Rightarrow> outcome option"
  sTold :: "(nat \<times> status) list"
  sJobs :: "job list"

definition sched_init :: "sched_config \<Rightarrow> sched" where
  "sched_init c = \<lparr>sQueue = [], sActive = [], sDone = [], sPerMfe = [], sAvg = defaultDurationMs c, sRuns = [],
     sExecTimer = Map.empty, sQueueTimers = {}, sTimedOut = {}, sAborted = {}, sSettled = Map.empty, sTold = [],
     sJobs = []\<rparr>"

section \<open>Priorities and the order of the queue\<close>

text \<open>\<^verbatim>\<open>String(priority || 'normal').toLowerCase()\<close>: no value and the empty string are the same.\<close>

definition lower_char :: "char \<Rightarrow> char" where
  "lower_char ch = (if 65 \<le> (of_char ch :: nat) \<and> (of_char ch :: nat) \<le> 90 then char_of ((of_char ch :: nat) + 32) else ch)"

definition normalizePriority :: "string option \<Rightarrow> priority" where
  "normalizePriority p =
     (let value = (case p of None \<Rightarrow> ''normal'' | Some s \<Rightarrow> if s = [] then ''normal'' else map lower_char s)
      in if value = ''high'' then High else if value = ''low'' then Low else Normal)"

fun basePriority :: "priority \<Rightarrow> int" where
  "basePriority High = 300"
| "basePriority Normal = 200"
| "basePriority Low = 100"

definition effectivePriority :: "sched_config \<Rightarrow> job \<Rightarrow> int \<Rightarrow> int" where
  "effectivePriority c j now = basePriority (jPrio j) + (now - jCreated j) div agingMs c"

text \<open>
  The comparator of both calls of \<^verbatim>\<open>sort\<close>: higher effective priority first, then the older job. \<^verbatim>\<open>sort\<close> is stable, as is
  \<open>sort_key\<close>.
\<close>

definition order_key :: "sched_config \<Rightarrow> int \<Rightarrow> job \<Rightarrow> int \<times> int" where
  "order_key c now j = (- effectivePriority c j now, jCreated j)"

definition getQueuePosition :: "sched_config \<Rightarrow> int \<Rightarrow> string \<Rightarrow> sched \<Rightarrow> int" where
  "getQueuePosition c now r st =
     (case findIndex (\<lambda>j. jReq j = r) (sort_key (order_key c now) (sQueue st)) of
        Some i \<Rightarrow> int i + 1 | None \<Rightarrow> -1)"

definition estimateWaitMs :: "sched_config \<Rightarrow> int \<Rightarrow> sched \<Rightarrow> int" where
  "estimateWaitMs c position st =
     (if position \<le> 0 then 0
      else let slots = max 1 (maxSlots c) in ((position + slots - 1) div slots) * sAvg st)"

section \<open>Small steps on the state\<close>

definition tell :: "job \<Rightarrow> status \<Rightarrow> sched \<Rightarrow> sched" where
  "tell j s st = st\<lparr>sTold := (jId j, s) # sTold st\<rparr>"

text \<open>A promise keeps the first outcome.\<close>

definition settle :: "job \<Rightarrow> outcome \<Rightarrow> sched \<Rightarrow> sched" where
  "settle j out st = (case sSettled st (jId j) of None \<Rightarrow> st\<lparr>sSettled := (sSettled st)(jId j \<mapsto> out)\<rparr> | Some _ \<Rightarrow> st)"

definition abort_job :: "job \<Rightarrow> sched \<Rightarrow> sched" where
  "abort_job j st = st\<lparr>sAborted := insert (jId j) (sAborted st)\<rparr>"

definition clearQueueTimer :: "job \<Rightarrow> sched \<Rightarrow> sched" where
  "clearQueueTimer j st = st\<lparr>sQueueTimers := sQueueTimers st - {jId j}\<rparr>"

text \<open>\<^verbatim>\<open>clearTimeout(job.execTimer)\<close>: the timer is that of the job's latest run.\<close>

definition clearExecTimer :: "job \<Rightarrow> sched \<Rightarrow> sched" where
  "clearExecTimer j st =
     (case sExecTimer st (jId j) of
        None \<Rightarrow> st
      | Some k \<Rightarrow> st\<lparr>sRuns := (sRuns st)[k := (sRuns st ! k)\<lparr>rTimer := False\<rparr>]\<rparr>)"

fun evict_over :: "nat \<Rightarrow> 'a list \<Rightarrow> 'a list" where
  "evict_over n [] = []"
| "evict_over n (x # xs) = (if n < length (x # xs) then evict_over n xs else x # xs)"

definition evictDone :: "sched_config \<Rightarrow> int \<Rightarrow> sched \<Rightarrow> sched" where
  "evictDone c now st =
     st\<lparr>sDone := evict_over (doneMaxEntries c) (drop_expired dFinishedAt (now - doneTtlMs c) (sDone st))\<rparr>"

definition recordDone :: "sched_config \<Rightarrow> int \<Rightarrow> string \<Rightarrow> done_state \<Rightarrow> sched \<Rightarrow> sched" where
  "recordDone c now r s st =
     evictDone c now (st\<lparr>sDone := AList.update r \<lparr>dState = s, dFinishedAt = now\<rparr> (sDone st)\<rparr>)"

section \<open>Slots\<close>

definition perMfe :: "(string \<times> nat) list \<Rightarrow> string \<Rightarrow> nat" where
  "perMfe pm m = (case map_of pm m of None \<Rightarrow> 0 | Some n \<Rightarrow> n)"

definition perMfe_inc :: "string \<Rightarrow> (string \<times> nat) list \<Rightarrow> (string \<times> nat) list" where
  "perMfe_inc m pm = AList.update m (perMfe pm m + 1) pm"

definition perMfe_dec :: "string \<Rightarrow> (string \<times> nat) list \<Rightarrow> (string \<times> nat) list" where
  "perMfe_dec m pm = (if perMfe pm m \<le> 1 then AList.delete m pm else AList.update m (perMfe pm m - 1) pm)"

definition canRun :: "sched_config \<Rightarrow> sched \<Rightarrow> job \<Rightarrow> bool" where
  "canRun c st j \<longleftrightarrow> int (length (sActive st)) < maxSlots c \<and> int (perMfe (sPerMfe st) (jMfe j)) < maxPerMfe c"

definition pickNextJob :: "sched_config \<Rightarrow> int \<Rightarrow> sched \<Rightarrow> job option" where
  "pickNextJob c now st =
     (case sort_key (order_key c now) (filter (canRun c st) (sQueue st)) of [] \<Rightarrow> None | j # _ \<Rightarrow> Some j)"

definition startJob :: "int \<Rightarrow> job \<Rightarrow> sched \<Rightarrow> sched" where
  "startJob now j st =
     (let st1 = tell j Told_started
                  ((clearQueueTimer j st)\<lparr>sActive := AList.update (jReq j) j (sActive st),
                     sPerMfe := perMfe_inc (jMfe j) (sPerMfe st)\<rparr>)
      in st1\<lparr>sRuns := sRuns st @ [\<lparr>rJob = j, rStartedAt = now, rReleased = False, rTimer = True, rPhase = Executing\<rparr>],
             sExecTimer := (sExecTimer st)(jId j \<mapsto> length (sRuns st))\<rparr>)"

definition takeFromQueue :: "string \<Rightarrow> sched \<Rightarrow> sched" where
  "takeFromQueue r st =
     (case findIndex (\<lambda>j. jReq j = r) (sQueue st) of
        Some i \<Rightarrow> st\<lparr>sQueue := splice_out i (sQueue st)\<rparr> | None \<Rightarrow> st)"

lemma pickNextJob_Some:
  assumes "pickNextJob c now st = Some j"
  shows "j \<in> set (sQueue st)" and "canRun c st j"
    and "\<And>k. k \<in> set (sQueue st) \<Longrightarrow> canRun c st k \<Longrightarrow> order_key c now j \<le> order_key c now k"
proof -
  let ?xs = "filter (canRun c st) (sQueue st)"
  obtain js where js: "sort_key (order_key c now) ?xs = j # js"
    using assms by (auto simp: pickNextJob_def split: list.splits)
  then have "set ?xs = set (j # js)" by (metis set_sort)
  then show "j \<in> set (sQueue st)" "canRun c st j" by auto
  have "sorted (map (order_key c now) (j # js))" by (metis js sorted_sort_key)
  then show "\<And>k. k \<in> set (sQueue st) \<Longrightarrow> canRun c st k \<Longrightarrow> order_key c now j \<le> order_key c now k"
    using \<open>set ?xs = set (j # js)\<close> by fastforce
qed

lemma pickNextJob_None: "pickNextJob c now st = None \<longleftrightarrow> (\<forall>j \<in> set (sQueue st). \<not> canRun c st j)"
proof -
  have "pickNextJob c now st = None \<longleftrightarrow> sort_key (order_key c now) (filter (canRun c st) (sQueue st)) = []"
    by (simp add: pickNextJob_def split: list.split)
  also have "\<dots> \<longleftrightarrow> filter (canRun c st) (sQueue st) = []"
    by (metis length_0_conv length_sort)
  finally show ?thesis by (simp add: filter_empty_conv)
qed

lemma startJob_queue [simp]: "sQueue (startJob now j st) = sQueue st"
  by (simp add: startJob_def tell_def clearQueueTimer_def Let_def)

lemma takeFromQueue_length:
  assumes "j \<in> set (sQueue st)"
  shows "Suc (length (sQueue (takeFromQueue (jReq j) st))) = length (sQueue st)"
proof -
  obtain i where i: "findIndex (\<lambda>k. jReq k = jReq j) (sQueue st) = Some i"
    using assms findIndex_None [of "\<lambda>k. jReq k = jReq j" "sQueue st"] by blast
  from findIndex_SomeE [OF this] obtain ys x zs where "sQueue st = ys @ x # zs" "i = length ys" by metis
  with i show ?thesis by (simp add: takeFromQueue_def)
qed

text \<open>The loop ends because each round starts a job of the queue and takes one out of it.\<close>

function schedule :: "sched_config \<Rightarrow> int \<Rightarrow> sched \<Rightarrow> sched" where
  "schedule c now st =
     (if int (length (sActive st)) < maxSlots c then
        (case pickNextJob c now st of
           None \<Rightarrow> st
         | Some j \<Rightarrow> schedule c now (startJob now j (takeFromQueue (jReq j) st)))
      else st)"
  by pat_completeness auto

termination
proof (relation "measure (\<lambda>(c, now, st). length (sQueue st))")
  fix c :: sched_config and now :: int and st :: sched and j :: job
  assume "pickNextJob c now st = Some j"
  from takeFromQueue_length [OF pickNextJob_Some(1) [OF this]]
  show "((c, now, startJob now j (takeFromQueue (jReq j) st)), c, now, st) \<in> measure (\<lambda>(c, now, st). length (sQueue st))"
    by simp
qed simp

declare schedule.simps [simp del]

section \<open>The operations\<close>

definition enqueue :: "sched_config \<Rightarrow> int \<Rightarrow> string \<Rightarrow> string \<Rightarrow> string option \<Rightarrow> sched \<Rightarrow> (sched_error + job) \<times> sched" where
  "enqueue c now r m p st =
     (if int (length (sQueue st)) \<ge> maxQueue c then (Inl (Scheduler_overloaded (maxQueue c)), st)
      else
        let j = \<lparr>jId = length (sJobs st), jReq = r, jMfe = m, jPrio = normalizePriority p, jCreated = now\<rparr>;
            st1 = st\<lparr>sQueue := sQueue st @ [j], sQueueTimers := insert (jId j) (sQueueTimers st),
                     sJobs := sJobs st @ [j]\<rparr>;
            position = getQueuePosition c now r st1;
            st2 = tell j (Told_queued position (estimateWaitMs c position st1)) st1
        in (Inr j, schedule c now st2))"

text \<open>The callback of the queue timer of job \<open>j\<close>.\<close>

definition queueTimeout :: "sched_config \<Rightarrow> int \<Rightarrow> job \<Rightarrow> sched \<Rightarrow> sched" where
  "queueTimeout c now j st =
     (let st1 = clearQueueTimer j st
      in case findIndex (\<lambda>k. jReq k = jReq j) (sQueue st1) of
           None \<Rightarrow> st1
         | Some i \<Rightarrow>
             let waited = now - jCreated j;
                 st2 = tell j (Told_timeout waited) (st1\<lparr>sQueue := splice_out i (sQueue st1)\<rparr>)
             in recordDone c now (jReq j) (Timed_out_waiting waited) (settle j (Rejected_with (Queue_timeout waited)) st2))"

datatype cancel_answer = Cancelled_queued | Cancelled_active | Already_done done_state | Not_found

definition cancel :: "sched_config \<Rightarrow> int \<Rightarrow> string \<Rightarrow> sched \<Rightarrow> cancel_answer \<times> sched" where
  "cancel c now r st =
     (case findIndex (\<lambda>j. jReq j = r) (sQueue st) of
        Some i \<Rightarrow>
          let j = sQueue st ! i;
              st1 = clearExecTimer j (clearQueueTimer j (st\<lparr>sQueue := splice_out i (sQueue st)\<rparr>));
              st2 = settle j (Rejected_with Request_cancelled) (tell j Told_cancelled st1)
          in (Cancelled_queued, recordDone c now r Was_cancelled st2)
      | None \<Rightarrow>
          (case map_of (sActive st) r of
             Some j \<Rightarrow> (Cancelled_active, abort_job j st)
           | None \<Rightarrow>
               (case map_of (sDone st) r of
                  Some e \<Rightarrow> (Already_done (dState e), st)
                | None \<Rightarrow> (Not_found, st))))"

datatype queue_status = Status_active | Status_queued int int | Status_done done_entry | Status_not_found

definition getQueueStatus :: "sched_config \<Rightarrow> int \<Rightarrow> string \<Rightarrow> sched \<Rightarrow> queue_status" where
  "getQueueStatus c now r st =
     (case map_of (sActive st) r of
        Some _ \<Rightarrow> Status_active
      | None \<Rightarrow>
          (case findIndex (\<lambda>j. jReq j = r) (sQueue st) of
             Some _ \<Rightarrow> let position = getQueuePosition c now r st in Status_queued position (estimateWaitMs c position st)
           | None \<Rightarrow> (case map_of (sDone st) r of Some e \<Rightarrow> Status_done e | None \<Rightarrow> Status_not_found)))"

record snapshot =
  snLimits :: "int \<times> int \<times> int"
  snActiveCount :: nat
  snQueueLength :: nat
  snActiveByMfe :: "(string \<times> nat) list"

definition getSnapshot :: "sched_config \<Rightarrow> sched \<Rightarrow> snapshot" where
  "getSnapshot c st = \<lparr>snLimits = (maxSlots c, maxPerMfe c, maxQueue c), snActiveCount = length (sActive st),
     snQueueLength = length (sQueue st), snActiveByMfe = sPerMfe st\<rparr>"

text \<open>\<^verbatim>\<open>Math.round(avg * 0.7 + duration * 0.3)\<close>, and \<^verbatim>\<open>releaseSlot\<close> of the run at index \<open>i\<close>.\<close>

definition next_average :: "int \<Rightarrow> int \<Rightarrow> int" where
  "next_average avg duration = (7 * avg + 3 * duration + 5) div 10"

definition releaseSlot :: "sched_config \<Rightarrow> int \<Rightarrow> nat \<Rightarrow> sched \<Rightarrow> sched" where
  "releaseSlot c now i st =
     (let r = sRuns st ! i; j = rJob r
      in if rReleased r then st
         else
           let st1 = clearExecTimer j (st\<lparr>sRuns := (sRuns st)[i := r\<lparr>rReleased := True\<rparr>]\<rparr>);
               st2 = st1\<lparr>sAvg := next_average (sAvg st) (now - rStartedAt r),
                         sActive := AList.delete (jReq j) (sActive st),
                         sPerMfe := perMfe_dec (jMfe j) (sPerMfe st)\<rparr>
           in schedule c now st2)"

definition execTimeout :: "sched_config \<Rightarrow> int \<Rightarrow> nat \<Rightarrow> sched \<Rightarrow> sched" where
  "execTimeout c now i st =
     (let r = sRuns st ! i; j = rJob r; ran = now - rStartedAt r;
          st1 = st\<lparr>sRuns := (sRuns st)[i := r\<lparr>rTimer := False\<rparr>], sTimedOut := insert (jId j) (sTimedOut st)\<rparr>;
          st2 = abort_job j (tell j (Told_exec_timeout ran) st1);
          st3 = recordDone c now (jReq j) (Timed_out_running ran) (settle j (Rejected_with (Exec_timeout ran)) st2)
      in releaseSlot c now i st3)"

definition set_phase :: "phase \<Rightarrow> nat \<Rightarrow> sched \<Rightarrow> sched" where
  "set_phase ph i st = st\<lparr>sRuns := (sRuns st)[i := (sRuns st ! i)\<lparr>rPhase := ph\<rparr>]\<rparr>"

definition executeResolved :: "sched_config \<Rightarrow> int \<Rightarrow> nat \<Rightarrow> string \<Rightarrow> sched \<Rightarrow> sched" where
  "executeResolved c now i result st =
     (let j = rJob (sRuns st ! i); st1 = set_phase Settled i st
      in if jId j \<in> sTimedOut st then st1
         else recordDone c now (jReq j) Was_done (settle j (Resolved_with result) st1))"

text \<open>The argument \<open>err\<close> is the message of an \<^verbatim>\<open>Error\<close>, or \<open>None\<close> for another thrown value.\<close>

definition executeRejected :: "sched_config \<Rightarrow> int \<Rightarrow> nat \<Rightarrow> string option \<Rightarrow> sched \<Rightarrow> sched" where
  "executeRejected c now i err st =
     (let j = rJob (sRuns st ! i); st1 = set_phase Settled i st
      in if jId j \<in> sTimedOut st then st1
         else if jId j \<in> sAborted st then
           recordDone c now (jReq j) Was_cancelled
             (settle j (Rejected_with (case err of None \<Rightarrow> Request_cancelled | Some m \<Rightarrow> Job_error (Some m))) st1)
         else
           recordDone c now (jReq j) (Was_failed (case err of None \<Rightarrow> ''unknown_error'' | Some m \<Rightarrow> m))
             (settle j (Rejected_with (Job_error err)) st1))"

definition runFinally :: "sched_config \<Rightarrow> int \<Rightarrow> nat \<Rightarrow> sched \<Rightarrow> sched" where
  "runFinally c now i st = releaseSlot c now i (set_phase Finished i st)"

section \<open>The event loop\<close>

datatype event =
    Enqueue int string string "string option"
  | Cancel int string
  | Queue_timer int nat
  | Exec_timer int nat
  | Execute_resolved int nat string
  | Execute_rejected int nat "string option"
  | Run_finally int nat

text \<open>
  A timer fires if it is pending, and only after the continuations of settled promises have run; an execution
  settles once and its \<^verbatim>\<open>finally\<close> follows once.
\<close>

definition drained :: "sched \<Rightarrow> bool" where
  "drained st \<longleftrightarrow> (\<forall>r \<in> set (sRuns st). rPhase r \<noteq> Settled)"

fun enabled :: "sched \<Rightarrow> event \<Rightarrow> bool" where
  "enabled st (Enqueue now r m p) \<longleftrightarrow> True"
| "enabled st (Cancel now r) \<longleftrightarrow> True"
| "enabled st (Queue_timer now k) \<longleftrightarrow> k \<in> sQueueTimers st \<and> drained st"
| "enabled st (Exec_timer now i) \<longleftrightarrow> i < length (sRuns st) \<and> rTimer (sRuns st ! i) \<and> drained st"
| "enabled st (Execute_resolved now i v) \<longleftrightarrow> i < length (sRuns st) \<and> rPhase (sRuns st ! i) = Executing"
| "enabled st (Execute_rejected now i e) \<longleftrightarrow> i < length (sRuns st) \<and> rPhase (sRuns st ! i) = Executing"
| "enabled st (Run_finally now i) \<longleftrightarrow> i < length (sRuns st) \<and> rPhase (sRuns st ! i) = Settled"

fun sched_step :: "sched_config \<Rightarrow> event \<Rightarrow> sched \<Rightarrow> sched" where
  "sched_step c (Enqueue now r m p) st = snd (enqueue c now r m p st)"
| "sched_step c (Cancel now r) st = snd (cancel c now r st)"
| "sched_step c (Queue_timer now k) st = queueTimeout c now (sJobs st ! k) st"
| "sched_step c (Exec_timer now i) st = execTimeout c now i st"
| "sched_step c (Execute_resolved now i v) st = executeResolved c now i v st"
| "sched_step c (Execute_rejected now i e) st = executeRejected c now i e st"
| "sched_step c (Run_finally now i) st = runFinally c now i st"

text \<open>The states some history of admissible events leads to.\<close>

inductive sched_reach :: "sched_config \<Rightarrow> (sched \<Rightarrow> event \<Rightarrow> bool) \<Rightarrow> sched \<Rightarrow> bool" for c adm where
  init: "sched_reach c adm (sched_init c)"
| step: "sched_reach c adm st \<Longrightarrow> enabled st e \<Longrightarrow> adm st e \<Longrightarrow> sched_reach c adm (sched_step c e st)"

definition any_event :: "sched \<Rightarrow> event \<Rightarrow> bool" where
  "any_event st e \<longleftrightarrow> True"

text \<open>The clients use an id again only when no waiting or running job has it.\<close>

fun fresh_ids :: "sched \<Rightarrow> event \<Rightarrow> bool" where
  "fresh_ids st (Enqueue now r m p) \<longleftrightarrow> r \<notin> jReq ` set (sQueue st) \<and> r \<notin> fst ` set (sActive st)"
| "fresh_ids st e \<longleftrightarrow> True"

end
