(* ===== verification/Scheduler_Properties.thy ===== *)
theory Scheduler_Properties
  imports Scheduler
begin

text \<open>
  What the scheduler keeps. The first part holds for every history, whatever ids the clients send: the bounds on the
  queue and on the counters, and that no job waits that could run. The second part is about histories in which an
  id is not reused while a job with it waits or runs: a slot is held by exactly one run, and every accepted job is
  waiting, running or answered, with the timer that will end it pending.
\<close>

section \<open>The small steps as record updates\<close>

lemma settle_eq:
  "settle j out st = st\<lparr>sSettled :=
     (if sSettled st (jId j) = None then (sSettled st)(jId j \<mapsto> out) else sSettled st)\<rparr>"
  by (auto simp: settle_def split: option.split)

definition timer_off :: "nat option \<Rightarrow> run list \<Rightarrow> run list" where
  "timer_off k rs = (case k of None \<Rightarrow> rs | Some i \<Rightarrow> rs[i := (rs ! i)\<lparr>rTimer := False\<rparr>])"

lemma clearExecTimer_eq: "clearExecTimer j st = st\<lparr>sRuns := timer_off (sExecTimer st (jId j)) (sRuns st)\<rparr>"
  by (auto simp: clearExecTimer_def timer_off_def split: option.split)

lemmas step_defs = tell_def settle_eq abort_job_def clearQueueTimer_def clearExecTimer_eq evictDone_def
  recordDone_def set_phase_def

abbreviation launch :: "int \<Rightarrow> job \<Rightarrow> sched \<Rightarrow> sched" where
  "launch now j st \<equiv> startJob now j (takeFromQueue (jReq j) st)"

text \<open>The loop's rule, and what holds when it ends.\<close>

lemma schedule_rule:
  assumes "P st"
    and "\<And>st j. P st \<Longrightarrow> pickNextJob c now st = Some j \<Longrightarrow> P (launch now j st)"
  shows "P (schedule c now st)"
  using assms
proof (induction c now st rule: schedule.induct)
  case (1 c now st)
  then show ?case by (subst schedule.simps) (auto split: option.split)
qed

lemma schedule_no_runnable: "j \<in> set (sQueue (schedule c now st)) \<Longrightarrow> \<not> canRun c (schedule c now st) j"
proof (induction c now st rule: schedule.induct)
  case (1 c now st)
  show ?case
  proof (cases "int (length (sActive st)) < maxSlots c")
    case False
    with 1 show ?thesis by (subst (asm) schedule.simps, subst schedule.simps) (simp add: canRun_def)
  next
    case True
    show ?thesis
    proof (cases "pickNextJob c now st")
      case None
      with True have "schedule c now st = st" by (simp add: schedule.simps)
      with None 1 show ?thesis by (simp add: pickNextJob_None)
    next
      case (Some k)
      with True have "schedule c now st = schedule c now (launch now k st)" by (simp add: schedule.simps [of c now st])
      with True Some 1 show ?thesis by simp
    qed
  qed
qed

section \<open>Runs that hold a slot\<close>

definition live :: "run list \<Rightarrow> job list" where
  "live rs = map rJob (filter (\<lambda>r. \<not> rReleased r) rs)"

lemma live_append [simp]: "live (rs @ rs') = live rs @ live rs'"
  by (simp add: live_def)

lemma live_update:
  assumes "i < length rs" and "rJob r' = rJob (rs ! i)" and "rReleased r' = rReleased (rs ! i)"
  shows "live (rs[i := r']) = live rs"
  unfolding live_def by (rule filter_update_same) (use assms in auto)

lemma live_release:
  assumes "i < length rs" and "\<not> rReleased (rs ! i)" and "rReleased r'"
  shows "mset (live rs) = add_mset (rJob (rs ! i)) (mset (live (rs[i := r'])))"
  unfolding live_def by (rule filter_update_leave) (use assms in auto)

lemma timer_off_live [simp]: "live (timer_off k rs) = live rs"
proof (cases k)
  case (Some i)
  then show ?thesis
    by (cases "i < length rs") (auto simp: timer_off_def live_update list_update_beyond)
qed (simp add: timer_off_def)

lemma timer_off_length [simp]: "length (timer_off k rs) = length rs"
  by (simp add: timer_off_def split: option.split)

lemma timer_off_nth:
  "i < length rs \<Longrightarrow> timer_off k rs ! i = (if k = Some i then (rs ! i)\<lparr>rTimer := False\<rparr> else rs ! i)"
  by (auto simp: timer_off_def nth_list_update split: option.split)

section \<open>Bounds, for every history\<close>

interpretation mfe: owner_counter perMfe perMfe_inc perMfe_dec
  by unfold_locales (auto simp: perMfe_def perMfe_inc_def perMfe_dec_def split: option.splits)

definition slots_ok :: "sched_config \<Rightarrow> sched \<Rightarrow> bool" where
  "slots_ok c st \<longleftrightarrow>
     int (length (sQueue st)) \<le> max 0 (maxQueue c) \<and>
     int (length (sActive st)) \<le> max 0 (maxSlots c) \<and>
     mfe.exact (sPerMfe st) (image_mset jMfe (mset (live (sRuns st)))) \<and>
     (\<forall>m. int (perMfe (sPerMfe st) m) \<le> max 0 (maxPerMfe c))"

lemma slots_okI:
  assumes "slots_ok c st" and "length (sQueue st') \<le> length (sQueue st)"
    and "sActive st' = sActive st" and "sPerMfe st' = sPerMfe st" and "live (sRuns st') = live (sRuns st)"
  shows "slots_ok c st'"
  using assms by (auto simp: slots_ok_def)

lemma takeFromQueue_fields [simp]:
  "sActive (takeFromQueue r st) = sActive st" "sPerMfe (takeFromQueue r st) = sPerMfe st"
  "sRuns (takeFromQueue r st) = sRuns st"
  by (auto simp: takeFromQueue_def split: option.split)

lemma takeFromQueue_shorter: "length (sQueue (takeFromQueue r st)) \<le> length (sQueue st)"
  by (auto simp: takeFromQueue_def splice_out_def split: option.split)

lemma launch_slots:
  assumes ok: "slots_ok c st" and pick: "pickNextJob c now st = Some j"
  shows "slots_ok c (launch now j st)"
proof -
  have can: "int (length (sActive st)) < maxSlots c" "int (perMfe (sPerMfe st) (jMfe j)) < max 0 (maxPerMfe c)"
    using pickNextJob_Some(2) [OF pick] by (auto simp: canRun_def)
  have q: "int (length (sQueue (takeFromQueue (jReq j) st))) \<le> max 0 (maxQueue c)"
    using ok takeFromQueue_shorter [of "jReq j" st] by (auto simp: slots_ok_def)
  have a: "int (length (AList.update (jReq j) j (sActive st))) \<le> max 0 (maxSlots c)"
    using can(1) length_update_le [of "jReq j" j "sActive st"] by linarith
  have e: "mfe.exact (perMfe_inc (jMfe j) (sPerMfe st)) (image_mset jMfe (mset (live (sRuns st) @ [j])))"
    using mfe.exact_acquire ok by (simp add: slots_ok_def)
  have b: "\<forall>m. int (perMfe (perMfe_inc (jMfe j) (sPerMfe st)) m) \<le> max 0 (maxPerMfe c)"
    using ok can(2) by (intro mfe.acquire_bound) (auto simp: slots_ok_def)
  from q a e b show ?thesis
    by (simp add: slots_ok_def startJob_def Let_def step_defs live_def)
qed

lemma schedule_slots: "slots_ok c st \<Longrightarrow> slots_ok c (schedule c now st)"
  by (rule schedule_rule [where P = "slots_ok c"]) (auto intro: launch_slots)

lemma releaseSlot_slots:
  assumes ok: "slots_ok c st" and i: "i < length (sRuns st)"
  shows "slots_ok c (releaseSlot c now i st)"
proof (cases "rReleased (sRuns st ! i)")
  case False
  let ?j = "rJob (sRuns st ! i)" and ?rs = "(sRuns st)[i := (sRuns st ! i)\<lparr>rReleased := True\<rparr>]"
  have "mset (live (sRuns st)) = add_mset ?j (mset (live ?rs))"
    using i False by (intro live_release) auto
  then have e: "mfe.exact (perMfe_dec (jMfe ?j) (sPerMfe st)) (image_mset jMfe (mset (live ?rs)))"
    using ok by (intro mfe.exact_release) (simp add: slots_ok_def)
  have b: "int (perMfe (perMfe_dec (jMfe ?j) (sPerMfe st)) m) \<le> max 0 (maxPerMfe c)" for m
    using ok by (intro mfe.release_bound) (simp add: slots_ok_def)
  have a: "int (length (AList.delete (jReq ?j) (sActive st))) \<le> max 0 (maxSlots c)"
    using ok length_delete [of "jReq ?j" "sActive st"] by (simp add: slots_ok_def)
  show ?thesis
    using ok e a b False unfolding releaseSlot_def Let_def
    by (simp add: step_defs) (rule schedule_slots, simp add: slots_ok_def)
qed (use ok in \<open>simp add: releaseSlot_def Let_def\<close>)

lemma sched_step_slots:
  assumes ok: "slots_ok c st" and e: "enabled st e"
  shows "slots_ok c (sched_step c e st)"
proof (cases e)
  case (Enqueue now r m p)
  show ?thesis
  proof (cases "int (length (sQueue st)) \<ge> maxQueue c")
    case False
    then show ?thesis using ok Enqueue
      by (simp add: enqueue_def Let_def tell_def) (rule schedule_slots, simp add: slots_ok_def)
  qed (use ok Enqueue in \<open>simp add: enqueue_def\<close>)
next
  case (Cancel now r)
  then show ?thesis
    by (auto simp: cancel_def Let_def step_defs splice_out_def split: option.split intro!: slots_okI [OF ok])
next
  case (Queue_timer now k)
  then show ?thesis
    by (auto simp: queueTimeout_def Let_def step_defs splice_out_def split: option.split intro!: slots_okI [OF ok])
next
  case (Exec_timer now i)
  with e show ?thesis
    by (auto simp: execTimeout_def Let_def step_defs live_update intro!: releaseSlot_slots slots_okI [OF ok])
next
  case (Execute_resolved now i v)
  with e show ?thesis
    by (auto simp: executeResolved_def Let_def step_defs live_update intro!: slots_okI [OF ok])
next
  case (Execute_rejected now i v)
  with e show ?thesis
    by (auto simp: executeRejected_def Let_def step_defs live_update intro!: slots_okI [OF ok])
next
  case (Run_finally now i)
  with e show ?thesis
    by (auto simp: runFinally_def step_defs live_update intro!: releaseSlot_slots slots_okI [OF ok])
qed

lemma reach_slots: "sched_reach c adm st \<Longrightarrow> slots_ok c st"
  by (induction rule: sched_reach.induct)
    (auto simp: sched_step_slots, simp add: slots_ok_def sched_init_def mfe.exact_def perMfe_def live_def)

section \<open>No job waits that could run\<close>

definition conserving :: "sched_config \<Rightarrow> sched \<Rightarrow> bool" where
  "conserving c st \<longleftrightarrow> (\<forall>j \<in> set (sQueue st). \<not> canRun c st j)"

lemma conserving_schedule: "conserving c (schedule c now st)"
  by (auto simp: conserving_def dest: schedule_no_runnable)

lemma conservingI:
  assumes "conserving c st" and "set (sQueue st') \<subseteq> set (sQueue st)"
    and "sActive st' = sActive st" and "sPerMfe st' = sPerMfe st"
  shows "conserving c st'"
  using assms by (auto simp: conserving_def canRun_def)

lemma releaseSlot_conserving: "conserving c st \<Longrightarrow> conserving c (releaseSlot c now i st)"
  by (simp add: releaseSlot_def Let_def conserving_schedule)

lemma sched_step_conserving:
  assumes ok: "conserving c st"
  shows "conserving c (sched_step c e st)"
proof (cases e)
  case (Enqueue now r m p)
  then show ?thesis using ok by (simp add: enqueue_def Let_def conserving_schedule)
next
  case (Cancel now r)
  then show ?thesis
    by (auto simp: cancel_def Let_def step_defs dest: set_splice_out [THEN subsetD] split: option.split
        intro!: conservingI [OF ok])
next
  case (Queue_timer now k)
  then show ?thesis
    by (auto simp: queueTimeout_def Let_def step_defs dest: set_splice_out [THEN subsetD] split: option.split
        intro!: conservingI [OF ok])
qed (auto simp: execTimeout_def executeResolved_def executeRejected_def runFinally_def Let_def step_defs
    intro!: releaseSlot_conserving conservingI [OF ok])

lemma reach_conserving: "sched_reach c adm st \<Longrightarrow> conserving c st"
  by (induction rule: sched_reach.induct)
    (auto simp: sched_step_conserving, simp add: conserving_def sched_init_def)

section \<open>The map of finished jobs\<close>

lemma evict_over_length: "length (evict_over n xs) \<le> n"
  by (induction xs) auto

lemma evict_over_id: "length xs \<le> n \<Longrightarrow> evict_over n xs = xs"
  by (induction xs) auto

lemma evict_over_drop: "evict_over n xs = drop (length xs - n) xs"
  by (induction xs) (auto simp: Suc_diff_le)

lemma schedule_done [simp]: "sDone (schedule c now st) = sDone st"
  by (rule schedule_rule [where P = "\<lambda>st'. sDone st' = sDone st"])
    (auto simp: startJob_def Let_def step_defs takeFromQueue_def split: option.split)

lemma releaseSlot_done [simp]: "sDone (releaseSlot c now i st) = sDone st"
  by (simp add: releaseSlot_def Let_def step_defs)

lemma recordDone_length: "length (sDone (recordDone c now r s st)) \<le> doneMaxEntries c"
  by (simp add: recordDone_def evictDone_def evict_over_length)

lemma sched_step_done:
  assumes "length (sDone st) \<le> doneMaxEntries c"
  shows "length (sDone (sched_step c e st)) \<le> doneMaxEntries c"
proof (cases e)
  case (Enqueue now r m p)
  with assms show ?thesis by (simp add: enqueue_def Let_def tell_def)
next
  case (Cancel now r)
  with assms show ?thesis
    by (auto simp: cancel_def Let_def abort_job_def recordDone_length split: option.split)
next
  case (Queue_timer now k)
  with assms show ?thesis
    by (auto simp: queueTimeout_def Let_def clearQueueTimer_def recordDone_length split: option.split)
qed (use assms in \<open>simp_all add: execTimeout_def executeResolved_def executeRejected_def runFinally_def
      set_phase_def Let_def recordDone_length\<close>)

lemma reach_done: "sched_reach c adm st \<Longrightarrow> length (sDone st) \<le> doneMaxEntries c"
  by (induction rule: sched_reach.induct) (simp_all add: sched_step_done sched_init_def)

end
