(* ===== verification/Scheduler_Jobs.thy ===== *)
theory Scheduler_Jobs
  imports Scheduler_Properties
begin

text \<open>
  The life of a job, for the histories \<open>fresh_ids\<close> admits. The invariant \<open>own\<close> has three parts: the queue, the
  active map and the runs agree on who holds what (\<open>ids_ok\<close>), each job is one object that is queued or run at most
  once (\<open>jobs_ok\<close>), and timers, phases and promises agree (\<open>fate_ok\<close>).
\<close>

section \<open>The invariant\<close>

definition ids_ok :: "sched \<Rightarrow> bool" where
  "ids_ok st \<longleftrightarrow>
     distinct (map jReq (sQueue st) @ map fst (sActive st)) \<and>
     (\<forall>(r, j) \<in> set (sActive st). jReq j = r) \<and>
     mset (map snd (sActive st)) = mset (live (sRuns st))"

definition jobs_ok :: "sched \<Rightarrow> bool" where
  "jobs_ok st \<longleftrightarrow>
     distinct (map jId (sQueue st @ map rJob (sRuns st))) \<and>
     (\<forall>j \<in> set (sQueue st @ map rJob (sRuns st)). jId j < length (sJobs st) \<and> sJobs st ! jId j = j) \<and>
     (\<forall>u k. sExecTimer st u = Some k \<longleftrightarrow> k < length (sRuns st) \<and> jId (rJob (sRuns st ! k)) = u)"

text \<open>
  The timer of a run is pending as long as the run holds its slot; the promise is open while the job executes
  within its limit; a run gives its slot back when it has finished or its limit has passed.
\<close>

definition run_ok :: "(nat \<Rightarrow> outcome option) \<Rightarrow> nat set \<Rightarrow> run \<Rightarrow> bool" where
  "run_ok S T r \<longleftrightarrow>
     (rTimer r \<longleftrightarrow> \<not> rReleased r) \<and>
     (S (jId (rJob r)) = None \<longleftrightarrow> rPhase r = Executing \<and> jId (rJob r) \<notin> T) \<and>
     (rReleased r \<longleftrightarrow> rPhase r = Finished \<or> jId (rJob r) \<in> T)"

definition fate_ok :: "sched \<Rightarrow> bool" where
  "fate_ok st \<longleftrightarrow>
     sQueueTimers st = jId ` set (sQueue st) \<and>
     (\<forall>j \<in> set (sQueue st). sSettled st (jId j) = None \<and> jId j \<notin> sTimedOut st) \<and>
     (\<forall>k < length (sRuns st). run_ok (sSettled st) (sTimedOut st) (sRuns st ! k)) \<and>
     (\<forall>u < length (sJobs st). u \<in> jId ` set (sQueue st @ map rJob (sRuns st)) \<or> sSettled st u \<noteq> None) \<and>
     (\<forall>u \<ge> length (sJobs st). sSettled st u = None \<and> u \<notin> sTimedOut st)"

definition own :: "sched \<Rightarrow> bool" where
  "own st \<longleftrightarrow> ids_ok st \<and> jobs_ok st \<and> fate_ok st"

lemmas own_defs = own_def ids_ok_def jobs_ok_def fate_ok_def

text \<open>The other fields do not matter.\<close>

lemma own_cong:
  assumes "own st"
    and "sQueue st' = sQueue st" "sActive st' = sActive st" "sRuns st' = sRuns st" "sExecTimer st' = sExecTimer st"
      "sQueueTimers st' = sQueueTimers st" "sTimedOut st' = sTimedOut st" "sSettled st' = sSettled st" "sJobs st' = sJobs st"
  shows "own st'"
  using assms by (simp add: own_defs)

section \<open>A job starts\<close>

lemma launch_eq:
  assumes ids: "ids_ok st" and j: "j \<in> set (sQueue st)"
  obtains ys zs p t where "sQueue st = ys @ j # zs"
    and "launch now j st = st\<lparr>sQueue := ys @ zs, sQueueTimers := sQueueTimers st - {jId j},
      sActive := sActive st @ [(jReq j, j)], sPerMfe := p, sTold := t,
      sRuns := sRuns st @ [\<lparr>rJob = j, rStartedAt = now, rReleased = False, rTimer = True, rPhase = Executing\<rparr>],
      sExecTimer := (sExecTimer st)(jId j \<mapsto> length (sRuns st))\<rparr>"
proof -
  have "distinct (map jReq (sQueue st))" using ids by (simp add: ids_ok_def)
  from findIndex_self [OF j this] obtain ys zs
    where q: "sQueue st = ys @ j # zs" "findIndex (\<lambda>k. jReq k = jReq j) (sQueue st) = Some (length ys)" .
  have "jReq j \<notin> fst ` set (sActive st)" using ids j by (auto simp: ids_ok_def)
  then have "AList.update (jReq j) j (sActive st) = sActive st @ [(jReq j, j)]" by (rule update_fresh)
  with q that [of ys zs] show thesis
    by (simp add: startJob_def takeFromQueue_def tell_def clearQueueTimer_def Let_def)
qed

lemma launch_own:
  assumes own: "own st" and j: "j \<in> set (sQueue st)"
  shows "own (launch now j st)"
proof -
  have ids: "ids_ok st" and jobs: "jobs_ok st" and fate: "fate_ok st" using own by (simp_all add: own_def)
  let ?r = "\<lparr>rJob = j, rStartedAt = now, rReleased = False, rTimer = True, rPhase = Executing\<rparr>"
  obtain ys zs p t where q: "sQueue st = ys @ j # zs"
    and eq: "launch now j st = st\<lparr>sQueue := ys @ zs, sQueueTimers := sQueueTimers st - {jId j},
      sActive := sActive st @ [(jReq j, j)], sPerMfe := p, sTold := t, sRuns := sRuns st @ [?r],
      sExecTimer := (sExecTimer st)(jId j \<mapsto> length (sRuns st))\<rparr>" by (rule launch_eq [OF ids j])
  have "ids_ok (launch now j st)"
  proof -
    have "distinct (map jReq (ys @ zs) @ map fst (sActive st @ [(jReq j, j)])) =
        distinct (map jReq (sQueue st) @ map fst (sActive st))"
      by (rule mset_eq_imp_distinct_iff) (simp add: q)
    then show ?thesis using ids unfolding eq by (simp add: ids_ok_def live_def del: distinct_append map_append)
  qed
  moreover have "jobs_ok (launch now j st)"
  proof -
    have x: "jId (rJob (sRuns st ! k)) \<noteq> jId j" if "k < length (sRuns st)" for k
    proof -
      have "jId j \<notin> jId ` rJob ` set (sRuns st)" using jobs q by (simp add: jobs_ok_def image_image)
      then show ?thesis by (metis imageI nth_mem that)
    qed
    have "((sExecTimer st)(jId j \<mapsto> length (sRuns st))) u = Some k \<longleftrightarrow>
        k < Suc (length (sRuns st)) \<and> jId (rJob ((sRuns st @ [?r]) ! k)) = u" for u k
      using jobs x by (cases "k = length (sRuns st)") (auto simp: jobs_ok_def nth_append)
    moreover have "distinct (map jId ((ys @ zs) @ map rJob (sRuns st @ [?r]))) =
        distinct (map jId (sQueue st @ map rJob (sRuns st)))"
      by (rule mset_eq_imp_distinct_iff) (simp add: q)
    moreover have "set ((ys @ zs) @ map rJob (sRuns st @ [?r])) = set (sQueue st @ map rJob (sRuns st))"
      using q by auto
    ultimately show ?thesis
      using jobs unfolding eq jobs_ok_def by (simp del: set_append map_append set_map)
  qed
  moreover have "fate_ok (launch now j st)"
  proof -
    have n: "sSettled st (jId j) = None" "jId j \<notin> sTimedOut st" using fate j by (auto simp: fate_ok_def)
    have d: "jId j \<notin> jId ` set (ys @ zs)" using jobs q by (auto simp: jobs_ok_def)
    have t: "sQueueTimers st - {jId j} = jId ` set (ys @ zs)"
      using fate q d by (auto simp: fate_ok_def)
    have r: "run_ok (sSettled st) (sTimedOut st) ((sRuns st @ [?r]) ! k)" if "k < Suc (length (sRuns st))" for k
      using that fate n by (cases "k = length (sRuns st)") (auto simp: fate_ok_def run_ok_def nth_append)
    have m: "jId ` set ((ys @ zs) @ map rJob (sRuns st @ [?r])) = jId ` set (sQueue st @ map rJob (sRuns st))"
      using q by auto
    have qs: "set (ys @ zs) \<subseteq> set (sQueue st)" using q by auto
    show ?thesis
      using fate t r m qs unfolding eq fate_ok_def
      by (simp del: set_append set_map image_Un) (meson subsetD)
  qed
  ultimately show ?thesis by (simp add: own_def)
qed

lemma schedule_own: "own st \<Longrightarrow> own (schedule c now st)"
  by (rule schedule_rule [where P = own]) (auto intro: launch_own dest: pickNextJob_Some(1))

section \<open>A job leaves the queue with an answer\<close>

lemma leave_own:
  assumes own: "own st" and q: "sQueue st = ys @ j # zs" and S: "S = (sSettled st)(jId j \<mapsto> out)"
  shows "own (st\<lparr>sQueue := ys @ zs, sQueueTimers := sQueueTimers st - {jId j}, sSettled := S\<rparr>)" (is "own ?st")
proof -
  have ids: "ids_ok st" and jobs: "jobs_ok st" and fate: "fate_ok st" using own by (simp_all add: own_def)
  have "ids_ok ?st" using ids q by (auto simp: ids_ok_def)
  moreover have "jobs_ok ?st" using jobs q by (auto simp: jobs_ok_def)
  moreover have "fate_ok ?st"
  proof -
    have d: "jId j \<notin> jId ` set (ys @ zs)" and e: "jId j \<notin> (jId \<circ> rJob) ` set (sRuns st)"
      and l: "jId j < length (sJobs st)" using jobs q by (auto simp: jobs_ok_def)
    have t: "sQueueTimers st - {jId j} = jId ` set (ys @ zs)" using fate q d by (auto simp: fate_ok_def)
    have r: "run_ok S (sTimedOut st) (sRuns st ! k)" if "k < length (sRuns st)" for k
    proof -
      have "jId (rJob (sRuns st ! k)) \<noteq> jId j" using e that by (metis comp_apply imageI nth_mem)
      then show ?thesis using fate that S by (simp add: fate_ok_def run_ok_def)
    qed
    have a: "u \<in> jId ` set ((ys @ zs) @ map rJob (sRuns st)) \<or> S u \<noteq> None" if "u < length (sJobs st)" for u
      using fate that q S by (fastforce simp: fate_ok_def)
    have n: "S u = None \<and> u \<notin> sTimedOut st" if "length (sJobs st) \<le> u" for u
      using fate that l S by (simp add: fate_ok_def)
    have w: "S (jId k) = None \<and> jId k \<notin> sTimedOut st" if "k \<in> set (ys @ zs)" for k
    proof -
      have "jId k \<noteq> jId j" using d that by (metis imageI)
      moreover have "k \<in> set (sQueue st)" using that q by auto
      ultimately show ?thesis using fate S by (simp add: fate_ok_def)
    qed
    show ?thesis using t r a n w unfolding fate_ok_def by (simp del: set_append set_map image_Un)
  qed
  ultimately show ?thesis by (simp add: own_def)
qed

section \<open>A run changes\<close>

lemma runs_update_jobs:
  assumes "i < length rs" and "rJob r' = rJob (rs ! i)"
  shows "map rJob (rs[i := r']) = map rJob rs"
  using assms by (metis list_update_id map_update)

lemma run_update_fate:
  assumes jobs: "jobs_ok st" and fate: "fate_ok st" and i: "i < length (sRuns st)"
    and j: "rJob r' = rJob (sRuns st ! i)" and ok: "run_ok S T r'"
    and S: "\<forall>u. u \<noteq> jId (rJob r') \<longrightarrow> S u = sSettled st u" and T: "\<forall>u. u \<noteq> jId (rJob r') \<longrightarrow> (u \<in> T \<longleftrightarrow> u \<in> sTimedOut st)"
  shows "jobs_ok (st\<lparr>sRuns := (sRuns st)[i := r'], sSettled := S, sTimedOut := T\<rparr>)"
    and "fate_ok (st\<lparr>sRuns := (sRuns st)[i := r'], sSettled := S, sTimedOut := T\<rparr>)"
proof -
  have m: "map rJob ((sRuns st)[i := r']) = map rJob (sRuns st)" by (rule runs_update_jobs [OF i j])
  then have mu: "rJob ((sRuns st)[i := r'] ! k) = rJob (sRuns st ! k)" if "k < length (sRuns st)" for k
    using that by (metis length_list_update nth_map)
  show "jobs_ok (st\<lparr>sRuns := (sRuns st)[i := r'], sSettled := S, sTimedOut := T\<rparr>)"
    using jobs mu unfolding jobs_ok_def by (simp add: m cong: conj_cong del: set_map map_update)
  have d: "distinct (map (jId \<circ> rJob) (sRuns st))" and
    q: "jId k \<noteq> jId (rJob r')" if "k \<in> set (sQueue st)" for k
    using jobs i j that by (auto simp: jobs_ok_def)
  have d: "distinct (map (jId \<circ> rJob) (sRuns st))" using jobs by (simp add: jobs_ok_def)
  have other: "jId (rJob (sRuns st ! k)) \<noteq> jId (rJob r')" if "k < length (sRuns st)" "k \<noteq> i" for k
    using that i j nth_eq_iff_index_eq [OF d, of k i] by simp
  have runs: "run_ok S T ((sRuns st)[i := r'] ! k)" if "k < length (sRuns st)" for k
    using that ok fate other [OF that] S T by (cases "k = i") (auto simp: fate_ok_def run_ok_def)
  have "jId (rJob r') < length (sJobs st)" using jobs i j by (auto simp: jobs_ok_def)
  moreover have "jId (rJob r') \<in> jId ` set (map rJob (sRuns st))" using i j by auto
  ultimately have "u \<in> jId ` set (sQueue st @ map rJob (sRuns st)) \<or> S u \<noteq> None" if "u < length (sJobs st)" for u
    using that fate S by (cases "u = jId (rJob r')") (auto simp: fate_ok_def simp del: set_map)
  moreover have "S u = None \<and> u \<notin> T" if "length (sJobs st) \<le> u" for u
    using that fate S T \<open>jId (rJob r') < length (sJobs st)\<close> by (auto simp: fate_ok_def)
  ultimately show "fate_ok (st\<lparr>sRuns := (sRuns st)[i := r'], sSettled := S, sTimedOut := T\<rparr>)"
    using fate q S T runs unfolding fate_ok_def by (simp add: m del: set_map map_update set_append)
qed

lemma run_change_own:
  assumes own: "own st" and i: "i < length (sRuns st)"
    and j: "rJob r' = rJob (sRuns st ! i)" and rel: "rReleased r' = rReleased (sRuns st ! i)"
    and ok: "run_ok S T r'"
    and S: "\<forall>u. u \<noteq> jId (rJob r') \<longrightarrow> S u = sSettled st u" and T: "\<forall>u. u \<noteq> jId (rJob r') \<longrightarrow> (u \<in> T \<longleftrightarrow> u \<in> sTimedOut st)"
  shows "own (st\<lparr>sRuns := (sRuns st)[i := r'], sSettled := S, sTimedOut := T\<rparr>)"
  using own run_update_fate [OF _ _ i j ok S T]
  by (simp add: own_def ids_ok_def live_update [OF i j rel])

lemma run_end_own:
  assumes own: "own st" and i: "i < length (sRuns st)" and held: "\<not> rReleased (sRuns st ! i)"
    and j: "rJob r' = rJob (sRuns st ! i)" and rel: "rReleased r'"
    and ok: "run_ok S T r'"
    and S: "\<forall>u. u \<noteq> jId (rJob r') \<longrightarrow> S u = sSettled st u" and T: "\<forall>u. u \<noteq> jId (rJob r') \<longrightarrow> (u \<in> T \<longleftrightarrow> u \<in> sTimedOut st)"
  shows "own (st\<lparr>sRuns := (sRuns st)[i := r'], sSettled := S, sTimedOut := T,
    sActive := AList.delete (jReq (rJob r')) (sActive st)\<rparr>)" (is "own ?st")
proof -
  let ?j = "rJob r'"
  have ids: "ids_ok st" and jobs: "jobs_ok st" and fate: "fate_ok st" using own by (simp_all add: own_def)
  have m: "mset (live (sRuns st)) = add_mset ?j (mset (live ((sRuns st)[i := r'])))"
    using live_release [OF i held rel] j by simp
  then have "?j \<in> set (map snd (sActive st))"
    using ids by (metis ids_ok_def set_mset_mset union_single_eq_member)
  then have "(jReq ?j, ?j) \<in> set (sActive st)" using ids by (auto simp: ids_ok_def)
  then obtain xs ys where a: "sActive st = xs @ (jReq ?j, ?j) # ys" by (meson in_set_conv_decomp)
  have "AList.delete (jReq ?j) (sActive st) = xs @ ys"
    unfolding a using ids a by (intro delete_middle) (simp add: ids_ok_def)
  then have "ids_ok ?st" using ids a m by (auto simp: ids_ok_def)
  with run_update_fate [OF jobs fate i j ok S T] show ?thesis by (simp add: own_def jobs_ok_def fate_ok_def)
qed

section \<open>Every event keeps the invariant\<close>

lemma enqueue_own:
  assumes own: "own st" and fresh: "r \<notin> jReq ` set (sQueue st)" "r \<notin> fst ` set (sActive st)"
  shows "own (snd (enqueue c now r m p st))"
proof (cases "int (length (sQueue st)) \<ge> maxQueue c")
  case False
  have ids: "ids_ok st" and jobs: "jobs_ok st" and fate: "fate_ok st" using own by (simp_all add: own_def)
  let ?j = "\<lparr>jId = length (sJobs st), jReq = r, jMfe = m, jPrio = normalizePriority p, jCreated = now\<rparr>"
  let ?st = "st\<lparr>sQueue := sQueue st @ [?j], sQueueTimers := insert (length (sJobs st)) (sQueueTimers st),
    sJobs := sJobs st @ [?j]\<rparr>"
  have "ids_ok ?st" using ids fresh by (auto simp: ids_ok_def)
  moreover have "jobs_ok ?st"
  proof -
    have n: "length (sJobs st) \<notin> jId ` set (sQueue st @ map rJob (sRuns st))"
    proof
      assume "length (sJobs st) \<in> jId ` set (sQueue st @ map rJob (sRuns st))"
      then obtain k where "k \<in> set (sQueue st @ map rJob (sRuns st))" "jId k = length (sJobs st)"
        by (metis imageE)
      with jobs show False by (metis jobs_ok_def less_irrefl)
    qed
    have "distinct (map jId ((sQueue st @ [?j]) @ map rJob (sRuns st))) =
        distinct (length (sJobs st) # map jId (sQueue st @ map rJob (sRuns st)))"
      by (rule mset_eq_imp_distinct_iff) simp
    with n jobs have "distinct (map jId ((sQueue st @ [?j]) @ map rJob (sRuns st)))"
      by (simp add: jobs_ok_def del: set_append map_append)
    moreover have "\<forall>k \<in> set ((sQueue st @ [?j]) @ map rJob (sRuns st)).
        jId k < Suc (length (sJobs st)) \<and> (sJobs st @ [?j]) ! jId k = k"
      using jobs by (auto simp: jobs_ok_def nth_append less_Suc_eq)
    ultimately show ?thesis using jobs by (simp add: jobs_ok_def del: set_append map_append)
  qed
  moreover have "fate_ok ?st"
  proof -
    have "u \<in> jId ` set ((sQueue st @ [?j]) @ map rJob (sRuns st)) \<or> sSettled st u \<noteq> None"
      if "u < Suc (length (sJobs st))" for u
      using that fate by (cases "u = length (sJobs st)") (auto simp: fate_ok_def)
    moreover have "insert (length (sJobs st)) (jId ` set (sQueue st)) = jId ` set (sQueue st @ [?j])" by auto
    moreover have "\<forall>k \<in> set (sQueue st @ [?j]). sSettled st (jId k) = None \<and> jId k \<notin> sTimedOut st"
      using fate by (auto simp: fate_ok_def)
    ultimately show ?thesis using fate unfolding fate_ok_def by (simp del: set_append set_map)
  qed
  ultimately have st: "own ?st" by (simp add: own_def)
  from False show ?thesis
    by (simp add: enqueue_def Let_def tell_def) (rule schedule_own, rule own_cong [OF st], simp_all)
qed (use own in \<open>simp add: enqueue_def\<close>)

lemma cancel_own:
  assumes own: "own st"
  shows "own (snd (cancel c now r st))"
proof (cases "findIndex (\<lambda>j. jReq j = r) (sQueue st)")
  case None
  then show ?thesis by (auto simp: cancel_def abort_job_def intro: own own_cong [OF own] split: option.split)
next
  case (Some i)
  from findIndex_SomeE [OF this] obtain ys j zs where q: "sQueue st = ys @ j # zs" "i = length ys" by metis
  have j: "sSettled st (jId j) = None" using own q by (simp add: own_def fate_ok_def)
  have "sExecTimer st (jId j) = None"
  proof (rule ccontr)
    assume "sExecTimer st (jId j) \<noteq> None"
    then obtain k where "k < length (sRuns st)" "jId (rJob (sRuns st ! k)) = jId j"
      using own by (auto simp: own_def jobs_ok_def)
    then have "jId j \<in> jId ` rJob ` set (sRuns st)" by (metis imageI nth_mem)
    with own q show False by (simp add: own_def jobs_ok_def image_image)
  qed
  with Some q j show ?thesis
    by (simp add: cancel_def Let_def step_defs timer_off_def)
      (rule own_cong [OF leave_own [OF own q(1) refl, of "Rejected_with Request_cancelled"]], simp_all)
qed

lemma queue_timer_own:
  assumes own: "own st" and k: "k \<in> sQueueTimers st"
  shows "own (queueTimeout c now (sJobs st ! k) st)"
    and "sJobs st ! k \<in> set (sQueue st)" and "jId (sJobs st ! k) = k"
    and "sSettled (queueTimeout c now (sJobs st ! k) st) k = Some (Rejected_with (Queue_timeout (now - jCreated (sJobs st ! k))))"
    and "sQueue (queueTimeout c now (sJobs st ! k) st) = remove1 (sJobs st ! k) (sQueue st)"
proof -
  obtain j where j: "j \<in> set (sQueue st)" "jId j = k" using own k by (auto simp: own_def fate_ok_def)
  then have jk: "sJobs st ! k = j" using own by (auto simp: own_def jobs_ok_def)
  with j show "sJobs st ! k \<in> set (sQueue st)" "jId (sJobs st ! k) = k" by simp_all
  have d: "distinct (map jReq (sQueue st))" using own by (simp add: own_def ids_ok_def)
  from findIndex_self [OF j(1) d] obtain ys zs
    where q: "sQueue st = ys @ j # zs" "findIndex (\<lambda>i. jReq i = jReq j) (sQueue st) = Some (length ys)" .
  have n: "sSettled st (jId j) = None" using own j(1) by (simp add: own_def fate_ok_def del: not_None_eq)
  have y: "j \<notin> set ys" using d q(1) by (auto simp: distinct_map)
  note eq = queueTimeout_def Let_def step_defs jk
  from q n show "own (queueTimeout c now (sJobs st ! k) st)"
    by (simp add: eq)
      (rule own_cong [OF leave_own [OF own q(1) refl, of "Rejected_with (Queue_timeout (now - jCreated j))"]], simp_all)
  from q n j show "sSettled (queueTimeout c now (sJobs st ! k) st) k = Some (Rejected_with (Queue_timeout (now - jCreated (sJobs st ! k))))"
    by (simp add: eq)
  from q y show "sQueue (queueTimeout c now (sJobs st ! k) st) = remove1 (sJobs st ! k) (sQueue st)"
    by (simp add: eq remove1_append)
qed

lemma run_at:
  assumes "own st" and "i < length (sRuns st)"
  shows "run_ok (sSettled st) (sTimedOut st) (sRuns st ! i)" and "sExecTimer st (jId (rJob (sRuns st ! i))) = Some i"
    and "sJobs st ! jId (rJob (sRuns st ! i)) = rJob (sRuns st ! i)"
  using assms by (auto simp: own_def fate_ok_def jobs_ok_def)

lemma exec_timer_own:
  assumes own: "own st" and en: "enabled st (Exec_timer now i)"
  shows "own (execTimeout c now i st)"
proof -
  let ?r = "sRuns st ! i" and ?j = "rJob (sRuns st ! i)"
  let ?r' = "?r\<lparr>rReleased := True, rTimer := False\<rparr>"
  let ?S = "(sSettled st)(jId ?j \<mapsto> Rejected_with (Exec_timeout (now - rStartedAt ?r)))"
  have i: "i < length (sRuns st)" and t: "rTimer ?r" and ph: "rPhase ?r \<noteq> Settled"
    using en by (auto simp: drained_def)
  note run = run_at [OF own i]
  have held: "\<not> rReleased ?r" using run(1) t by (simp add: run_ok_def)
  have unsettled: "sSettled st (jId ?j) = None"
    using run(1) held ph by (cases "rPhase ?r") (auto simp: run_ok_def)
  have "run_ok ?S (insert (jId ?j) (sTimedOut st)) ?r'" using run(1) by (auto simp: run_ok_def)
  from run_end_own [OF own i held _ _ this] have st: "own (st\<lparr>sRuns := (sRuns st)[i := ?r'], sSettled := ?S,
    sTimedOut := insert (jId ?j) (sTimedOut st), sActive := AList.delete (jReq ?j) (sActive st)\<rparr>)" by simp
  show ?thesis
    using i held run(2) unsettled unfolding execTimeout_def releaseSlot_def Let_def
    by (simp add: step_defs timer_off_def) (rule schedule_own, rule own_cong [OF st], simp_all)
qed

lemma settled_own:
  assumes own: "own st" and i: "i < length (sRuns st)" and ph: "rPhase (sRuns st ! i) = Executing"
  shows "own (executeResolved c now i v st)" and "own (executeRejected c now i e st)"
proof -
  let ?j = "rJob (sRuns st ! i)" and ?r' = "(sRuns st ! i)\<lparr>rPhase := Settled\<rparr>"
  note run = run_at [OF own i]
  have late: "own (st\<lparr>sRuns := (sRuns st)[i := ?r'], sSettled := sSettled st, sTimedOut := sTimedOut st\<rparr>)" if "jId ?j \<in> sTimedOut st"
    using run_change_own [OF own i, of ?r' "sSettled st" "sTimedOut st"] that run(1) ph by (simp add: run_ok_def)
  have intime: "own (st\<lparr>sRuns := (sRuns st)[i := ?r'], sSettled := (sSettled st)(jId ?j \<mapsto> out), sTimedOut := sTimedOut st\<rparr>)"
    and open_promise: "sSettled st (jId ?j) = None" if "jId ?j \<notin> sTimedOut st" for out
    using run_change_own [OF own i, of ?r' "(sSettled st)(jId ?j \<mapsto> out)" "sTimedOut st"] that run(1) ph
    by (auto simp: run_ok_def)
  show "own (executeResolved c now i v st)"
  proof (cases "jId ?j \<in> sTimedOut st")
    case True
    from late [OF True] True show ?thesis by (simp add: executeResolved_def Let_def step_defs)
  next
    case False
    from False open_promise [OF False] show ?thesis
      by (simp add: executeResolved_def Let_def step_defs) (rule own_cong [OF intime [OF False]], simp_all)
  qed
  show "own (executeRejected c now i e st)"
  proof (cases "jId ?j \<in> sTimedOut st")
    case True
    from late [OF True] True show ?thesis by (simp add: executeRejected_def Let_def step_defs)
  next
    case False
    from False open_promise [OF False] show ?thesis
      by (cases "jId ?j \<in> sAborted st"; simp add: executeRejected_def Let_def step_defs)
        (rule own_cong [OF intime [OF False]], simp_all)+
  qed
qed

lemma finally_own:
  assumes own: "own st" and i: "i < length (sRuns st)" and ph: "rPhase (sRuns st ! i) = Settled"
  shows "own (runFinally c now i st)"
proof (cases "rReleased (sRuns st ! i)")
  case True
  have "run_ok (sSettled st) (sTimedOut st) ((sRuns st ! i)\<lparr>rPhase := Finished\<rparr>)"
    using run_at(1) [OF own i] True ph by (auto simp: run_ok_def)
  from run_change_own [OF own i _ _ this] True i show ?thesis
    by (simp add: runFinally_def releaseSlot_def set_phase_def)
next
  case False
  let ?r' = "(sRuns st ! i)\<lparr>rPhase := Finished, rReleased := True, rTimer := False\<rparr>"
  have "run_ok (sSettled st) (sTimedOut st) ?r'" using run_at(1) [OF own i] ph by (auto simp: run_ok_def)
  from run_end_own [OF own i False _ _ this] have st: "own (st\<lparr>sRuns := (sRuns st)[i := ?r'], sSettled := sSettled st,
    sTimedOut := sTimedOut st, sActive := AList.delete (jReq (rJob (sRuns st ! i))) (sActive st)\<rparr>)" by simp
  from False i run_at(2) [OF own i] show ?thesis
    by (simp add: runFinally_def releaseSlot_def Let_def step_defs timer_off_def)
      (rule schedule_own, rule own_cong [OF st], simp_all)
qed

lemma sched_step_own:
  assumes "own st" and "enabled st e" and "fresh_ids st e"
  shows "own (sched_step c e st)"
  using assms by (cases e) (auto simp: enqueue_own cancel_own queue_timer_own(1) settled_own finally_own exec_timer_own)

lemma reach_own: "sched_reach c fresh_ids st \<Longrightarrow> own st"
proof (induction rule: sched_reach.induct)
  case init
  show ?case by (simp add: own_defs sched_init_def live_def)
qed (rule sched_step_own)

end
