(* ===== verification/Scheduler_Claims.thy ===== *)
theory Scheduler_Claims
  imports Scheduler_Jobs
begin

text \<open>
  The theorems about the scheduler, a concrete history they are applied to, and the history in which two jobs share
  an id.
\<close>

section \<open>A concrete history\<close>

definition demo_sched_config :: sched_config where
  "demo_sched_config = default_sched_config\<lparr>maxSlots := 1\<rparr>"

text \<open>A first job starts, a second one waits.\<close>

definition demo_busy :: sched where
  "demo_busy = sched_step demo_sched_config (Enqueue 1000 ''r1'' ''qa'' None) (sched_init demo_sched_config)"

definition demo_waiting :: sched where
  "demo_waiting = sched_step demo_sched_config (Enqueue 2000 ''r2'' ''qa'' (Some ''HIGH'')) demo_busy"

lemma demo_busy_parts:
  "length (sQueue demo_busy) = 0 \<and> map fst (sActive demo_busy) = [''r1'']"
  by code_simp

lemma demo_waiting_parts:
  "map jReq (sQueue demo_waiting) = [''r2''] \<and> map fst (sActive demo_waiting) = [''r1''] \<and> length (sJobs demo_waiting) = 2
   \<and> map jPrio (sQueue demo_waiting) = [High] \<and> sSettled demo_waiting 1 = None \<and> drained demo_waiting
   \<and> length (sRuns demo_waiting) = 1 \<and> rTimer (sRuns demo_waiting ! 0)"
  by code_simp

lemma demo_busy_reach: "sched_reach demo_sched_config fresh_ids demo_busy"
  unfolding demo_busy_def by (rule sched_reach.step [OF sched_reach.init]) (simp_all add: sched_init_def)

lemma demo_waiting_reach: "sched_reach demo_sched_config fresh_ids demo_waiting"
  unfolding demo_waiting_def
proof (rule sched_reach.step [OF demo_busy_reach])
  have "set (sQueue demo_busy) = {}" "fst ` set (sActive demo_busy) = {''r1''}"
    using demo_busy_parts by (simp_all flip: set_map)
  then show "fresh_ids demo_busy (Enqueue 2000 ''r2'' ''qa'' (Some ''HIGH''))" by simp
qed simp

section \<open>Ids that clients repeat\<close>

text \<open>
  The server passes on the id a client sends. Two jobs with one id hold one entry of the active map between them, so
  with two slots a third job starts beside them.
\<close>

definition twin_config :: sched_config where
  "twin_config = default_sched_config\<lparr>maxSlots := 2, maxPerMfe := 3\<rparr>"

definition twin_state :: sched where
  "twin_state = sched_step twin_config (Enqueue 3 ''r2'' ''qa'' None)
     (sched_step twin_config (Enqueue 2 ''r1'' ''qa'' None)
       (sched_step twin_config (Enqueue 1 ''r1'' ''qa'' None) (sched_init twin_config)))"

lemma repeated_id_overruns_slots:
  "sched_reach twin_config any_event twin_state \<and> int (length (live (sRuns twin_state))) = 3 \<and> maxSlots twin_config = 2"
proof (intro conjI)
  show "sched_reach twin_config any_event twin_state"
    unfolding twin_state_def by (intro sched_reach.step sched_reach.init) (simp_all add: any_event_def)
  show "int (length (live (sRuns twin_state))) = 3" by code_simp
qed (simp add: twin_config_def)

section \<open>Age and class\<close>

lemma class_outranks_age:
  assumes "0 < agingMs c" and "basePriority (jPrio b) < basePriority (jPrio a)"
    and "jCreated a \<le> now" and "now - jCreated b < 100 * agingMs c"
  shows "order_key c now a < order_key c now b"
proof -
  have "(now - jCreated b) div agingMs c < 100"
  proof (rule ccontr)
    let ?x = "now - jCreated b" and ?a = "agingMs c"
    assume "\<not> ?x div ?a < 100"
    then have "100 * ?a \<le> (?x div ?a) * ?a" using assms(1) by (intro mult_right_mono) auto
    with assms(1,4) show False using div_mult_mod_eq [of ?x ?a] pos_mod_sign [of ?a ?x] by linarith
  qed
  moreover have "0 \<le> (now - jCreated a) div agingMs c" using assms(1,3) by (simp add: pos_imp_zdiv_nonneg_iff)
  moreover have "basePriority (jPrio b) + 100 \<le> basePriority (jPrio a)"
    using assms(2) by (cases "jPrio a"; cases "jPrio b") auto
  ultimately show ?thesis by (simp add: order_key_def effectivePriority_def less_prod_def)
qed

section \<open>The theorems\<close>

lemma count_owner: "count (mset (map f xs)) m = length (filter (\<lambda>j. f j = m) xs)"
  by (induction xs) auto

lemma owner_load:
  assumes "slots_ok c st"
  shows "perMfe (sPerMfe st) m = length (filter (\<lambda>j. jMfe j = m) (live (sRuns st)))"
  using assms count_owner [of jMfe "live (sRuns st)" m] by (simp add: slots_ok_def mfe.exact_def)

lemma active_load: "own st \<Longrightarrow> length (sActive st) = length (live (sRuns st))"
  by (metis ids_ok_def length_map own_def size_mset)

text \<open>C8: At every moment at most \<open>maxSlots\<close> jobs run, at most \<open>maxPerMfe\<close> of them for one front end, and at most
  \<open>maxQueue\<close> wait, whatever ends, times out or is cancelled, as long as an id is not used twice at a time.
\<close>

theorem slots_are_never_overrun:
  assumes "sched_reach c fresh_ids st"
  shows "int (length (live (sRuns st))) \<le> max 0 (maxSlots c) \<and>
    int (length (filter (\<lambda>j. jMfe j = m) (live (sRuns st)))) \<le> max 0 (maxPerMfe c) \<and>
    int (length (sQueue st)) \<le> max 0 (maxQueue c)"
proof -
  have "slots_ok c st" "own st" using assms by (auto intro: reach_slots reach_own)
  then show ?thesis by (simp add: active_load [symmetric] owner_load [symmetric]) (simp add: slots_ok_def)
qed

theorem slots_are_never_overrun_witness: "int (length (live (sRuns demo_waiting))) \<le> 1"
  using slots_are_never_overrun [OF demo_waiting_reach] by (simp add: demo_sched_config_def)



lemma find_filter: "find P xs = (case filter P xs of [] \<Rightarrow> None | x # _ \<Rightarrow> Some x)"
  by (induction xs) auto

lemma sort_key_hd:
  assumes "xs \<noteq> []"
  shows "find (\<lambda>x. \<forall>y \<in> set xs. f x \<le> f y) xs = Some (hd (sort_key f xs))"
proof -
  obtain x ys where s: "sort_key f xs = x # ys" using assms by (metis length_0_conv length_sort neq_Nil_conv)
  then have m: "set xs = set (x # ys)" by (metis set_sort)
  have "sorted (map f (x # ys))" by (metis s sorted_sort_key)
  then have least: "\<forall>y \<in> set xs. f x \<le> f y" using m by auto
  have "filter (\<lambda>y. f y = f x) xs = filter (\<lambda>y. f y = f x) (x # ys)" by (metis s sort_key_stable)
  then have "find (\<lambda>y. f y = f x) xs = Some x" by (simp add: find_filter)
  moreover have "(\<forall>y \<in> set xs. f z \<le> f y) \<longleftrightarrow> f z = f x" if "z \<in> set xs" for z
    using least m that by (auto intro: antisym)
  ultimately show ?thesis using s by (simp cong: find_cong)
qed

text \<open>The job that is started next is the first of the queue among those that can run and that no other runnable job
  precedes by effective priority and then by age: the sort computes what a search for the best job would.
\<close>

theorem next_job_is_the_best_waiting:
  "pickNextJob c now st =
     find (\<lambda>j. canRun c st j \<and> (\<forall>k \<in> set (filter (canRun c st) (sQueue st)). order_key c now j \<le> order_key c now k))
       (sQueue st)"
proof (cases "filter (canRun c st) (sQueue st) = []")
  case True
  then show ?thesis by (simp add: pickNextJob_def find_filter filter_empty_conv del: set_filter)
next
  case False
  let ?xs = "filter (canRun c st) (sQueue st)"
  obtain x ys where s: "sort_key (order_key c now) ?xs = x # ys" using False by (metis length_0_conv length_sort neq_Nil_conv)
  from sort_key_hd [OF False, of "order_key c now"] show ?thesis
    by (simp add: pickNextJob_def s find_filter filter_filter del: set_filter)
qed

definition demo_queue :: sched where
  "demo_queue = (sched_init demo_sched_config)\<lparr>sQueue :=
     [\<lparr>jId = 0, jReq = ''r1'', jMfe = ''qa'', jPrio = Normal, jCreated = 1000\<rparr>,
      \<lparr>jId = 1, jReq = ''r2'', jMfe = ''qa'', jPrio = High, jCreated = 2000\<rparr>]\<rparr>"

theorem next_job_is_the_best_waiting_witness:
  "map_option jReq (find (\<lambda>j. canRun demo_sched_config demo_queue j \<and>
      (\<forall>k \<in> set (filter (canRun demo_sched_config demo_queue) (sQueue demo_queue)).
         order_key demo_sched_config 3000 j \<le> order_key demo_sched_config 3000 k)) (sQueue demo_queue)) = Some ''r2''"
proof -
  have "map_option jReq (pickNextJob demo_sched_config 3000 demo_queue) = Some ''r2''" by code_simp
  then show ?thesis by (simp only: next_job_is_the_best_waiting)
qed

lemma schedule_settled [simp]: "sSettled (schedule c now st) = sSettled st"
  by (rule schedule_rule [where P = "\<lambda>st'. sSettled st' = sSettled st"])
    (auto simp: startJob_def Let_def step_defs takeFromQueue_def split: option.split)

lemma releaseSlot_settled [simp]: "sSettled (releaseSlot c now i st) = sSettled st"
  by (simp add: releaseSlot_def Let_def step_defs)

lemma open_job_has_place:
  assumes own: "own st" and k: "k < length (sJobs st)" and out: "sSettled st k = None"
  obtains "k \<in> sQueueTimers st" "sJobs st ! k \<in> set (sQueue st)"
  | i where "i < length (sRuns st)" "rJob (sRuns st ! i) = sJobs st ! k" "\<not> rReleased (sRuns st ! i)"
      "rTimer (sRuns st ! i)" "jId (sJobs st ! k) = k"
proof -
  have "k \<in> jId ` set (sQueue st @ map rJob (sRuns st))" using own k out by (auto simp: own_def fate_ok_def)
  then obtain j where j: "j \<in> set (sQueue st @ map rJob (sRuns st))" "jId j = k" by (metis imageE)
  then have jk: "sJobs st ! k = j" using own by (auto simp: own_def jobs_ok_def)
  from j(1) consider "j \<in> set (sQueue st)" | i where "i < length (sRuns st)" "rJob (sRuns st ! i) = j"
    by (auto simp: in_set_conv_nth)
  then show thesis
  proof cases
    case 1
    then show thesis using own j jk by (intro that(1)) (auto simp: own_def fate_ok_def)
  next
    case 2
    then show thesis using run_at(1) [OF own 2(1)] out j jk by (intro that(2)) (auto simp: run_ok_def)
  qed
qed



lemma schedule_appends: "\<exists>rs. sRuns (schedule c now st) = sRuns st @ rs"
  by (rule schedule_rule [where P = "\<lambda>st'. \<exists>rs. sRuns st' = sRuns st @ rs"])
    (auto simp: startJob_def Let_def step_defs)

lemma schedule_timedOut [simp]: "sTimedOut (schedule c now st) = sTimedOut st"
  by (rule schedule_rule [where P = "\<lambda>st'. sTimedOut st' = sTimedOut st"])
    (auto simp: startJob_def Let_def step_defs takeFromQueue_def split: option.split)

lemma releaseSlot_run:
  assumes "i < length (sRuns st)"
  shows "i < length (sRuns (releaseSlot c now i st))" and "rReleased (sRuns (releaseSlot c now i st) ! i)"
    and "rJob (sRuns (releaseSlot c now i st) ! i) = rJob (sRuns st ! i)"
    and "sTimedOut (releaseSlot c now i st) = sTimedOut st"
proof -
  let ?rs = "timer_off (sExecTimer st (jId (rJob (sRuns st ! i)))) ((sRuns st)[i := (sRuns st ! i)\<lparr>rReleased := True\<rparr>])"
  have "i < length (sRuns (releaseSlot c now i st)) \<and> rReleased (sRuns (releaseSlot c now i st) ! i) \<and>
      rJob (sRuns (releaseSlot c now i st) ! i) = rJob (sRuns st ! i)"
  proof (cases "rReleased (sRuns st ! i)")
    case False
    then have "\<exists>st'. releaseSlot c now i st = schedule c now st' \<and> sRuns st' = ?rs"
      by (simp add: releaseSlot_def Let_def step_defs) (rule exI, rule conjI, rule refl, simp)
    then obtain xs where "sRuns (releaseSlot c now i st) = ?rs @ xs" by (metis schedule_appends)
    with assms show ?thesis by (simp add: nth_append timer_off_nth)
  qed (use assms in \<open>simp add: releaseSlot_def\<close>)
  then show "i < length (sRuns (releaseSlot c now i st))" "rReleased (sRuns (releaseSlot c now i st) ! i)"
    "rJob (sRuns (releaseSlot c now i st) ! i) = rJob (sRuns st ! i)" by simp_all
  show "sTimedOut (releaseSlot c now i st) = sTimedOut st" by (simp add: releaseSlot_def Let_def step_defs)
qed



text \<open>The scheduler's memory is bounded, whatever the clients send and whatever ids they repeat.
\<close>

theorem scheduler_stays_bounded:
  assumes "sched_reach c any_event st"
  shows "int (length (sQueue st)) \<le> max 0 (maxQueue c) \<and> int (length (sActive st)) \<le> max 0 (maxSlots c) \<and>
    length (sDone st) \<le> doneMaxEntries c \<and> int (perMfe (sPerMfe st) m) \<le> max 0 (maxPerMfe c)"
  using reach_slots [OF assms] reach_done [OF assms] by (simp add: slots_ok_def)

theorem scheduler_stays_bounded_witness: "length (sDone twin_state) \<le> 500"
  using scheduler_stays_bounded [of twin_config twin_state] repeated_id_overruns_slots
  by (simp add: twin_config_def default_sched_config_def)

end
