(* ===== verification/Request_Registry.thy ===== *)
theory Request_Registry
  imports Js_Collections
begin

text \<open>
  \<^verbatim>\<open>api-server/requestRegistry.js\<close>: which requests are in flight, which have finished, and the file that names the
  ones in flight for the process that starts after a crash. A promise of an execution is an entry of \<open>rgExecs\<close>. The
  writes of the file are a state machine of its own (\<open>writer\<close>), since \<^verbatim>\<open>writeFile\<close> and \<^verbatim>\<open>rename\<close> answer later;
  \<open>rgWrites\<close> lists the writes that were started, newest first. The text of the file is its list of requests with the
  time it was made.
\<close>

section \<open>Data\<close>

record inflight_entry =
  ifMfe :: string
  ifStream :: bool
  ifStartedAt :: int
  ifExec :: nat

record 'r completed_entry =
  cpFinishedAt :: int
  cpResult :: 'r

record payload_row =
  prRequestId :: string
  prMfe :: string
  prStream :: bool
  prStartedAt :: int

record payload =
  pyUpdatedAt :: int
  pyInflight :: "payload_row list"

datatype writer = Writer_idle | Writing_temp nat payload | Renaming nat payload

record 'r execution =
  exRequestId :: string
  exOutcome :: "'r option option"

text \<open>
  \<open>exOutcome\<close> is \<open>None\<close> while the execution runs, \<open>Some (Some v)\<close> for a result and \<open>Some None\<close> for a failure. In the
  code \<open>writeInFlight\<close> is \<open>rgWriter \<noteq> Writer_idle\<close>.
\<close>

record 'r registry =
  rgInflight :: "(string \<times> inflight_entry) list"
  rgCompleted :: "(string \<times> 'r completed_entry) list"
  rgOrphans :: "payload_row list"
  rgWriteSeq :: nat
  rgWriter :: writer
  rgWritePending :: bool
  rgWrites :: "(nat \<times> payload) list"
  rgFile :: "payload option"
  rgExecs :: "'r execution list"

section \<open>The file\<close>

text \<open>A file that is missing, blank, no JSON or without a list is read as no request at all (\<open>None\<close>).\<close>

definition readInflightFile :: "payload option \<Rightarrow> payload_row list" where
  "readInflightFile f = (case f of None \<Rightarrow> [] | Some p \<Rightarrow> pyInflight p)"

definition row_of :: "string \<times> inflight_entry \<Rightarrow> payload_row" where
  "row_of e = \<lparr>prRequestId = fst e, prMfe = ifMfe (snd e), prStream = ifStream (snd e), prStartedAt = ifStartedAt (snd e)\<rparr>"

definition persist :: "int \<Rightarrow> 'r registry \<Rightarrow> 'r registry" where
  "persist now rg =
     (if rgWriter rg \<noteq> Writer_idle then rg\<lparr>rgWritePending := True\<rparr>
      else
        let payload = \<lparr>pyUpdatedAt = now, pyInflight = map row_of (rgInflight rg)\<rparr>;
            k = rgWriteSeq rg + 1
        in rg\<lparr>rgWritePending := False, rgWriteSeq := k, rgWriter := Writing_temp k payload,
              rgWrites := (k, payload) # rgWrites rg\<rparr>)"

text \<open>\<^verbatim>\<open>finish\<close>, and the callbacks of \<^verbatim>\<open>writeFile\<close> and \<^verbatim>\<open>rename\<close>; a failed rename is not told from a good one.\<close>

definition write_finish :: "int \<Rightarrow> 'r registry \<Rightarrow> 'r registry" where
  "write_finish now rg =
     (let rg1 = rg\<lparr>rgWriter := Writer_idle\<rparr> in if rgWritePending rg then persist now rg1 else rg1)"

definition temp_written :: "int \<Rightarrow> bool \<Rightarrow> 'r registry \<Rightarrow> 'r registry" where
  "temp_written now ok rg =
     (case rgWriter rg of
        Writing_temp k p \<Rightarrow> if ok then rg\<lparr>rgWriter := Renaming k p\<rparr> else write_finish now rg
      | _ \<Rightarrow> rg)"

definition renamed :: "int \<Rightarrow> bool \<Rightarrow> 'r registry \<Rightarrow> 'r registry" where
  "renamed now ok rg =
     (case rgWriter rg of
        Renaming k p \<Rightarrow> write_finish now (if ok then rg\<lparr>rgFile := Some p\<rparr> else rg)
      | _ \<Rightarrow> rg)"

definition registry_init :: "int \<Rightarrow> payload option \<Rightarrow> 'r registry" where
  "registry_init now f = persist now \<lparr>rgInflight = [], rgCompleted = [], rgOrphans = readInflightFile f, rgWriteSeq = 0,
     rgWriter = Writer_idle, rgWritePending = False, rgWrites = [], rgFile = f, rgExecs = []\<rparr>"

section \<open>Requests\<close>

definition evictCompleted :: "int \<Rightarrow> int \<Rightarrow> 'r registry \<Rightarrow> 'r registry" where
  "evictCompleted ttl now rg = rg\<lparr>rgCompleted := drop_expired cpFinishedAt (now - ttl) (rgCompleted rg)\<rparr>"

datatype 'r lookup_answer = Lookup_inflight | Lookup_completed 'r | Lookup_new

definition lookup_request :: "int \<Rightarrow> int \<Rightarrow> string \<Rightarrow> 'r registry \<Rightarrow> 'r lookup_answer \<times> 'r registry" where
  "lookup_request ttl now r rg =
     (let rg1 = evictCompleted ttl now rg
      in ((case map_of (rgInflight rg1) r of
             Some _ \<Rightarrow> Lookup_inflight
           | None \<Rightarrow> (case map_of (rgCompleted rg1) r of Some e \<Rightarrow> Lookup_completed (cpResult e) | None \<Rightarrow> Lookup_new)), rg1))"

record registry_view =
  rsInflight :: "payload_row list"
  rsCompletedCount :: nat
  rsOrphaned :: "payload_row list"

definition registry_snapshot :: "int \<Rightarrow> int \<Rightarrow> 'r registry \<Rightarrow> registry_view \<times> 'r registry" where
  "registry_snapshot ttl now rg =
     (let rg1 = evictCompleted ttl now rg
      in (\<lparr>rsInflight = map row_of (rgInflight rg1), rsCompletedCount = length (rgCompleted rg1),
           rsOrphaned = rgOrphans rg1\<rparr>, rg1))"

text \<open>The answer of \<^verbatim>\<open>run\<close>: the stored result, the promise of the execution in flight, or a new execution.\<close>

datatype 'r run_answer = Replay_completed 'r | Replay_inflight nat | Started nat

definition run_request :: "int \<Rightarrow> int \<Rightarrow> string \<Rightarrow> string \<Rightarrow> bool \<Rightarrow> 'r registry \<Rightarrow> 'r run_answer \<times> 'r registry" where
  "run_request ttl now r m stream rg =
     (let rg1 = evictCompleted ttl now rg
      in case map_of (rgCompleted rg1) r of
           Some e \<Rightarrow> (Replay_completed (cpResult e), rg1)
         | None \<Rightarrow>
             (case map_of (rgInflight rg1) r of
                Some e \<Rightarrow> (Replay_inflight (ifExec e), rg1)
              | None \<Rightarrow>
                  let k = length (rgExecs rg1);
                      entry = \<lparr>ifMfe = m, ifStream = stream, ifStartedAt = now, ifExec = k\<rparr>
                  in (Started k,
                      persist now (rg1\<lparr>rgExecs := rgExecs rg1 @ [\<lparr>exRequestId = r, exOutcome = None\<rparr>],
                        rgInflight := AList.update r entry (rgInflight rg1)\<rparr>))))"

text \<open>\<^verbatim>\<open>_settle\<close> after a result; after a failure the id is forgotten, so that it can be tried again.\<close>

definition execution_done :: "int \<Rightarrow> nat \<Rightarrow> 'r \<Rightarrow> 'r registry \<Rightarrow> 'r registry" where
  "execution_done now k v rg =
     (let r = exRequestId (rgExecs rg ! k)
      in persist now (rg\<lparr>rgExecs := (rgExecs rg)[k := (rgExecs rg ! k)\<lparr>exOutcome := Some (Some v)\<rparr>],
           rgInflight := AList.delete r (rgInflight rg),
           rgCompleted := AList.update r \<lparr>cpFinishedAt = now, cpResult = v\<rparr> (rgCompleted rg)\<rparr>))"

definition execution_failed :: "int \<Rightarrow> nat \<Rightarrow> 'r registry \<Rightarrow> 'r registry" where
  "execution_failed now k rg =
     (let r = exRequestId (rgExecs rg ! k)
      in persist now (rg\<lparr>rgExecs := (rgExecs rg)[k := (rgExecs rg ! k)\<lparr>exOutcome := Some None\<rparr>],
           rgInflight := AList.delete r (rgInflight rg)\<rparr>))"

section \<open>The event loop\<close>

datatype 'r rg_event =
    Rg_run string string bool
  | Rg_lookup string
  | Rg_snapshot
  | Rg_done nat 'r
  | Rg_failed nat
  | Rg_temp_written bool
  | Rg_renamed bool

fun rg_enabled :: "'r registry \<Rightarrow> 'r rg_event \<Rightarrow> bool" where
  "rg_enabled rg (Rg_done k v) \<longleftrightarrow> k < length (rgExecs rg) \<and> exOutcome (rgExecs rg ! k) = None"
| "rg_enabled rg (Rg_failed k) \<longleftrightarrow> k < length (rgExecs rg) \<and> exOutcome (rgExecs rg ! k) = None"
| "rg_enabled rg (Rg_temp_written ok) \<longleftrightarrow> (case rgWriter rg of Writing_temp k p \<Rightarrow> True | _ \<Rightarrow> False)"
| "rg_enabled rg (Rg_renamed ok) \<longleftrightarrow> (case rgWriter rg of Renaming k p \<Rightarrow> True | _ \<Rightarrow> False)"
| "rg_enabled rg e \<longleftrightarrow> True"

fun rg_step :: "int \<Rightarrow> int \<Rightarrow> 'r rg_event \<Rightarrow> 'r registry \<Rightarrow> 'r registry" where
  "rg_step ttl now (Rg_run r m stream) rg = snd (run_request ttl now r m stream rg)"
| "rg_step ttl now (Rg_lookup r) rg = snd (lookup_request ttl now r rg)"
| "rg_step ttl now Rg_snapshot rg = snd (registry_snapshot ttl now rg)"
| "rg_step ttl now (Rg_done k v) rg = execution_done now k v rg"
| "rg_step ttl now (Rg_failed k) rg = execution_failed now k rg"
| "rg_step ttl now (Rg_temp_written ok) rg = temp_written now ok rg"
| "rg_step ttl now (Rg_renamed ok) rg = renamed now ok rg"

text \<open>
  The states some history of admissible events leads to, with the time of its latest event. The clock does not run
  backwards; \<open>f\<close> is the file the process before left.
\<close>

inductive rg_reach :: "('r rg_event \<Rightarrow> bool) \<Rightarrow> int \<Rightarrow> payload option \<Rightarrow> int \<Rightarrow> 'r registry \<Rightarrow> bool" for adm ttl f where
  init: "rg_reach adm ttl f now (registry_init now f)"
| step: "rg_reach adm ttl f t rg \<Longrightarrow> t \<le> now \<Longrightarrow> rg_enabled rg e \<Longrightarrow> adm e \<Longrightarrow>
    rg_reach adm ttl f now (rg_step ttl now e rg)"

definition any_rg_event :: "'r rg_event \<Rightarrow> bool" where
  "any_rg_event e \<longleftrightarrow> True"

fun writes_succeed :: "'r rg_event \<Rightarrow> bool" where
  "writes_succeed (Rg_temp_written ok) \<longleftrightarrow> ok"
| "writes_succeed (Rg_renamed ok) \<longleftrightarrow> ok"
| "writes_succeed e \<longleftrightarrow> True"

section \<open>The invariant\<close>

definition open_ids :: "'r execution list \<Rightarrow> string list" where
  "open_ids xs = map exRequestId (filter (\<lambda>x. exOutcome x = None) xs)"

text \<open>One execution per request in flight, and none for a request that has a stored result.\<close>

definition rg_ids :: "'r registry \<Rightarrow> bool" where
  "rg_ids rg \<longleftrightarrow>
     distinct (map fst (rgInflight rg) @ map fst (rgCompleted rg)) \<and>
     mset (map fst (rgInflight rg)) = mset (open_ids (rgExecs rg)) \<and>
     (\<forall>(r, e) \<in> set (rgInflight rg). ifExec e < length (rgExecs rg) \<and>
        rgExecs rg ! ifExec e = \<lparr>exRequestId = r, exOutcome = None\<rparr>)"

definition rg_sorted :: "int \<Rightarrow> 'r registry \<Rightarrow> bool" where
  "rg_sorted now rg \<longleftrightarrow> sorted (map (cpFinishedAt \<circ> snd) (rgCompleted rg)) \<and>
     (\<forall>e \<in> snd ` set (rgCompleted rg). cpFinishedAt e \<le> now)"

text \<open>Writes carry rising numbers, and the newest carries what is in flight now unless another is due.\<close>

definition rg_written :: "'r registry \<Rightarrow> bool" where
  "rg_written rg \<longleftrightarrow>
     rgWrites rg \<noteq> [] \<and> sorted_wrt (>) (map fst (rgWrites rg)) \<and> fst (hd (rgWrites rg)) = rgWriteSeq rg \<and>
     (rgWritePending rg \<or> pyInflight (snd (hd (rgWrites rg))) = map row_of (rgInflight rg)) \<and>
     (case rgWriter rg of Writer_idle \<Rightarrow> \<not> rgWritePending rg | Writing_temp k p \<Rightarrow> hd (rgWrites rg) = (k, p)
      | Renaming k p \<Rightarrow> hd (rgWrites rg) = (k, p))"

definition rg_inv :: "int \<Rightarrow> 'r registry \<Rightarrow> bool" where
  "rg_inv now rg \<longleftrightarrow> rg_ids rg \<and> rg_sorted now rg \<and> rg_written rg"

lemma persist_fields [simp]:
  "rgInflight (persist now rg) = rgInflight rg" "rgCompleted (persist now rg) = rgCompleted rg"
  "rgExecs (persist now rg) = rgExecs rg" "rgOrphans (persist now rg) = rgOrphans rg" "rgFile (persist now rg) = rgFile rg"
  by (simp_all add: persist_def Let_def)

lemma write_finish_fields [simp]:
  "rgInflight (write_finish now rg) = rgInflight rg" "rgCompleted (write_finish now rg) = rgCompleted rg"
  "rgExecs (write_finish now rg) = rgExecs rg" "rgFile (write_finish now rg) = rgFile rg"
  by (simp_all add: write_finish_def Let_def)

text \<open>Asking for a write makes the newest one right, or leaves one due.\<close>

lemma persist_written:
  assumes "rgWrites rg \<noteq> []" and "sorted_wrt (>) (map fst (rgWrites rg))" and "fst (hd (rgWrites rg)) = rgWriteSeq rg"
    and "case rgWriter rg of Writer_idle \<Rightarrow> True | Writing_temp k p \<Rightarrow> hd (rgWrites rg) = (k, p)
      | Renaming k p \<Rightarrow> hd (rgWrites rg) = (k, p)"
  shows "rg_written (persist now rg)"
  using assms by (cases "rgWrites rg") (auto simp: persist_def Let_def rg_written_def less_Suc_eq split: writer.splits)

lemma persist_again:
  assumes "rg_written rg" and "rgWrites rg' = rgWrites rg" "rgWriteSeq rg' = rgWriteSeq rg" "rgWriter rg' = rgWriter rg"
  shows "rg_written (persist now rg')"
  using assms by (intro persist_written) (auto simp: rg_written_def split: writer.splits)

lemma write_finish_written:
  assumes "rg_written rg"
  shows "rg_written (write_finish now rg)"
proof (cases "rgWritePending rg")
  case True
  with assms show ?thesis unfolding write_finish_def Let_def
    by (simp) (rule persist_written, auto simp: rg_written_def)
qed (use assms in \<open>auto simp: write_finish_def rg_written_def split: writer.splits\<close>)

section \<open>Every event keeps the invariant\<close>

lemma evict_suffix:
  obtains xs where "rgCompleted rg = xs @ rgCompleted (evictCompleted ttl now rg)"
  using drop_expired_suffix [of "rgCompleted rg"] by (auto simp: evictCompleted_def)

lemma evict_fields [simp]:
  "rgInflight (evictCompleted ttl now rg) = rgInflight rg" "rgExecs (evictCompleted ttl now rg) = rgExecs rg"
  by (simp_all add: evictCompleted_def)

lemma evict_written [simp]: "rg_written (evictCompleted ttl now rg) = rg_written rg"
  by (simp add: evictCompleted_def rg_written_def split: writer.split)

lemma evict_ids: "rg_ids rg \<Longrightarrow> rg_ids (evictCompleted ttl now rg)"
  by (rule evict_suffix [of rg ttl now]) (auto simp: rg_ids_def)

lemma evict_sorted: "rg_sorted t rg \<Longrightarrow> rg_sorted t (evictCompleted ttl now rg)"
  by (rule evict_suffix [of rg ttl now]) (auto simp: rg_sorted_def sorted_append)

lemma evict_inv: "rg_inv t rg \<Longrightarrow> rg_inv t (evictCompleted ttl now rg)"
  by (simp add: rg_inv_def evict_ids evict_sorted)

lemma evict_keeps:
  assumes "map_of al k = Some v" and "cutoff \<le> time v" and "distinct (map fst al)"
  shows "map_of (drop_expired time cutoff al) k = Some v"
  using assms by (induction al) (auto simp: drop_expired_def split: if_splits)

lemma evict_sub: "distinct (map fst al) \<Longrightarrow> map_of (drop_expired time cutoff al) k = Some v \<Longrightarrow> map_of al k = Some v"
  by (metis distinct_append drop_expired_suffix map_append map_of_SomeD map_of_eq_Some_iff Un_iff set_append)

lemma run_inv:
  assumes inv: "rg_inv t rg" and now: "t \<le> now"
  shows "rg_inv now (snd (run_request ttl now r m stream rg))"
proof -
  let ?rg = "evictCompleted ttl now rg"
  have ev: "rg_inv now ?rg"
    using evict_inv [OF inv] now by (force simp: rg_inv_def rg_sorted_def)
  show ?thesis
  proof (cases "map_of (rgCompleted ?rg) r = None \<and> map_of (rgInflight ?rg) r = None")
    case False
    with ev show ?thesis by (auto simp: run_request_def Let_def split: option.split)
  next
    case True
    let ?e = "\<lparr>ifMfe = m, ifStream = stream, ifStartedAt = now, ifExec = length (rgExecs rg)\<rparr>"
    let ?new = "?rg\<lparr>rgExecs := rgExecs rg @ [\<lparr>exRequestId = r, exOutcome = None\<rparr>],
      rgInflight := AList.update r ?e (rgInflight rg)\<rparr>"
    have u: "AList.update r ?e (rgInflight rg) = rgInflight rg @ [(r, ?e)]"
      using True by (intro update_fresh) (simp add: map_of_eq_None_iff)
    have "rg_ids ?new" using True ev
      by (auto simp: u rg_inv_def rg_ids_def open_ids_def nth_append map_of_eq_None_iff dest!: bspec)
    moreover have "rg_sorted now ?new" using ev by (simp add: rg_inv_def rg_sorted_def)
    moreover have "rg_written (persist now ?new)"
      using ev by (intro persist_again [of ?rg]) (simp_all add: rg_inv_def)
    moreover have "snd (run_request ttl now r m stream rg) = persist now ?new"
      using True by (simp add: run_request_def Let_def)
    ultimately show ?thesis by (simp add: rg_inv_def rg_ids_def rg_sorted_def)
  qed
qed

lemma open_exec:
  assumes ids: "rg_ids rg" and k: "k < length (rgExecs rg)" "exOutcome (rgExecs rg ! k) = None"
  obtains xs e ys where "rgInflight rg = xs @ (exRequestId (rgExecs rg ! k), e) # ys"
    and "AList.delete (exRequestId (rgExecs rg ! k)) (rgInflight rg) = xs @ ys"
    and "exRequestId (rgExecs rg ! k) \<notin> fst ` set (rgCompleted rg)"
proof -
  let ?r = "exRequestId (rgExecs rg ! k)"
  have "rgExecs rg ! k \<in> set (rgExecs rg)" using k(1) by (rule nth_mem)
  then have "?r \<in> set (open_ids (rgExecs rg))" using k(2) by (auto simp: open_ids_def)
  then have "?r \<in> set (map fst (rgInflight rg))" using ids by (metis rg_ids_def set_mset_mset)
  then obtain e xs ys where i: "rgInflight rg = xs @ (?r, e) # ys" by (auto dest!: split_list)
  moreover have "AList.delete ?r (rgInflight rg) = xs @ ys"
    unfolding i using ids i by (intro delete_middle) (auto simp: rg_ids_def)
  moreover have "?r \<notin> fst ` set (rgCompleted rg)" using ids i by (auto simp: rg_ids_def)
  ultimately show thesis by (rule that)
qed

lemma end_ids:
  assumes ids: "rg_ids rg" and k: "k < length (rgExecs rg)" "exOutcome (rgExecs rg ! k) = None"
  defines "r \<equiv> exRequestId (rgExecs rg ! k)"
  shows "rg_ids (rg\<lparr>rgExecs := (rgExecs rg)[k := (rgExecs rg ! k)\<lparr>exOutcome := Some out\<rparr>],
    rgInflight := AList.delete r (rgInflight rg)\<rparr>)"
proof -
  from open_exec [OF ids k, folded r_def] obtain xs e ys where i: "rgInflight rg = xs @ (r, e) # ys"
    and d: "AList.delete r (rgInflight rg) = xs @ ys" by metis
  have m: "mset (open_ids (rgExecs rg)) = add_mset r (mset (open_ids ((rgExecs rg)[k := (rgExecs rg ! k)\<lparr>exOutcome := Some out\<rparr>])))"
    unfolding open_ids_def r_def by (rule filter_update_leave) (use k in auto)
  have "ifExec e' \<noteq> k" if "(r', e') \<in> set (xs @ ys)" for r' e'
  proof -
    have "r' \<noteq> r" using ids i that by (auto simp: rg_ids_def image_iff)
    moreover have "(r', e') \<in> set (rgInflight rg)" using i that by auto
    then have "exRequestId (rgExecs rg ! ifExec e') = r'" using ids unfolding rg_ids_def by fastforce
    ultimately show ?thesis by (auto simp: r_def)
  qed
  moreover have "\<forall>(r', e') \<in> set (xs @ ys). ifExec e' < length (rgExecs rg) \<and>
      rgExecs rg ! ifExec e' = \<lparr>exRequestId = r', exOutcome = None\<rparr>"
    using ids i by (auto simp: rg_ids_def)
  ultimately have "\<forall>(r', e') \<in> set (xs @ ys). ifExec e' < length ((rgExecs rg)[k := y]) \<and>
      (rgExecs rg)[k := y] ! ifExec e' = \<lparr>exRequestId = r', exOutcome = None\<rparr>" for y
    by fastforce
  moreover have "distinct (map fst (xs @ ys) @ map fst (rgCompleted rg))" using ids i by (auto simp: rg_ids_def)
  ultimately show ?thesis using ids m i unfolding d rg_ids_def by (simp del: distinct_append map_append set_append)
qed

lemma done_inv:
  assumes inv: "rg_inv t rg" and now: "t \<le> now" and k: "k < length (rgExecs rg)" "exOutcome (rgExecs rg ! k) = None"
  shows "rg_inv now (execution_done now k v rg)" and "rg_inv now (execution_failed now k rg)"
proof -
  let ?r = "exRequestId (rgExecs rg ! k)"
  let ?c = "\<lparr>cpFinishedAt = now, cpResult = v\<rparr>"
  have ids: "rg_ids rg" and srt: "rg_sorted t rg" and wr: "rg_written rg" using inv by (simp_all add: rg_inv_def)
  have srt': "rg_sorted now rg" using srt now by (force simp: rg_sorted_def)
  from open_exec [OF ids k] have fresh: "?r \<notin> fst ` set (rgCompleted rg)" by metis
  then have u: "AList.update ?r ?c (rgCompleted rg) = rgCompleted rg @ [(?r, ?c)]" by (rule update_fresh)
  have "?r \<notin> fst ` set (AList.delete ?r (rgInflight rg))" by (simp add: AList.delete_eq image_iff)
  with end_ids [OF ids k, of "Some v"] fresh
  have "rg_ids (execution_done now k v rg)"
    by (auto simp: execution_done_def Let_def rg_ids_def u)
  moreover have "rg_sorted now (execution_done now k v rg)"
    using srt' by (auto simp: execution_done_def Let_def rg_sorted_def u sorted_append)
  moreover have "rg_written (execution_done now k v rg)"
    unfolding execution_done_def Let_def using wr by (rule persist_again) simp_all
  ultimately show "rg_inv now (execution_done now k v rg)" by (simp add: rg_inv_def)
  have "rg_ids (execution_failed now k rg)"
    using end_ids [OF ids k, of None] by (simp add: execution_failed_def Let_def rg_ids_def)
  moreover have "rg_sorted now (execution_failed now k rg)"
    using srt' by (simp add: execution_failed_def Let_def rg_sorted_def)
  moreover have "rg_written (execution_failed now k rg)"
    unfolding execution_failed_def Let_def using wr by (rule persist_again) simp_all
  ultimately show "rg_inv now (execution_failed now k rg)" by (simp add: rg_inv_def)
qed

lemma writer_inv:
  assumes inv: "rg_inv t rg" and now: "t \<le> now"
  shows "rg_inv now (temp_written w ok rg)" and "rg_inv now (renamed w ok rg)"
proof -
  have srt: "rg_sorted now rg" using inv now by (force simp: rg_inv_def rg_sorted_def)
  show "rg_inv now (temp_written w ok rg)"
    using inv srt by (auto simp: temp_written_def rg_inv_def rg_ids_def rg_sorted_def write_finish_written
        split: writer.split) (auto simp: rg_written_def)
  have "rg_written (write_finish w (rg\<lparr>rgFile := x\<rparr>))" for x
    using inv by (intro write_finish_written) (simp add: rg_inv_def rg_written_def split: writer.splits)
  then show "rg_inv now (renamed w ok rg)"
    using inv srt by (auto simp: renamed_def rg_inv_def rg_ids_def rg_sorted_def write_finish_written split: writer.split)
qed

lemma rg_step_inv:
  assumes inv: "rg_inv t rg" and now: "t \<le> now" and en: "rg_enabled rg e"
  shows "rg_inv now (rg_step ttl now e rg)"
proof (cases e)
  case (Rg_lookup r)
  have "rg_inv now (evictCompleted ttl now rg)"
    using evict_inv [OF inv] now by (force simp: rg_inv_def rg_sorted_def)
  with Rg_lookup show ?thesis by (simp add: lookup_request_def Let_def)
next
  case Rg_snapshot
  have "rg_inv now (evictCompleted ttl now rg)"
    using evict_inv [OF inv] now by (force simp: rg_inv_def rg_sorted_def)
  with Rg_snapshot show ?thesis by (simp add: registry_snapshot_def Let_def)
qed (use run_inv [OF inv now] done_inv [OF inv now] writer_inv [OF inv now] en in auto)

lemma reach_rg_inv: "rg_reach adm ttl f now rg \<Longrightarrow> rg_inv now rg"
proof (induction rule: rg_reach.induct)
  case (init now)
  show ?case by (simp add: registry_init_def persist_def Let_def rg_inv_def rg_ids_def rg_sorted_def rg_written_def open_ids_def)
qed (rule rg_step_inv)

section \<open>The theorems\<close>

definition demo_rg :: "string registry" where
  "demo_rg = rg_step 300000 2000 (Rg_run ''r1'' ''qa'' False) (registry_init 1000 None)"

definition demo_rg_quiet :: "string registry" where
  "demo_rg_quiet = foldl (\<lambda>rg e. rg_step 300000 2000 e rg) demo_rg
     [Rg_temp_written True, Rg_renamed True, Rg_temp_written True, Rg_renamed True]"

lemma demo_rg_reach: "rg_reach adm 300000 None 2000 demo_rg" if "adm (Rg_run ''r1'' ''qa'' False)"
  unfolding demo_rg_def by (rule rg_reach.step [OF rg_reach.init]) (use that in simp_all)

lemma demo_rg_open: "rg_enabled demo_rg (Rg_done 0 ''yes'')"
  by code_simp

lemma demo_rg_quiet_reach: "rg_reach writes_succeed 300000 None 2000 demo_rg_quiet"
proof -
  have "rg_enabled demo_rg (Rg_temp_written True)" by code_simp
  from rg_reach.step [OF demo_rg_reach order_refl this] have 1: "rg_reach writes_succeed 300000 None 2000 (rg_step 300000 2000 (Rg_temp_written True) demo_rg)" by simp
  have "rg_enabled (rg_step 300000 2000 (Rg_temp_written True) demo_rg) (Rg_renamed True)" by code_simp
  from rg_reach.step [OF 1 order_refl this] have 2: "rg_reach writes_succeed 300000 None 2000
    (rg_step 300000 2000 (Rg_renamed True) (rg_step 300000 2000 (Rg_temp_written True) demo_rg))" by simp
  have "rg_enabled (rg_step 300000 2000 (Rg_renamed True) (rg_step 300000 2000 (Rg_temp_written True) demo_rg)) (Rg_temp_written True)" by code_simp
  from rg_reach.step [OF 2 order_refl this] have 3: "rg_reach writes_succeed 300000 None 2000
    (rg_step 300000 2000 (Rg_temp_written True) (rg_step 300000 2000 (Rg_renamed True) (rg_step 300000 2000 (Rg_temp_written True) demo_rg)))" by simp
  have "rg_enabled (rg_step 300000 2000 (Rg_temp_written True) (rg_step 300000 2000 (Rg_renamed True)
    (rg_step 300000 2000 (Rg_temp_written True) demo_rg))) (Rg_renamed True)" by code_simp
  from rg_reach.step [OF 3 order_refl this] show ?thesis by (simp add: demo_rg_quiet_def del: rg_step.simps)
qed

lemma demo_rg_quiet_idle: "rgWriter demo_rg_quiet = Writer_idle"
  by code_simp

text \<open>A request id is executed at most once at a time: the open executions have distinct ids, and none of them has a
  stored result that \<^verbatim>\<open>run\<close> would replay.
\<close>

theorem request_runs_once_at_a_time:
  assumes "rg_reach any_rg_event ttl f now rg"
  shows "distinct (open_ids (rgExecs rg)) \<and> set (open_ids (rgExecs rg)) \<inter> fst ` set (rgCompleted rg) = {}"
proof -
  have ids: "rg_ids rg" using reach_rg_inv [OF assms] by (simp add: rg_inv_def)
  have "distinct (open_ids (rgExecs rg)) = distinct (map fst (rgInflight rg))"
    using ids by (intro mset_eq_imp_distinct_iff) (simp add: rg_ids_def)
  moreover have "set (open_ids (rgExecs rg)) = fst ` set (rgInflight rg)"
    using ids by (metis image_set rg_ids_def set_mset_mset)
  ultimately show ?thesis using ids by (simp add: rg_ids_def)
qed

theorem request_runs_once_at_a_time_witness: "distinct (open_ids (rgExecs demo_rg))"
  using request_runs_once_at_a_time [OF demo_rg_reach] by (simp add: any_rg_event_def)

text \<open>C28: The window of replay is exact: a stored result is replayed if and only if it finished within the time to live,
  an execution in flight is joined, and everything else starts one new execution.
\<close>

theorem replay_window_is_exact:
  assumes "rg_reach any_rg_event ttl f t rg" and "t \<le> now"
  shows "fst (run_request ttl now r m stream rg) =
      (case map_of (rgInflight rg) r of
         Some e \<Rightarrow> Replay_inflight (ifExec e)
       | None \<Rightarrow> (case map_of (rgCompleted rg) r of
           Some e \<Rightarrow> if now - ttl \<le> cpFinishedAt e then Replay_completed (cpResult e) else Started (length (rgExecs rg))
         | None \<Rightarrow> Started (length (rgExecs rg))))"
proof -
  have inv: "rg_inv t rg" using assms(1) by (rule reach_rg_inv)
  have d: "distinct (map fst (rgCompleted rg))" using inv by (simp add: rg_inv_def rg_ids_def)
  have "drop_expired cpFinishedAt (now - ttl) (rgCompleted rg) = filter (\<lambda>(k, v). now - ttl \<le> cpFinishedAt v) (rgCompleted rg)"
    using inv by (intro drop_expired_filter) (simp add: rg_inv_def rg_sorted_def)
  moreover have "map_of (filter (\<lambda>(k, v). now - ttl \<le> cpFinishedAt v) (rgCompleted rg)) r =
      (case map_of (rgCompleted rg) r of Some e \<Rightarrow> if now - ttl \<le> cpFinishedAt e then Some e else None | None \<Rightarrow> None)"
    using map_of_filter_value [OF d] .
  moreover have "map_of (rgInflight rg) r \<noteq> None \<Longrightarrow> map_of (rgCompleted rg) r = None"
    using inv by (auto simp: rg_inv_def rg_ids_def map_of_eq_None_iff dest: map_of_SomeD)
  ultimately show ?thesis
    by (auto simp: run_request_def Let_def evictCompleted_def split: option.split)
qed

theorem replay_window_is_exact_witness:
  "fst (run_request 300000 5000 ''r1'' ''qa'' True demo_rg) = Replay_inflight 0"
proof -
  have "map_option ifExec (map_of (rgInflight demo_rg) ''r1'') = Some 0" by code_simp
  then show ?thesis
    using replay_window_is_exact [OF demo_rg_reach, of 5000 "''r1''" "''qa''" True]
    by (auto simp: any_rg_event_def)
qed

lemma failed_is_started:
  assumes ids: "rg_ids rg" and k: "k < length (rgExecs rg)" "exOutcome (rgExecs rg ! k) = None"
  shows "fst (run_request ttl now (exRequestId (rgExecs rg ! k)) m stream (execution_failed t k rg)) = Started (length (rgExecs rg))"
proof -
  let ?r = "exRequestId (rgExecs rg ! k)"
  from open_exec [OF ids k] have "?r \<notin> fst ` set (rgCompleted rg)" by metis
  then have "map_of (drop_expired cpFinishedAt (now - ttl) (rgCompleted rg)) ?r = None"
    using drop_expired_suffix [of "rgCompleted rg" cpFinishedAt "now - ttl"]
    by (metis (no_types, lifting) UnI2 image_Un map_of_eq_None_iff set_append)
  then show ?thesis by (simp add: run_request_def evictCompleted_def execution_failed_def Let_def)
qed

text \<open>C19: After an execution has answered, its id is replayed with that answer for the whole time to live; after one has
  failed, the id is free and the next request with it is executed again.
\<close>

theorem answer_is_kept_failure_is_not:
  assumes "rg_reach any_rg_event ttl f t0 rg" and "t0 \<le> t" and "t \<le> now" and "now \<le> t + ttl"
    and "rg_enabled rg (Rg_done k v)"
  shows "fst (run_request ttl now (exRequestId (rgExecs rg ! k)) m stream (execution_done t k v rg)) = Replay_completed v \<and>
    fst (run_request ttl now (exRequestId (rgExecs rg ! k)) m stream (execution_failed t k rg)) = Started (length (rgExecs rg))"
proof -
  let ?r = "exRequestId (rgExecs rg ! k)"
  have inv: "rg_inv t0 rg" using assms(1) by (rule reach_rg_inv)
  have k: "k < length (rgExecs rg)" "exOutcome (rgExecs rg ! k) = None" using assms(5) by auto
  have "rg_inv t (execution_done t k v rg)" using done_inv(1) [OF inv assms(2) k] .
  then have d: "distinct (map fst (rgCompleted (execution_done t k v rg)))" by (simp add: rg_inv_def rg_ids_def)
  have c: "map_of (rgCompleted (execution_done t k v rg)) ?r = Some \<lparr>cpFinishedAt = t, cpResult = v\<rparr>"
    by (simp add: execution_done_def Let_def)
  have "map_of (drop_expired cpFinishedAt (now - ttl) (rgCompleted (execution_done t k v rg))) ?r =
      Some \<lparr>cpFinishedAt = t, cpResult = v\<rparr>"
    by (rule evict_keeps [OF c _ d]) (use assms(4) in simp)
  moreover have "rg_ids rg" using inv by (simp add: rg_inv_def)
  note failed_is_started [OF this k]
  ultimately show ?thesis by (simp add: run_request_def evictCompleted_def Let_def)
qed

theorem answer_is_kept_failure_is_not_witness:
  "fst (run_request 300000 9000 (exRequestId (rgExecs demo_rg ! 0)) ''qa'' False (execution_done 4000 0 ''yes'' demo_rg)) =
     Replay_completed ''yes''"
  using answer_is_kept_failure_is_not [OF demo_rg_reach _ _ _ demo_rg_open] by (simp add: any_rg_event_def)

lemma writer_file:
  assumes "rg_reach writes_succeed ttl f now rg"
  shows "rgWriter rg = Writer_idle \<longrightarrow> rgFile rg = Some (snd (hd (rgWrites rg)))"
  using assms
proof (induction rule: rg_reach.induct)
  case (init now)
  show ?case by (simp add: registry_init_def persist_def Let_def)
next
  case (step t rg now e)
  have "rg_written rg" using reach_rg_inv [OF step.hyps(1)] by (simp add: rg_inv_def)
  with step.IH step.hyps(4) show ?case
    by (cases e) (auto simp: run_request_def lookup_request_def registry_snapshot_def execution_done_def
      execution_failed_def evictCompleted_def temp_written_def renamed_def write_finish_def persist_def Let_def rg_written_def
      split: option.split writer.split)
qed

text \<open>C15: The file survives the process: when the writer is quiet and its writes have succeeded, a process that starts
  from the file reads exactly the requests that were in flight; and no two writes used the same temporary name.
\<close>

theorem quiet_file_names_the_open_requests:
  assumes "rg_reach writes_succeed ttl f now rg" and "rgWriter rg = Writer_idle"
  shows "rgOrphans (registry_init later (rgFile rg)) = map row_of (rgInflight rg) \<and> distinct (map fst (rgWrites rg))"
proof -
  have w: "rg_written rg" using reach_rg_inv [OF assms(1)] by (simp add: rg_inv_def)
  have "rgFile rg = Some (snd (hd (rgWrites rg)))" using writer_file [OF assms(1)] assms(2) by simp
  moreover have "distinct (map fst (rgWrites rg))"
    using w by (intro falling_distinct) (simp add: rg_written_def)
  ultimately show ?thesis
    using w assms(2) by (auto simp: registry_init_def readInflightFile_def rg_written_def)
qed

theorem quiet_file_names_the_open_requests_witness:
  "rgOrphans (registry_init 9000 (rgFile demo_rg_quiet)) = map row_of (rgInflight demo_rg_quiet)"
  using quiet_file_names_the_open_requests [OF demo_rg_quiet_reach demo_rg_quiet_idle] by blast

end
