(* ===== verification/Worker_Pool.thy ===== *)
theory Worker_Pool
  imports Js_Collections
begin

text \<open>
  \<^verbatim>\<open>api-server/ipc.js\<close>: the pool through which the API server reaches the inference workers. A worker is \<open>Starting\<close>,
  \<open>Ready\<close>, \<open>Busy\<close> or \<open>Crashed\<close>; a request takes a ready worker and holds it until its promise settles; a worker that
  crashed is probed with growing delays. A request (the closures of \<^verbatim>\<open>_runRequest\<close> and \<^verbatim>\<open>runStreamingInference\<close>) is an
  entry of \<open>plRequests\<close>, and \<open>plInFlight\<close> maps a request id to its entry. Whether a worker's socket file exists is an
  argument of the operations that look, \<^verbatim>\<open>JSON.parse\<close> of a line with what the code reads of the object is the
  argument \<open>parse\<close> (\<open>frame_of_line\<close> of \<open>Worker_Wire\<close> is the code's), and chunks are taken to end between characters.
\<close>

section \<open>Data\<close>

record pool_config =
  pcRecoveryMs :: int
  pcRecoveryAttempts :: int
  pcStartupGraceMs :: int
  pcConnectTimeoutMs :: int

datatype worker_status = Starting | Ready | Busy | Crashed

record pool_worker =
  wkStatus :: worker_status
  wkTimer :: "nat option"
  wkAttempt :: int
  wkStartedAt :: int
  wkDevice :: "string option"
  wkDegraded :: bool
  wkReason :: "string option"

record worker_reply =
  rpText :: string
  rpDevice :: string
  rpDegraded :: bool
  rpReason :: "string option"

datatype pool_error =
    No_ready_workers
  | Worker_connect_timeout
  | Worker_socket_error
  | Worker_closed
  | Worker_bad_json
  | Worker_error string
  | Worker_crashed
  | Stream_cancelled

datatype pool_outcome = Answered worker_reply | Failed pool_error

record pool_request =
  rqId :: string
  rqWorker :: nat
  rqStream :: bool
  rqDone :: bool
  rqConnTimer :: bool
  rqDestroyed :: bool
  rqClosed :: bool
  rqBuffer :: string
  rqTokens :: "string list"
  rqOutcome :: "pool_outcome option"

text \<open>
  \<open>plTimers\<close> holds the pending recovery timers with worker and delay, \<open>plProbes\<close> the workers whose probe has not
  answered, and \<open>plThrown\<close> says that a handler threw, which ends the process.
\<close>

record pool =
  plWorkers :: "pool_worker list"
  plInFlight :: "(string \<times> nat) list"
  plRequests :: "pool_request list"
  plTimers :: "(nat \<times> nat \<times> int) list"
  plNextTimer :: nat
  plProbes :: "nat list"
  plThrown :: bool

datatype pool_config_error = Bad_worker_count | Bad_socket_prefix | Bad_connect_timeout | Bad_startup_grace

definition pool_init :: "pool_config \<Rightarrow> int \<Rightarrow> int \<Rightarrow> string \<Rightarrow> pool_config_error + pool" where
  "pool_init c now workerCount prefix =
     (if workerCount \<le> 0 then Inl Bad_worker_count
      else if prefix = [] then Inl Bad_socket_prefix
      else if pcConnectTimeoutMs c \<le> 0 then Inl Bad_connect_timeout
      else if pcStartupGraceMs c \<le> 0 then Inl Bad_startup_grace
      else Inr \<lparr>plWorkers = replicate (nat workerCount) \<lparr>wkStatus = Starting, wkTimer = None, wkAttempt = 0, wkStartedAt = now,
             wkDevice = None, wkDegraded = False, wkReason = None\<rparr>,
           plInFlight = [], plRequests = [], plTimers = [], plNextTimer = 0, plProbes = [], plThrown = False\<rparr>)"

definition on_worker :: "nat \<Rightarrow> (pool_worker \<Rightarrow> pool_worker) \<Rightarrow> pool \<Rightarrow> pool" where
  "on_worker w f p = p\<lparr>plWorkers := (plWorkers p)[w := f (plWorkers p ! w)]\<rparr>"

definition on_request :: "nat \<Rightarrow> (pool_request \<Rightarrow> pool_request) \<Rightarrow> pool \<Rightarrow> pool" where
  "on_request k f p = p\<lparr>plRequests := (plRequests p)[k := f (plRequests p ! k)]\<rparr>"

section \<open>Recovery\<close>

definition clear_timer :: "nat \<Rightarrow> pool \<Rightarrow> pool" where
  "clear_timer w p =
     (case wkTimer (plWorkers p ! w) of None \<Rightarrow> p | Some t \<Rightarrow> p\<lparr>plTimers := AList.delete t (plTimers p)\<rparr>)"

definition scheduleRecoveryProbe :: "pool_config \<Rightarrow> nat \<Rightarrow> pool \<Rightarrow> pool" where
  "scheduleRecoveryProbe c w p =
     (if length (plWorkers p) \<le> w \<or> wkStatus (plWorkers p ! w) \<noteq> Crashed then p
      else if pcRecoveryAttempts c \<le> wkAttempt (plWorkers p ! w) then p
      else
        let n = wkAttempt (plWorkers p ! w) + 1; t = plNextTimer p
        in on_worker w (\<lambda>x. x\<lparr>wkAttempt := n, wkTimer := Some t\<rparr>)
             (p\<lparr>plTimers := plTimers p @ [(t, w, pcRecoveryMs c * n)], plNextTimer := Suc t\<rparr>))"

text \<open>The timer fires: without a socket file the probe answers no at once, otherwise a connection is tried.\<close>

definition probe_timer :: "pool_config \<Rightarrow> (nat \<Rightarrow> bool) \<Rightarrow> nat \<Rightarrow> pool \<Rightarrow> pool" where
  "probe_timer c exists t p =
     (case map_of (plTimers p) t of
        None \<Rightarrow> p
      | Some (w, delay) \<Rightarrow>
          let p1 = p\<lparr>plTimers := AList.delete t (plTimers p)\<rparr>
          in if exists w then p1\<lparr>plProbes := plProbes p1 @ [w]\<rparr> else scheduleRecoveryProbe c w p1)"

definition probe_answer :: "pool_config \<Rightarrow> int \<Rightarrow> nat \<Rightarrow> bool \<Rightarrow> pool \<Rightarrow> pool" where
  "probe_answer c now w alive p =
     (let p1 = p\<lparr>plProbes := remove1 w (plProbes p)\<rparr>
      in if length (plWorkers p1) \<le> w \<or> wkStatus (plWorkers p1 ! w) \<noteq> Crashed then p1
         else if alive then
           on_worker w (\<lambda>x. x\<lparr>wkTimer := None, wkAttempt := 0, wkStartedAt := now, wkStatus := Ready\<rparr>) p1
         else scheduleRecoveryProbe c w p1)"

definition isTransportFailure :: "pool_error \<Rightarrow> bool" where
  "isTransportFailure e \<longleftrightarrow> e = Worker_connect_timeout \<or> e = Worker_socket_error \<or> e = Worker_closed"

definition quarantine :: "pool_config \<Rightarrow> nat \<Rightarrow> pool \<Rightarrow> pool" where
  "quarantine c w p =
     (if length (plWorkers p) \<le> w \<or> wkStatus (plWorkers p ! w) = Crashed then p
      else scheduleRecoveryProbe c w
             (on_worker w (\<lambda>x. x\<lparr>wkAttempt := 0\<rparr>) (clear_timer w (on_worker w (\<lambda>x. x\<lparr>wkStatus := Crashed\<rparr>) p))))"

definition refresh_one :: "pool_config \<Rightarrow> int \<Rightarrow> (nat \<Rightarrow> bool) \<Rightarrow> nat \<Rightarrow> pool \<Rightarrow> pool" where
  "refresh_one c now exists w p =
     (let x = plWorkers p ! w
      in if wkStatus x = Busy \<or> wkStatus x = Crashed then p
         else if exists w then on_worker w (\<lambda>x. x\<lparr>wkStatus := Ready, wkStartedAt := now\<rparr>) p
         else if pcStartupGraceMs c \<le> now - wkStartedAt x then
           scheduleRecoveryProbe c w
             (on_worker w (\<lambda>x. x\<lparr>wkTimer := None, wkAttempt := 0\<rparr>)
               (clear_timer w (on_worker w (\<lambda>x. x\<lparr>wkStatus := Crashed\<rparr>) p)))
         else on_worker w (\<lambda>x. x\<lparr>wkStatus := Starting\<rparr>) p)"

definition refreshWorkerReadiness :: "pool_config \<Rightarrow> int \<Rightarrow> (nat \<Rightarrow> bool) \<Rightarrow> pool \<Rightarrow> pool" where
  "refreshWorkerReadiness c now exists p = fold (refresh_one c now exists) [0..<length (plWorkers p)] p"

section \<open>Requests\<close>

definition acquireWorker :: "pool_config \<Rightarrow> int \<Rightarrow> (nat \<Rightarrow> bool) \<Rightarrow> pool \<Rightarrow> (pool_error + nat) \<times> pool" where
  "acquireWorker c now exists p =
     (let p1 = refreshWorkerReadiness c now exists p
      in case findIndex (\<lambda>x. wkStatus x = Ready) (plWorkers p1) of
           None \<Rightarrow> (Inl No_ready_workers, p1)
         | Some w \<Rightarrow> (Inr w, on_worker w (\<lambda>x. x\<lparr>wkStatus := Busy\<rparr>) p1))"

text \<open>\<^verbatim>\<open>runInference\<close> and \<^verbatim>\<open>runStreamingInference\<close> up to the first event of the socket; the answer is the request.\<close>

definition run_inference ::
  "pool_config \<Rightarrow> int \<Rightarrow> (nat \<Rightarrow> bool) \<Rightarrow> string \<Rightarrow> bool \<Rightarrow> pool \<Rightarrow> (pool_error + nat) \<times> pool" where
  "run_inference c now exists r stream p =
     (case acquireWorker c now exists p of
        (Inl e, p1) \<Rightarrow> (Inl e, p1)
      | (Inr w, p1) \<Rightarrow>
          let k = length (plRequests p1)
          in (Inr k, p1\<lparr>plRequests := plRequests p1 @ [\<lparr>rqId = r, rqWorker = w, rqStream = stream, rqDone = False,
                rqConnTimer = True, rqDestroyed = False, rqClosed = False, rqBuffer = [], rqTokens = [], rqOutcome = None\<rparr>],
                plInFlight := AList.update r k (plInFlight p1)\<rparr>))"

definition cleanup :: "nat \<Rightarrow> pool \<Rightarrow> pool" where
  "cleanup k p =
     (let r = plRequests p ! k; w = rqWorker r;
          p1 = on_request k (\<lambda>r. r\<lparr>rqConnTimer := False\<rparr>) p;
          p2 = p1\<lparr>plInFlight := AList.delete (rqId r) (plInFlight p1)\<rparr>
      in if wkStatus (plWorkers p2 ! w) \<noteq> Crashed then on_worker w (\<lambda>x. x\<lparr>wkStatus := Ready\<rparr>) p2 else p2)"

definition finalizeError :: "pool_config \<Rightarrow> nat \<Rightarrow> pool_error \<Rightarrow> pool \<Rightarrow> pool" where
  "finalizeError c k e p =
     (if rqDone (plRequests p ! k) then p
      else
        let p1 = cleanup k (on_request k (\<lambda>r. r\<lparr>rqDone := True, rqOutcome := Some (Failed e)\<rparr>) p)
        in if isTransportFailure e then quarantine c (rqWorker (plRequests p ! k)) p1 else p1)"

definition destroy :: "nat \<Rightarrow> pool \<Rightarrow> pool" where
  "destroy k p = on_request k (\<lambda>r. r\<lparr>rqDestroyed := True\<rparr>) p"

text \<open>The \<^verbatim>\<open>fail\<close> of an entry in flight, and what the handlers of the socket call: they differ for a stream.\<close>

definition failInFlight :: "pool_config \<Rightarrow> nat \<Rightarrow> pool_error \<Rightarrow> pool \<Rightarrow> pool" where
  "failInFlight c k e p =
     (if rqDone (plRequests p ! k) \<and> rqStream (plRequests p ! k) then p else finalizeError c k e (destroy k p))"

definition handler_fails :: "pool_config \<Rightarrow> nat \<Rightarrow> pool_error \<Rightarrow> pool \<Rightarrow> pool" where
  "handler_fails c k e p = (if rqStream (plRequests p ! k) then failInFlight c k e p else finalizeError c k e p)"

definition recordDevice :: "nat \<Rightarrow> worker_reply \<Rightarrow> pool \<Rightarrow> pool" where
  "recordDevice w r p =
     (if length (plWorkers p) \<le> w then p
      else on_worker w (\<lambda>x. x\<lparr>wkDevice := Some (rpDevice r), wkDegraded := rpDegraded r, wkReason := rpReason r\<rparr>) p)"

definition finish_result :: "nat \<Rightarrow> worker_reply \<Rightarrow> pool \<Rightarrow> pool" where
  "finish_result k rep p =
     (if rqDone (plRequests p ! k) then p
      else recordDevice (rqWorker (plRequests p ! k)) rep
             (cleanup k (on_request k (\<lambda>r. r\<lparr>rqDone := True, rqOutcome := Some (Answered rep)\<rparr>) p)))"

section \<open>Frames of a worker\<close>

text \<open>
  What a line is to the handler: no JSON, the value \<^verbatim>\<open>null\<close> (reading its \<^verbatim>\<open>type\<close> throws), one of the three known
  types, or anything else.
\<close>

datatype frame = Fr_bad | Fr_null | Fr_token string | Fr_error string | Fr_result worker_reply | Fr_other

text \<open>
  The loop over the buffer: the tokens passed on the way, the frame at which the handler returned, if it did, and
  what is left in the buffer.
\<close>

function drain :: "(string \<Rightarrow> frame) \<Rightarrow> string \<Rightarrow> string list \<times> frame option \<times> string" where
  "drain parse buf =
     (case find_char newline buf of
        None \<Rightarrow> ([], None, buf)
      | Some i \<Rightarrow>
          let line = js_trim (take i buf); rest = drop (Suc i) buf
          in if line = [] then drain parse rest
             else case parse line of
                 Fr_token t \<Rightarrow> (let (ts, f, b) = drain parse rest in (t # ts, f, b))
               | Fr_other \<Rightarrow> drain parse rest
               | f \<Rightarrow> ([], Some f, rest))"
  by pat_completeness auto

termination
  by (relation "measure (\<lambda>(parse, buf). length buf)") (auto dest: find_char_bound)

declare drain.simps [simp del]

definition on_data :: "pool_config \<Rightarrow> (string \<Rightarrow> frame) \<Rightarrow> nat \<Rightarrow> string \<Rightarrow> pool \<Rightarrow> pool" where
  "on_data c parse k chunk p =
     (case drain parse (rqBuffer (plRequests p ! k) @ chunk) of
        (ts, f, rest) \<Rightarrow>
          let p1 = on_request k (\<lambda>r. r\<lparr>rqBuffer := rest,
                     rqTokens := rqTokens r @ (if rqStream r then ts else [])\<rparr>) p
          in (case f of
                Some Fr_bad \<Rightarrow> handler_fails c k Worker_bad_json p1
              | Some Fr_null \<Rightarrow> p1\<lparr>plThrown := True\<rparr>
              | Some (Fr_error e) \<Rightarrow> handler_fails c k (Worker_error e) p1
              | Some (Fr_result rep) \<Rightarrow> finish_result k rep p1
              | _ \<Rightarrow> p1))"

section \<open>Notices of the supervisor\<close>

datatype notice = Notice_crashed int "string option" | Notice_restarted int | Notice_ready int | Notice_other

text \<open>What \<^verbatim>\<open>handleSupervisorMessage\<close> reads of a parsed line; \<^verbatim>\<open>requestId || null\<close> makes the empty id none.\<close>

definition notice_of :: "json \<Rightarrow> notice" where
  "notice_of msg =
     (case msg of
        J_object ps \<Rightarrow>
          (case (map_of ps ''type'', map_of ps ''workerId'') of
             (Some (J_string t), Some (J_int w)) \<Rightarrow>
               if t = ''worker_crashed'' then
                 Notice_crashed w (case map_of ps ''requestId'' of Some (J_string r) \<Rightarrow> if r = [] then None else Some r | _ \<Rightarrow> None)
               else if t = ''worker_restarted'' then Notice_restarted w
               else if t = ''worker_ready'' then Notice_ready w
               else Notice_other
           | _ \<Rightarrow> Notice_other)
      | _ \<Rightarrow> Notice_other)"

definition markWorkerCrashed :: "pool_config \<Rightarrow> nat \<Rightarrow> string option \<Rightarrow> pool \<Rightarrow> pool" where
  "markWorkerCrashed c w rid p =
     (let p1 = on_worker w (\<lambda>x. x\<lparr>wkStatus := Crashed\<rparr>) p;
          affected = (case (case rid of None \<Rightarrow> None | Some r \<Rightarrow> if r = [] then None else map_of (plInFlight p) r) of
              Some k \<Rightarrow> [k]
            | None \<Rightarrow> filter (\<lambda>k. rqWorker (plRequests p ! k) = w) (map snd (plInFlight p)));
          p2 = fold (\<lambda>k. failInFlight c k Worker_crashed) affected p1
      in scheduleRecoveryProbe c w (on_worker w (\<lambda>x. x\<lparr>wkAttempt := 0\<rparr>) (clear_timer w p2)))"

definition known_worker :: "pool \<Rightarrow> int \<Rightarrow> bool" where
  "known_worker p w \<longleftrightarrow> 0 \<le> w \<and> nat w < length (plWorkers p)"

definition handleSupervisorMessage :: "pool_config \<Rightarrow> int \<Rightarrow> notice \<Rightarrow> pool \<Rightarrow> pool" where
  "handleSupervisorMessage c now msg p =
     (case msg of
        Notice_crashed w rid \<Rightarrow> if known_worker p w then markWorkerCrashed c (nat w) rid p else p
      | Notice_restarted w \<Rightarrow>
          if known_worker p w \<and> wkStatus (plWorkers p ! nat w) \<noteq> Busy then
            scheduleRecoveryProbe c (nat w)
              (on_worker (nat w) (\<lambda>x. x\<lparr>wkTimer := None, wkAttempt := 0, wkStartedAt := now, wkStatus := Crashed\<rparr>)
                (clear_timer (nat w) p))
          else p
      | Notice_ready w \<Rightarrow>
          if known_worker p w \<and> wkStatus (plWorkers p ! nat w) \<noteq> Busy then
            on_worker (nat w) (\<lambda>x. x\<lparr>wkTimer := None, wkAttempt := 0, wkStartedAt := now, wkStatus := Ready\<rparr>)
              (clear_timer (nat w) p)
          else p
      | Notice_other \<Rightarrow> p)"

record pool_health =
  hlStatuses :: "(worker_status \<times> int \<times> string option \<times> bool \<times> string option) list"
  hlActiveSlots :: nat

definition getHealth :: "pool_config \<Rightarrow> int \<Rightarrow> (nat \<Rightarrow> bool) \<Rightarrow> pool \<Rightarrow> pool_health \<times> pool" where
  "getHealth c now exists p =
     (let p1 = refreshWorkerReadiness c now exists p
      in (\<lparr>hlStatuses = map (\<lambda>x. (wkStatus x, wkAttempt x, wkDevice x, wkDegraded x, wkReason x)) (plWorkers p1),
           hlActiveSlots = length (filter (\<lambda>x. wkStatus x = Busy) (plWorkers p1))\<rparr>, p1))"

section \<open>The event loop\<close>

datatype pool_event =
    Pl_run int "nat \<Rightarrow> bool" string bool
  | Pl_connected nat
  | Pl_data nat string
  | Pl_connect_timeout nat
  | Pl_error nat
  | Pl_close nat
  | Pl_cancel nat
  | Pl_notice int notice
  | Pl_probe_timer "nat \<Rightarrow> bool" nat
  | Pl_probe_answer int nat bool
  | Pl_health int "nat \<Rightarrow> bool"

text \<open>A destroyed socket delivers no more data, and nothing comes after \<^verbatim>\<open>close\<close>.\<close>

fun pool_enabled :: "pool \<Rightarrow> pool_event \<Rightarrow> bool" where
  "pool_enabled p (Pl_connected k) \<longleftrightarrow>
     k < length (plRequests p) \<and> \<not> rqDestroyed (plRequests p ! k) \<and> \<not> rqClosed (plRequests p ! k)"
| "pool_enabled p (Pl_data k chunk) \<longleftrightarrow>
     k < length (plRequests p) \<and> \<not> rqDestroyed (plRequests p ! k) \<and> \<not> rqClosed (plRequests p ! k)"
| "pool_enabled p (Pl_connect_timeout k) \<longleftrightarrow> k < length (plRequests p) \<and> rqConnTimer (plRequests p ! k)"
| "pool_enabled p (Pl_error k) \<longleftrightarrow> k < length (plRequests p) \<and> \<not> rqClosed (plRequests p ! k)"
| "pool_enabled p (Pl_close k) \<longleftrightarrow> k < length (plRequests p) \<and> \<not> rqClosed (plRequests p ! k)"
| "pool_enabled p (Pl_cancel k) \<longleftrightarrow> k < length (plRequests p) \<and> rqStream (plRequests p ! k)"
| "pool_enabled p (Pl_probe_timer exists t) \<longleftrightarrow> t \<in> fst ` set (plTimers p)"
| "pool_enabled p (Pl_probe_answer now w alive) \<longleftrightarrow> w \<in> set (plProbes p)"
| "pool_enabled p e \<longleftrightarrow> True"

fun pool_step :: "pool_config \<Rightarrow> (string \<Rightarrow> frame) \<Rightarrow> pool_event \<Rightarrow> pool \<Rightarrow> pool" where
  "pool_step c parse (Pl_run now exists r stream) p = snd (run_inference c now exists r stream p)"
| "pool_step c parse (Pl_connected k) p = on_request k (\<lambda>r. r\<lparr>rqConnTimer := False\<rparr>) p"
| "pool_step c parse (Pl_data k chunk) p = on_data c parse k chunk p"
| "pool_step c parse (Pl_connect_timeout k) p = destroy k (on_request k (\<lambda>r. r\<lparr>rqConnTimer := False\<rparr>) p)"
| "pool_step c parse (Pl_error k) p = handler_fails c k Worker_socket_error p"
| "pool_step c parse (Pl_close k) p = (let p1 = on_request k (\<lambda>r. r\<lparr>rqClosed := True\<rparr>) p
     in if rqDone (plRequests p ! k) then p1 else handler_fails c k Worker_closed p1)"
| "pool_step c parse (Pl_cancel k) p = failInFlight c k Stream_cancelled p"
| "pool_step c parse (Pl_notice now msg) p = handleSupervisorMessage c now msg p"
| "pool_step c parse (Pl_probe_timer exists t) p = probe_timer c exists t p"
| "pool_step c parse (Pl_probe_answer now w alive) p = probe_answer c now w alive p"
| "pool_step c parse (Pl_health now exists) p = snd (getHealth c now exists p)"

text \<open>
  What the callers promise: an id is not used while a request with it is in flight, and a crash notice that names a
  request names one of that worker. The first is the registry's doing, the second holds because the supervisor names none.
\<close>

fun pool_callers :: "pool \<Rightarrow> pool_event \<Rightarrow> bool" where
  "pool_callers p (Pl_run now exists r stream) \<longleftrightarrow> r \<notin> fst ` set (plInFlight p)"
| "pool_callers p (Pl_notice now (Notice_crashed w rid)) \<longleftrightarrow>
     (case rid of None \<Rightarrow> True | Some r \<Rightarrow>
        (case map_of (plInFlight p) r of None \<Rightarrow> True | Some k \<Rightarrow> int (rqWorker (plRequests p ! k)) = w))"
| "pool_callers p e \<longleftrightarrow> True"

inductive pool_reach :: "pool_config \<Rightarrow> (string \<Rightarrow> frame) \<Rightarrow> pool \<Rightarrow> bool" for c parse where
  init: "pool_init c now n prefix = Inr p \<Longrightarrow> pool_reach c parse p"
| step: "pool_reach c parse p \<Longrightarrow> pool_enabled p e \<Longrightarrow> pool_callers p e \<Longrightarrow> pool_reach c parse (pool_step c parse e p)"

end
