(* ===== verification/Worker_Pool_Properties.thy ===== *)
theory Worker_Pool_Properties
  imports Worker_Pool
begin

text \<open>
  The pool's invariant: a busy worker serves exactly one open request, a worker that is offered serves none, and the map
  of requests in flight holds exactly the open ones. \<open>pool_inv X\<close> allows the workers of \<open>X\<close> to have left \<open>Busy\<close>
  with their request still open, which is the state in the middle of a crash notice.
\<close>

section \<open>The invariant\<close>

definition open_request :: "pool \<Rightarrow> nat \<Rightarrow> bool" where
  "open_request p k \<longleftrightarrow> k < length (plRequests p) \<and> \<not> rqDone (plRequests p ! k)"

abbreviation worker_of :: "pool \<Rightarrow> nat \<Rightarrow> nat" where
  "worker_of p k \<equiv> rqWorker (plRequests p ! k)"

abbreviation status_of :: "pool \<Rightarrow> nat \<Rightarrow> worker_status" where
  "status_of p w \<equiv> wkStatus (plWorkers p ! w)"

definition requests_ok :: "pool \<Rightarrow> bool" where
  "requests_ok p \<longleftrightarrow>
     distinct (map fst (plInFlight p)) \<and>
     (\<forall>r k. map_of (plInFlight p) r = Some k \<longleftrightarrow> open_request p k \<and> rqId (plRequests p ! k) = r) \<and>
     (\<forall>k < length (plRequests p). worker_of p k < length (plWorkers p) \<and>
        (rqDone (plRequests p ! k) \<longleftrightarrow> rqOutcome (plRequests p ! k) \<noteq> None))"

definition serving_ok :: "nat set \<Rightarrow> pool \<Rightarrow> bool" where
  "serving_ok X p \<longleftrightarrow>
     (\<forall>k. open_request p k \<longrightarrow> status_of p (worker_of p k) = Busy \<or> worker_of p k \<in> X) \<and>
     (\<forall>k k'. open_request p k \<longrightarrow> open_request p k' \<longrightarrow> worker_of p k = worker_of p k' \<longrightarrow> k = k') \<and>
     (\<forall>w < length (plWorkers p). status_of p w = Busy \<longrightarrow> (\<exists>k. open_request p k \<and> worker_of p k = w))"

definition pool_inv :: "nat set \<Rightarrow> pool \<Rightarrow> bool" where
  "pool_inv X p \<longleftrightarrow> requests_ok p \<and> serving_ok X p"

lemmas pool_inv_defs = pool_inv_def requests_ok_def serving_ok_def open_request_def

text \<open>Only these parts of the state matter.\<close>

lemma pool_inv_cong:
  assumes "pool_inv X p" and "plInFlight p' = plInFlight p" and "plRequests p' = plRequests p"
    and "length (plWorkers p') = length (plWorkers p)"
    and "\<forall>w < length (plWorkers p). status_of p' w = status_of p w"
  shows "pool_inv X p'"
proof -
  have o: "open_request p' = open_request p" using assms by (simp add: open_request_def fun_eq_iff)
  have "open_request p k \<Longrightarrow> worker_of p k < length (plWorkers p)" for k
    using assms(1) by (simp add: pool_inv_defs)
  then show ?thesis using assms(1-4) assms(5)[rule_format]
    unfolding pool_inv_def requests_ok_def serving_ok_def o by simp
qed

section \<open>Changes of a worker's status\<close>

lemma on_worker_status:
  assumes "w < length (plWorkers p)"
  shows "status_of (on_worker w f p) w' = (if w' = w then wkStatus (f (plWorkers p ! w)) else status_of p w')"
  using assms by (simp add: on_worker_def)

lemma on_worker_fields [simp]:
  "plInFlight (on_worker w f p) = plInFlight p" "plRequests (on_worker w f p) = plRequests p"
  "length (plWorkers (on_worker w f p)) = length (plWorkers p)"
  by (simp_all add: on_worker_def)

lemma clear_timer_fields [simp]:
  "plInFlight (clear_timer w p) = plInFlight p" "plRequests (clear_timer w p) = plRequests p"
  "plWorkers (clear_timer w p) = plWorkers p"
  by (simp_all add: clear_timer_def split: option.split)

lemma schedule_probe_fields [simp]:
  "plInFlight (scheduleRecoveryProbe c w p) = plInFlight p" "plRequests (scheduleRecoveryProbe c w p) = plRequests p"
  "length (plWorkers (scheduleRecoveryProbe c w p)) = length (plWorkers p)"
  by (simp_all add: scheduleRecoveryProbe_def Let_def)

lemma schedule_probe_status [simp]: "status_of (scheduleRecoveryProbe c w p) w' = status_of p w'"
  by (cases "w' < length (plWorkers p)") (auto simp: scheduleRecoveryProbe_def Let_def on_worker_def nth_list_update)

text \<open>
  An operation is quiet if it touches no request and moves no worker into or out of \<open>Busy\<close>.
\<close>

definition quiet :: "pool \<Rightarrow> pool \<Rightarrow> bool" where
  "quiet p p' \<longleftrightarrow> plInFlight p' = plInFlight p \<and> plRequests p' = plRequests p \<and>
     length (plWorkers p') = length (plWorkers p) \<and>
     (\<forall>w < length (plWorkers p). status_of p' w = status_of p w \<or> status_of p' w \<noteq> Busy \<and> status_of p w \<noteq> Busy)"

lemma quiet_refl [simp]: "quiet p p"
  by (simp add: quiet_def)

lemma quiet_trans: "quiet p q \<Longrightarrow> quiet q r \<Longrightarrow> quiet p r"
  unfolding quiet_def by fastforce

lemma quiet_inv:
  assumes q: "quiet p p'" and inv: "pool_inv X p"
  shows "pool_inv X p'"
proof -
  have o: "open_request p' = open_request p" using q by (simp add: quiet_def open_request_def fun_eq_iff)
  have "open_request p k \<Longrightarrow> worker_of p k < length (plWorkers p)" for k
    using inv by (simp add: pool_inv_defs)
  moreover have "w < length (plWorkers p) \<Longrightarrow> status_of p' w = Busy \<longleftrightarrow> status_of p w = Busy" for w
    using q by (auto simp: quiet_def)
  ultimately show ?thesis
    using q inv unfolding pool_inv_def requests_ok_def serving_ok_def o by (simp add: quiet_def)
qed

lemma quiet_on_worker:
  assumes "wkStatus (f (plWorkers p ! w)) = status_of p w \<or> status_of p w \<noteq> Busy \<and> wkStatus (f (plWorkers p ! w)) \<noteq> Busy"
  shows "quiet p (on_worker w f p)"
  using assms by (cases "w < length (plWorkers p)") (auto simp: quiet_def on_worker_def nth_list_update)

lemma quiet_clear [simp]: "quiet p (clear_timer w p)"
  by (simp add: quiet_def)

lemma quiet_schedule [simp]: "quiet p (scheduleRecoveryProbe c w p)"
  by (simp add: quiet_def)

lemma quiet_other [simp]:
  "quiet p (p\<lparr>plTimers := t\<rparr>)" "quiet p (p\<lparr>plProbes := b\<rparr>)" "quiet p (p\<lparr>plThrown := x\<rparr>)"
  by (simp_all add: quiet_def)

lemma crash_steps:
  assumes "status_of p w \<noteq> Busy"
  shows "quiet p (scheduleRecoveryProbe c w (on_worker w (\<lambda>x. x\<lparr>wkTimer := None, wkAttempt := 0\<rparr>)
    (clear_timer w (on_worker w (\<lambda>x. x\<lparr>wkStatus := Crashed\<rparr>) p))))"
    and "quiet p (scheduleRecoveryProbe c w (on_worker w (\<lambda>x. x\<lparr>wkAttempt := 0\<rparr>)
    (clear_timer w (on_worker w (\<lambda>x. x\<lparr>wkStatus := Crashed\<rparr>) p))))"
  by (rule quiet_trans [OF quiet_trans [OF quiet_trans [OF quiet_on_worker quiet_clear] quiet_on_worker] quiet_schedule];
      use assms in simp)+

lemma refresh_one_quiet: "quiet p (refresh_one c now exists w p)"
  unfolding refresh_one_def Let_def by (auto intro!: crash_steps quiet_on_worker)

lemma fold_quiet: "(\<And>w p. quiet p (f w p)) \<Longrightarrow> quiet p (fold f ws p)"
  by (induction ws arbitrary: p) (auto intro: quiet_trans)

lemma refresh_quiet: "quiet p (refreshWorkerReadiness c now exists p)"
  unfolding refreshWorkerReadiness_def by (rule fold_quiet) (rule refresh_one_quiet)

lemma probe_timer_quiet: "quiet p (probe_timer c exists t p)"
  unfolding probe_timer_def Let_def
  by (auto split: option.split intro: quiet_trans [OF quiet_other(1) quiet_other(2)] quiet_trans [OF quiet_other(1) quiet_schedule])

lemma probe_answer_quiet: "quiet p (probe_answer c now w alive p)"
  unfolding probe_answer_def Let_def
  by (auto intro!: quiet_trans [OF quiet_other(2) quiet_on_worker] quiet_trans [OF quiet_other(2) quiet_schedule])

section \<open>A request begins\<close>

lemma acquire_run_inv:
  assumes inv: "pool_inv {} p" and fresh: "r \<notin> fst ` set (plInFlight p)"
  shows "pool_inv {} (snd (run_inference c now exists r stream p))"
proof -
  let ?p = "refreshWorkerReadiness c now exists p"
  have q: "quiet p ?p" by (rule refresh_quiet)
  have inv': "pool_inv {} ?p" using q inv by (rule quiet_inv)
  have fresh': "r \<notin> fst ` set (plInFlight ?p)" using fresh q by (simp add: quiet_def)
  show ?thesis
  proof (cases "findIndex (\<lambda>x. wkStatus x = Ready) (plWorkers ?p)")
    case None
    with inv' show ?thesis by (simp add: run_inference_def acquireWorker_def Let_def)
  next
    case (Some w)
    from findIndex_SomeE [OF this] have w: "w < length (plWorkers ?p)" "status_of ?p w = Ready" by fastforce+
    let ?r = "\<lparr>rqId = r, rqWorker = w, rqStream = stream, rqDone = False,
      rqConnTimer = True, rqDestroyed = False, rqClosed = False, rqBuffer = [], rqTokens = [], rqOutcome = None\<rparr>"
    let ?n = "length (plRequests ?p)"
    let ?q = "(on_worker w (\<lambda>x. x\<lparr>wkStatus := Busy\<rparr>) ?p)\<lparr>plRequests := plRequests ?p @ [?r],
      plInFlight := AList.update r ?n (plInFlight ?p)\<rparr>"
    have eq: "snd (run_inference c now exists r stream p) = ?q"
      using Some by (simp add: run_inference_def acquireWorker_def Let_def)
    have o: "open_request ?q k \<longleftrightarrow> open_request ?p k \<or> k = ?n" for k
      by (auto simp: open_request_def nth_append less_Suc_eq)
    have wo: "open_request ?p k \<Longrightarrow> worker_of ?q k = worker_of ?p k \<and> rqId (plRequests ?q ! k) = rqId (plRequests ?p ! k) \<and> worker_of ?p k \<noteq> w" for k
      using inv' w(2) by (auto simp: pool_inv_defs nth_append)
    have n: "worker_of ?q ?n = w" "rqId (plRequests ?q ! ?n) = r" by simp_all
    have st: "w' < length (plWorkers ?p) \<Longrightarrow> status_of ?q w' = (if w' = w then Busy else status_of ?p w')" for w'
      using w(1) by (simp add: on_worker_def)
    have f: "map_of (plInFlight ?p) r = None" using fresh' by (simp add: map_of_eq_None_iff)
    have "requests_ok ?q"
    proof -
      have "map_of (plInFlight ?q) r' = Some k \<longleftrightarrow> open_request ?q k \<and> rqId (plRequests ?q ! k) = r'" for r' k
      proof (cases "k = ?n")
        case True
        have "map_of (plInFlight ?p) r' \<noteq> Some ?n" using inv' by (auto simp: pool_inv_defs)
        with True n o show ?thesis by auto
      next
        case False
        then show ?thesis using o wo [of k] f inv' by (auto simp: pool_inv_def requests_ok_def)
      qed
      then show ?thesis using inv' w(1) unfolding requests_ok_def
        by (auto simp: pool_inv_def requests_ok_def nth_append less_Suc_eq distinct_update)
    qed
    moreover have "serving_ok {} ?q"
    proof -
      have "open_request ?p k \<Longrightarrow> worker_of ?p k < length (plWorkers ?p)" for k using inv' by (simp add: pool_inv_defs)
      then have 1: "open_request ?q k \<Longrightarrow> status_of ?q (worker_of ?q k) = Busy" for k
        using inv' o wo [of k] n st w(1) by (auto simp: pool_inv_def serving_ok_def)
      have 2: "open_request ?q k \<Longrightarrow> open_request ?q k' \<Longrightarrow> worker_of ?q k = worker_of ?q k' \<Longrightarrow> k = k'" for k k'
        using inv' o wo [of k] wo [of k'] n by (auto simp: pool_inv_def serving_ok_def)
      have 3: "\<exists>k. open_request ?q k \<and> worker_of ?q k = w'" if "w' < length (plWorkers ?p)" "status_of ?q w' = Busy" for w'
      proof (cases "w' = w")
        case True
        with o n show ?thesis by blast
      next
        case False
        with that st have "status_of ?p w' = Busy" by simp
        with that(1) inv' obtain k where "open_request ?p k" "worker_of ?p k = w'" by (auto simp: pool_inv_def serving_ok_def)
        with o wo [of k] show ?thesis by metis
      qed
      show ?thesis unfolding serving_ok_def using 1 2 3 by simp
    qed
    ultimately show ?thesis unfolding eq by (simp add: pool_inv_def)
  qed
qed

section \<open>A request ends\<close>

text \<open>
  The settling of an open request: it is done with an outcome, leaves the map, and its worker leaves \<open>Busy\<close>.
\<close>

lemma end_request:
  assumes inv: "pool_inv X p" and k: "open_request p k"
    and reqs: "plRequests p' = (plRequests p)[k := r']" "rqDone r'" "rqOutcome r' \<noteq> None"
      "rqId r' = rqId (plRequests p ! k)" "rqWorker r' = worker_of p k"
    and fl: "plInFlight p' = AList.delete (rqId (plRequests p ! k)) (plInFlight p)"
    and wk: "length (plWorkers p') = length (plWorkers p)" "status_of p' (worker_of p k) \<noteq> Busy"
      "\<forall>w < length (plWorkers p). w \<noteq> worker_of p k \<longrightarrow> status_of p' w = status_of p w"
  shows "pool_inv (X - {worker_of p k}) p'"
proof -
  have kl: "k < length (plRequests p)" using k by (simp add: open_request_def)
  have o: "open_request p' k' \<longleftrightarrow> open_request p k' \<and> k' \<noteq> k" for k'
    using reqs kl by (auto simp: open_request_def nth_list_update)
  have same: "worker_of p' k' = worker_of p k' \<and> rqId (plRequests p' ! k') = rqId (plRequests p ! k')" for k'
    using reqs kl by (cases "k' = k") auto
  have uniq: "open_request p k' \<Longrightarrow> worker_of p k' = worker_of p k \<Longrightarrow> k' = k" for k'
    using inv k by (auto simp: pool_inv_def serving_ok_def)
  have wl: "open_request p k' \<Longrightarrow> worker_of p k' < length (plWorkers p)" for k' using inv by (simp add: pool_inv_defs)
  have "requests_ok p'"
  proof -
    have key: "map_of (plInFlight p) r = Some k' \<longleftrightarrow> open_request p k' \<and> rqId (plRequests p ! k') = r" for r k'
      using inv by (simp add: pool_inv_def requests_ok_def)
    have idq: "k' = k" if "open_request p k'" "rqId (plRequests p ! k') = rqId (plRequests p ! k)" for k'
      using key [of "rqId (plRequests p ! k)" k'] key [of "rqId (plRequests p ! k)" k] that k by simp
    have rid: "rqId (plRequests p' ! k') = rqId (plRequests p ! k')" for k' using same by blast
    have m: "map_of (plInFlight p') r = Some k' \<longleftrightarrow> open_request p' k' \<and> rqId (plRequests p' ! k') = r" for r k'
      using k key [of r k'] idq [of k'] unfolding fl o rid by auto
    have d: "distinct (map fst (plInFlight p'))"
      using inv unfolding fl by (simp add: pool_inv_def requests_ok_def distinct_delete)
    have dn: "rqDone (plRequests p' ! k') \<longleftrightarrow> rqOutcome (plRequests p' ! k') \<noteq> None" if "k' < length (plRequests p)" for k'
      using that inv reqs kl by (cases "k' = k") (auto simp: pool_inv_def requests_ok_def)
    have wl': "worker_of p' k' < length (plWorkers p')" if "k' < length (plRequests p)" for k'
    proof -
      have "worker_of p k' < length (plWorkers p)" using that inv by (simp add: pool_inv_def requests_ok_def)
      then show ?thesis using same wk(1) by metis
    qed
    have "length (plRequests p') = length (plRequests p)" by (simp add: reqs(1))
    then show ?thesis unfolding requests_ok_def
      by (intro conjI allI impI) (simp_all only: m d wl' dn)
  qed
  moreover have "serving_ok (X - {worker_of p k}) p'"
  proof -
    have 1: "status_of p' (worker_of p' k') = Busy \<or> worker_of p' k' \<in> X - {worker_of p k}" if "open_request p' k'" for k'
    proof -
      have k': "open_request p k'" "k' \<noteq> k" using that o by auto
      then have "status_of p' (worker_of p k') = status_of p (worker_of p k')" "worker_of p k' \<noteq> worker_of p k"
        using uniq [of k'] wl [of k'] wk(3) by auto
      moreover have "status_of p (worker_of p k') = Busy \<or> worker_of p k' \<in> X"
        using inv k'(1) by (simp add: pool_inv_def serving_ok_def)
      ultimately show ?thesis using same [of k'] by auto
    qed
    have 2: "\<exists>k'. open_request p' k' \<and> worker_of p' k' = w" if "w < length (plWorkers p)" "status_of p' w = Busy" for w
    proof -
      have "w \<noteq> worker_of p k" "status_of p w = Busy" using that wk by auto
      then show ?thesis using inv that(1) o same unfolding pool_inv_def serving_ok_def by metis
    qed
    have 3: "k1 = k2" if "open_request p' k1" "open_request p' k2" "worker_of p' k1 = worker_of p' k2" for k1 k2
      using that inv o same [of k1] same [of k2] by (auto simp: pool_inv_def serving_ok_def)
    show ?thesis unfolding serving_ok_def wk(1) using 1 2 3 by blast
  qed
  ultimately show ?thesis by (simp add: pool_inv_def)
qed

lemma on_request_fields [simp]:
  "plInFlight (on_request k f p) = plInFlight p" "plWorkers (on_request k f p) = plWorkers p"
  "length (plRequests (on_request k f p)) = length (plRequests p)"
  by (simp_all add: on_request_def)

lemma on_request_nth:
  "k < length (plRequests p) \<Longrightarrow> plRequests (on_request k f p) ! k' = (if k' = k then f (plRequests p ! k) else plRequests p ! k')"
  by (simp add: on_request_def)

text \<open>Changing what is neither id, worker nor outcome of a request is invisible.\<close>

lemma on_request_inv:
  assumes inv: "pool_inv X p" and k: "k < length (plRequests p)"
    and f: "rqId (f (plRequests p ! k)) = rqId (plRequests p ! k)" "rqWorker (f (plRequests p ! k)) = worker_of p k"
      "rqDone (f (plRequests p ! k)) = rqDone (plRequests p ! k)" "rqOutcome (f (plRequests p ! k)) = rqOutcome (plRequests p ! k)"
  shows "pool_inv X (on_request k f p)"
proof -
  have e: "rqId (plRequests (on_request k f p) ! k') = rqId (plRequests p ! k') \<and> worker_of (on_request k f p) k' = worker_of p k' \<and>
    rqDone (plRequests (on_request k f p) ! k') = rqDone (plRequests p ! k') \<and>
    rqOutcome (plRequests (on_request k f p) ! k') = rqOutcome (plRequests p ! k')" for k'
    using f k by (simp add: on_request_nth)
  then have "open_request (on_request k f p) = open_request p" by (simp add: open_request_def fun_eq_iff)
  then show ?thesis using inv e by (simp add: pool_inv_def requests_ok_def serving_ok_def)
qed

text \<open>Both ways to settle: an error, with the quarantine after a transport failure, and a result.\<close>

definition settled_by :: "pool \<Rightarrow> nat \<Rightarrow> pool_outcome \<Rightarrow> pool \<Rightarrow> bool" where
  "settled_by p k out p' \<longleftrightarrow>
     (let r' = plRequests p' ! k in plRequests p' = (plRequests p)[k := r'] \<and> rqDone r' \<and> rqOutcome r' = Some out \<and>
        rqId r' = rqId (plRequests p ! k) \<and> rqWorker r' = worker_of p k) \<and>
     plInFlight p' = AList.delete (rqId (plRequests p ! k)) (plInFlight p) \<and>
     length (plWorkers p') = length (plWorkers p) \<and> status_of p' (worker_of p k) \<noteq> Busy \<and>
     (status_of p (worker_of p k) = Crashed \<longrightarrow> status_of p' (worker_of p k) = Crashed) \<and>
     (\<forall>w < length (plWorkers p). w \<noteq> worker_of p k \<longrightarrow> status_of p' w = status_of p w)"

lemma settled_by_inv:
  assumes "settled_by p k out p'" and "pool_inv X p" and "open_request p k"
  shows "pool_inv (X - {worker_of p k}) p'"
  using assms end_request [OF assms(2,3), of p' "plRequests p' ! k"] by (simp add: settled_by_def Let_def)

lemma settled_by_quiet:
  assumes "settled_by p k out p'" and "plInFlight q = plInFlight p'" and "plRequests q = plRequests p'"
    and "length (plWorkers q) = length (plWorkers p')" and "status_of q (worker_of p k) \<noteq> Busy"
    and "status_of p (worker_of p k) = Crashed \<longrightarrow> status_of q (worker_of p k) = Crashed"
    and "\<forall>w < length (plWorkers p). w \<noteq> worker_of p k \<longrightarrow> status_of q w = status_of p' w"
  shows "settled_by p k out q"
  using assms by (simp add: settled_by_def Let_def)

lemma cleanup_settles:
  assumes k: "k < length (plRequests p)" and w: "worker_of p k < length (plWorkers p)"
  shows "settled_by p k out (cleanup k (on_request k (\<lambda>r. r\<lparr>rqDone := True, rqOutcome := Some out\<rparr>) p))"
  using assms by (simp add: settled_by_def cleanup_def Let_def on_request_def on_worker_def)

lemma schedule_probe_crashed: "status_of p w = Crashed \<Longrightarrow> status_of (scheduleRecoveryProbe c w' p) w = Crashed"
  by simp

lemma quarantine_fields [simp]:
  "plInFlight (quarantine c w p) = plInFlight p" "plRequests (quarantine c w p) = plRequests p"
  "length (plWorkers (quarantine c w p)) = length (plWorkers p)"
  by (simp_all add: quarantine_def)

lemma quarantine_status:
  assumes "w < length (plWorkers p)"
  shows "status_of (quarantine c w p) w' = (if w' = w then Crashed else status_of p w')"
  using assms by (auto simp: quarantine_def on_worker_status)

lemma finalizeError_settles:
  assumes k: "open_request p k" and w: "worker_of p k < length (plWorkers p)"
  shows "settled_by p k (Failed e) (finalizeError c k e p)"
proof -
  let ?q = "cleanup k (on_request k (\<lambda>r. r\<lparr>rqDone := True, rqOutcome := Some (Failed e)\<rparr>) p)"
  have s: "settled_by p k (Failed e) ?q" using k w by (intro cleanup_settles) (simp_all add: open_request_def)
  then have l: "worker_of p k < length (plWorkers ?q)" using w by (simp add: settled_by_def)
  have "settled_by p k (Failed e) (quarantine c (worker_of p k) ?q)"
    by (rule settled_by_quiet [OF s]) (use l s in \<open>simp_all add: quarantine_status settled_by_def\<close>)
  with s k show ?thesis by (simp add: finalizeError_def Let_def open_request_def)
qed

lemma finish_result_settles:
  assumes k: "open_request p k" and w: "worker_of p k < length (plWorkers p)"
  shows "settled_by p k (Answered rep) (finish_result k rep p)"
proof -
  let ?q = "cleanup k (on_request k (\<lambda>r. r\<lparr>rqDone := True, rqOutcome := Some (Answered rep)\<rparr>) p)"
  have s: "settled_by p k (Answered rep) ?q" using k w by (intro cleanup_settles) (simp_all add: open_request_def)
  then have l: "worker_of p k < length (plWorkers ?q)" using w by (simp add: settled_by_def)
  have "settled_by p k (Answered rep) (recordDevice (worker_of p k) rep ?q)"
    by (rule settled_by_quiet [OF s]) (use l s in \<open>simp_all add: recordDevice_def on_worker_status settled_by_def\<close>)
  with k show ?thesis by (simp add: finish_result_def open_request_def)
qed

lemma pool_inv_mono: "pool_inv X p \<Longrightarrow> X \<subseteq> Y \<Longrightarrow> pool_inv Y p"
  by (auto simp: pool_inv_def serving_ok_def)

lemma inv_worker: "pool_inv X p \<Longrightarrow> k < length (plRequests p) \<Longrightarrow> worker_of p k < length (plWorkers p)"
  by (simp add: pool_inv_def requests_ok_def)

lemma destroy_inv: "pool_inv X p \<Longrightarrow> k < length (plRequests p) \<Longrightarrow> pool_inv X (destroy k p)"
  unfolding destroy_def by (rule on_request_inv) simp_all

lemma destroy_fields [simp]:
  "plInFlight (destroy k p) = plInFlight p" "plWorkers (destroy k p) = plWorkers p"
  "length (plRequests (destroy k p)) = length (plRequests p)"
  by (simp_all add: destroy_def)

lemma destroy_nth [simp]:
  "k < length (plRequests p) \<Longrightarrow> rqId (plRequests (destroy k p) ! k') = rqId (plRequests p ! k')"
  "k < length (plRequests p) \<Longrightarrow> worker_of (destroy k p) k' = worker_of p k'"
  "k < length (plRequests p) \<Longrightarrow> rqDone (plRequests (destroy k p) ! k') = rqDone (plRequests p ! k')"
  "k < length (plRequests p) \<Longrightarrow> rqOutcome (plRequests (destroy k p) ! k') = rqOutcome (plRequests p ! k')"
  by (simp_all add: destroy_def on_request_nth)

text \<open>What settling does to every request, open or not.\<close>

definition fails_to :: "pool \<Rightarrow> nat \<Rightarrow> pool_outcome \<Rightarrow> pool \<Rightarrow> bool" where
  "fails_to p k out p' \<longleftrightarrow>
     length (plRequests p') = length (plRequests p) \<and> length (plWorkers p') = length (plWorkers p) \<and>
     (\<forall>k'. worker_of p' k' = worker_of p k') \<and>
     (\<forall>k'. open_request p' k' \<longleftrightarrow> open_request p k' \<and> k' \<noteq> k) \<and>
     (\<forall>k'. rqOutcome (plRequests p' ! k') = (if open_request p k \<and> k' = k then Some out else rqOutcome (plRequests p ! k'))) \<and>
     (\<forall>w < length (plWorkers p). status_of p' w = status_of p w \<or>
        w = worker_of p k \<and> open_request p k \<and> status_of p w \<noteq> Crashed \<and> status_of p' w \<noteq> Busy)"

lemma settled_fails_to:
  assumes "settled_by p k out p'" and "open_request p k"
  shows "fails_to p k out p'"
proof -
  obtain r' where r: "plRequests p' = (plRequests p)[k := r']" "rqDone r'" "rqOutcome r' = Some out"
    "rqWorker r' = worker_of p k"
    and w: "length (plWorkers p') = length (plWorkers p)" "status_of p' (worker_of p k) \<noteq> Busy"
      "status_of p (worker_of p k) = Crashed \<longrightarrow> status_of p' (worker_of p k) = Crashed"
      "\<forall>w < length (plWorkers p). w \<noteq> worker_of p k \<longrightarrow> status_of p' w = status_of p w"
    using assms(1) unfolding settled_by_def Let_def by blast
  have k: "k < length (plRequests p)" using assms(2) by (simp add: open_request_def)
  have n: "plRequests p' ! k' = (if k' = k then r' else plRequests p ! k')" for k' using r k by simp
  have l: "length (plRequests p') = length (plRequests p)" using r by simp
  show ?thesis unfolding fails_to_def open_request_def l n using r w assms(2) k by (auto simp: open_request_def)
qed

lemma failInFlight_fails:
  assumes k: "k < length (plRequests p)" and w: "worker_of p k < length (plWorkers p)"
  shows "fails_to p k (Failed e) (failInFlight c k e p)"
proof (cases "rqDone (plRequests p ! k)")
  case True
  then show ?thesis using k by (auto simp: failInFlight_def finalizeError_def fails_to_def open_request_def)
next
  case False
  then have o: "open_request (destroy k p) k" using k by (simp add: open_request_def)
  have "settled_by (destroy k p) k (Failed e) (finalizeError c k e (destroy k p))"
    using o w k by (intro finalizeError_settles) simp_all
  note f = settled_fails_to [OF this o]
  have od: "open_request (destroy k p) = open_request p" using k by (simp add: open_request_def fun_eq_iff)
  from f show ?thesis
    using False k unfolding fails_to_def od by (simp add: failInFlight_def cong: if_cong)
qed

lemma finalizeError_inv:
  assumes inv: "pool_inv X p" and k: "k < length (plRequests p)"
  shows "pool_inv X (finalizeError c k e p)"
proof (cases "rqDone (plRequests p ! k)")
  case False
  then have o: "open_request p k" using k by (simp add: open_request_def)
  from settled_by_inv [OF finalizeError_settles [OF o inv_worker [OF inv k]] inv o] show ?thesis
    by (rule pool_inv_mono) blast
qed (use inv in \<open>simp add: finalizeError_def\<close>)

lemma failInFlight_inv: "pool_inv X p \<Longrightarrow> k < length (plRequests p) \<Longrightarrow> pool_inv X (failInFlight c k e p)"
  by (auto simp: failInFlight_def intro: finalizeError_inv destroy_inv)

lemma handler_fails_inv: "pool_inv X p \<Longrightarrow> k < length (plRequests p) \<Longrightarrow> pool_inv X (handler_fails c k e p)"
  by (auto simp: handler_fails_def intro: finalizeError_inv failInFlight_inv)

lemma finish_result_inv:
  assumes inv: "pool_inv X p" and k: "k < length (plRequests p)"
  shows "pool_inv X (finish_result k rep p)"
proof (cases "rqDone (plRequests p ! k)")
  case False
  then have o: "open_request p k" using k by (simp add: open_request_def)
  from settled_by_inv [OF finish_result_settles [OF o inv_worker [OF inv k]] inv o] show ?thesis
    by (rule pool_inv_mono) blast
qed (use inv in \<open>simp add: finish_result_def\<close>)

lemma on_data_inv:
  assumes inv: "pool_inv X p" and k: "k < length (plRequests p)"
  shows "pool_inv X (on_data c parse k chunk p)"
proof -
  obtain ts f rest where d: "drain parse (rqBuffer (plRequests p ! k) @ chunk) = (ts, f, rest)" by (cases rule: prod_cases3)
  let ?p = "on_request k (\<lambda>r. r\<lparr>rqBuffer := rest, rqTokens := rqTokens r @ (if rqStream r then ts else [])\<rparr>) p"
  have "pool_inv X ?p" using inv k by (rule on_request_inv) simp_all
  moreover have "k < length (plRequests ?p)" using k by simp
  moreover have "pool_inv X (?p\<lparr>plThrown := True\<rparr>)" using \<open>pool_inv X ?p\<close> by (rule quiet_inv [OF quiet_other(3)])
  ultimately show ?thesis unfolding on_data_def d Let_def prod.case
    by (auto split: option.split frame.split intro: handler_fails_inv finish_result_inv simp del: on_request_fields)
qed

section \<open>Notices\<close>

lemma fold_fails:
  assumes "\<forall>k \<in> set ks. k < length (plRequests p)" and "pool_inv X p"
  shows "let p' = fold (\<lambda>k. failInFlight c k e) ks p in
    pool_inv X p' \<and> length (plRequests p') = length (plRequests p) \<and> length (plWorkers p') = length (plWorkers p) \<and>
    (\<forall>k'. worker_of p' k' = worker_of p k') \<and>
    (\<forall>k'. open_request p' k' \<longleftrightarrow> open_request p k' \<and> k' \<notin> set ks) \<and>
    (\<forall>k'. rqOutcome (plRequests p' ! k') = (if open_request p k' \<and> k' \<in> set ks then Some (Failed e) else rqOutcome (plRequests p ! k'))) \<and>
    (\<forall>w < length (plWorkers p). status_of p w = Crashed \<longrightarrow> status_of p' w = Crashed)"
  using assms
proof (induction ks arbitrary: p)
  case (Cons k ks)
  let ?p = "failInFlight c k e p"
  have k: "k < length (plRequests p)" "worker_of p k < length (plWorkers p)" using Cons.prems inv_worker by auto
  have f: "fails_to p k (Failed e) ?p" by (rule failInFlight_fails [OF k])
  have "\<forall>k \<in> set ks. k < length (plRequests ?p)" using Cons.prems(1) f by (simp add: fails_to_def)
  from Cons.IH [OF this failInFlight_inv [OF Cons.prems(2) k(1)]] f show ?case
    unfolding fails_to_def Let_def fold_Cons comp_def by auto
qed (simp add: Let_def)

lemma crash_status_inv:
  assumes inv: "pool_inv {} p" and w: "w < length (plWorkers p)"
  shows "pool_inv {w} (on_worker w (\<lambda>x. x\<lparr>wkStatus := Crashed\<rparr>) p)" (is "pool_inv _ ?p")
proof -
  have o: "open_request ?p = open_request p" by (simp add: open_request_def fun_eq_iff)
  show ?thesis using inv w unfolding pool_inv_def requests_ok_def serving_ok_def o
    by (auto simp: on_worker_status split: if_splits)
qed

lemma no_suspect:
  assumes "pool_inv {w} p" and "\<And>k. open_request p k \<Longrightarrow> worker_of p k \<noteq> w"
  shows "pool_inv {} p"
  using assms by (auto simp: pool_inv_def serving_ok_def)

lemma markWorkerCrashed_inv:
  fixes c :: pool_config
  assumes inv: "pool_inv {} p" and w: "w < length (plWorkers p)"
    and rid: "case rid of None \<Rightarrow> True | Some r \<Rightarrow>
        (case map_of (plInFlight p) r of None \<Rightarrow> True | Some k \<Rightarrow> int (worker_of p k) = int w)"
  defines "p' \<equiv> markWorkerCrashed c w rid p"
  shows "pool_inv {} p'" and "status_of p' w = Crashed"
    and "\<forall>k. open_request p k \<longrightarrow> (if worker_of p k = w
        then rqOutcome (plRequests p' ! k) = Some (Failed Worker_crashed) \<and> \<not> open_request p' k else open_request p' k)"
proof -
  let ?p1 = "on_worker w (\<lambda>x. x\<lparr>wkStatus := Crashed\<rparr>) p"
  define ks where "ks = (case (case rid of None \<Rightarrow> None | Some r \<Rightarrow> if r = [] then None else map_of (plInFlight p) r) of
      Some k \<Rightarrow> [k] | None \<Rightarrow> filter (\<lambda>k. worker_of p k = w) (map snd (plInFlight p)))"
  let ?p2 = "fold (\<lambda>k. failInFlight c k Worker_crashed) ks ?p1"
  have key: "map_of (plInFlight p) r = Some k \<longleftrightarrow> open_request p k \<and> rqId (plRequests p ! k) = r" for r k
    using inv by (simp add: pool_inv_def requests_ok_def)
  have d: "distinct (map fst (plInFlight p))" using inv by (simp add: pool_inv_def requests_ok_def)
  have uniq: "open_request p k \<Longrightarrow> open_request p k' \<Longrightarrow> worker_of p k = worker_of p k' \<Longrightarrow> k = k'" for k k'
    using inv by (auto simp: pool_inv_def serving_ok_def)
  have snds: "k \<in> set (map snd (plInFlight p)) \<longleftrightarrow> open_request p k" for k
  proof -
    have "k \<in> set (map snd (plInFlight p)) \<longleftrightarrow> (\<exists>r. map_of (plInFlight p) r = Some k)"
      using ran_distinct [OF d] by (auto simp: ran_def)
    then show ?thesis using key by simp
  qed
  have ks: "k \<in> set ks \<longleftrightarrow> open_request p k \<and> worker_of p k = w" for k
  proof (cases "case rid of None \<Rightarrow> None | Some r \<Rightarrow> if r = [] then None else map_of (plInFlight p) r")
    case None
    then show ?thesis using snds [of k] by (auto simp: ks_def)
  next
    case (Some k0)
    then obtain r where "rid = Some r" "map_of (plInFlight p) r = Some k0" by (auto split: option.splits if_splits)
    with rid key have "worker_of p k0 = w" "open_request p k0" by auto
    with Some uniq [of k k0] show ?thesis by (auto simp: ks_def)
  qed
  have "\<forall>k \<in> set ks. k < length (plRequests ?p1)" using ks by (simp add: open_request_def)
  note F = fold_fails [OF this crash_status_inv [OF inv w], of c Worker_crashed, unfolded Let_def]
  have o1: "open_request ?p1 = open_request p" by (simp add: open_request_def fun_eq_iff)
  have p2: "pool_inv {} ?p2"
    using F ks by (intro no_suspect) (auto simp: o1)
  have st2: "status_of ?p2 w = Crashed" using F w by (simp add: on_worker_status)
  have p': "p' = scheduleRecoveryProbe c w (on_worker w (\<lambda>x. x\<lparr>wkAttempt := 0\<rparr>) (clear_timer w ?p2))"
    by (simp add: p'_def markWorkerCrashed_def ks_def Let_def)
  have q: "quiet ?p2 p'"
    unfolding p' by (rule quiet_trans [OF quiet_trans [OF quiet_clear quiet_on_worker] quiet_schedule]) simp
  from quiet_inv [OF this p2] show "pool_inv {} p'" .
  have "w < length (plWorkers ?p2)" using F w by simp
  with st2 show "status_of p' w = Crashed" unfolding p' by (simp add: on_worker_status)
  have r2: "plRequests p' = plRequests ?p2" using q by (simp add: quiet_def)
  show "\<forall>k. open_request p k \<longrightarrow> (if worker_of p k = w
      then rqOutcome (plRequests p' ! k) = Some (Failed Worker_crashed) \<and> \<not> open_request p' k else open_request p' k)"
    using F ks r2 by (auto simp: o1 open_request_def)
qed

lemma notice_inv:
  assumes inv: "pool_inv {} p" and call: "pool_callers p (Pl_notice now msg)"
  shows "pool_inv {} (handleSupervisorMessage c now msg p)"
proof (cases msg)
  case (Notice_crashed w rid)
  show ?thesis
  proof (cases "known_worker p w")
    case True
    then show ?thesis using call Notice_crashed inv unfolding handleSupervisorMessage_def
      by (auto simp: known_worker_def split: option.splits intro!: markWorkerCrashed_inv(1))
  qed (use inv Notice_crashed in \<open>simp add: handleSupervisorMessage_def\<close>)
next
  case (Notice_restarted w)
  then show ?thesis using inv
    by (auto simp: handleSupervisorMessage_def
        intro!: quiet_inv [OF quiet_trans [OF quiet_trans [OF quiet_clear quiet_on_worker] quiet_schedule]])
next
  case (Notice_ready w)
  then show ?thesis using inv
    by (auto simp: handleSupervisorMessage_def intro!: quiet_inv [OF quiet_trans [OF quiet_clear quiet_on_worker]])
qed (use inv in \<open>simp add: handleSupervisorMessage_def\<close>)

section \<open>Every event keeps the invariant\<close>

lemma pool_step_inv:
  assumes inv: "pool_inv {} p" and en: "pool_enabled p e" and call: "pool_callers p e"
  shows "pool_inv {} (pool_step c parse e p)"
proof (cases e)
  case (Pl_run now exists r stream)
  then show ?thesis using acquire_run_inv [OF inv] call by simp
next
  case (Pl_connected k)
  then show ?thesis using inv en by (auto intro!: on_request_inv)
next
  case (Pl_data k chunk)
  then show ?thesis using on_data_inv [OF inv] en by simp
next
  case (Pl_connect_timeout k)
  then show ?thesis using inv en by (auto intro!: destroy_inv on_request_inv)
next
  case (Pl_error k)
  then show ?thesis using handler_fails_inv [OF inv] en by simp
next
  case (Pl_close k)
  have "pool_inv {} (on_request k (\<lambda>r. r\<lparr>rqClosed := True\<rparr>) p)" using inv en Pl_close by (intro on_request_inv) simp_all
  then show ?thesis using en Pl_close by (auto simp: Let_def intro!: handler_fails_inv)
next
  case (Pl_cancel k)
  then show ?thesis using failInFlight_inv [OF inv] en by simp
next
  case (Pl_notice now msg)
  then show ?thesis using notice_inv [OF inv] call by simp
next
  case (Pl_probe_timer exists t)
  then show ?thesis using quiet_inv [OF probe_timer_quiet inv] by simp
next
  case (Pl_probe_answer now w alive)
  then show ?thesis using quiet_inv [OF probe_answer_quiet inv] by simp
next
  case (Pl_health now exists)
  then show ?thesis using quiet_inv [OF refresh_quiet inv] by (simp add: getHealth_def Let_def)
qed

lemma pool_init_inv: "pool_init c now n prefix = Inr p \<Longrightarrow> pool_inv {} p"
  by (auto simp: pool_init_def pool_inv_defs split: if_splits)

lemma reach_pool_inv: "pool_reach c parse p \<Longrightarrow> pool_inv {} p"
  by (induction rule: pool_reach.induct) (auto intro: pool_init_inv pool_step_inv)

section \<open>A promise settles once\<close>

text \<open>No event but a call changes the number or the ids of the requests, and none changes an outcome.\<close>

definition keeps :: "pool \<Rightarrow> pool \<Rightarrow> bool" where
  "keeps p p' \<longleftrightarrow> length (plRequests p') = length (plRequests p) \<and>
     (\<forall>k < length (plRequests p). rqId (plRequests p' ! k) = rqId (plRequests p ! k) \<and>
        (rqDone (plRequests p ! k) \<longrightarrow> rqDone (plRequests p' ! k) \<and> rqOutcome (plRequests p' ! k) = rqOutcome (plRequests p ! k)))"

lemma keeps_refl [simp]: "keeps p p"
  by (simp add: keeps_def)

lemma keeps_trans: "keeps p q \<Longrightarrow> keeps q r \<Longrightarrow> keeps p r"
  by (simp add: keeps_def)

lemma keeps_quiet: "quiet p p' \<Longrightarrow> keeps p p'"
  by (simp add: quiet_def keeps_def)

lemma keeps_request:
  assumes "k < length (plRequests p)" and "rqId (f (plRequests p ! k)) = rqId (plRequests p ! k)"
    and "rqDone (f (plRequests p ! k)) = rqDone (plRequests p ! k)" "rqOutcome (f (plRequests p ! k)) = rqOutcome (plRequests p ! k)"
  shows "keeps p (on_request k f p)"
  using assms by (simp add: keeps_def on_request_nth)

lemma keeps_settled:
  assumes "settled_by p k out p'" and "open_request p k"
  shows "keeps p p'"
proof -
  obtain r' where "plRequests p' = (plRequests p)[k := r']" "rqId r' = rqId (plRequests p ! k)"
    using assms(1) unfolding settled_by_def Let_def by blast
  with assms(2) show ?thesis by (auto simp: keeps_def open_request_def nth_list_update)
qed

lemma keeps_finalize:
  assumes k: "k < length (plRequests p)" and w: "worker_of p k < length (plWorkers p)"
  shows "keeps p (finalizeError c k e p)" and "keeps p (finish_result k rep p)"
proof -
  show "keeps p (finalizeError c k e p)"
  proof (cases "rqDone (plRequests p ! k)")
    case False
    then have o: "open_request p k" using k by (simp add: open_request_def)
    from keeps_settled [OF finalizeError_settles [OF o w] o] show ?thesis .
  qed (simp add: finalizeError_def)
  show "keeps p (finish_result k rep p)"
  proof (cases "rqDone (plRequests p ! k)")
    case False
    then have o: "open_request p k" using k by (simp add: open_request_def)
    from keeps_settled [OF finish_result_settles [OF o w] o] show ?thesis .
  qed (simp add: finish_result_def)
qed

lemma keeps_fails:
  assumes k: "k < length (plRequests p)" and w: "worker_of p k < length (plWorkers p)"
  shows "keeps p (failInFlight c k e p)" and "keeps p (handler_fails c k e p)"
proof -
  have "keeps p (destroy k p)" unfolding destroy_def using k by (rule keeps_request) simp_all
  moreover have "keeps (destroy k p) (finalizeError c k e (destroy k p))" using k w by (intro keeps_finalize) simp_all
  ultimately have f: "keeps p (finalizeError c k e (destroy k p))" by (rule keeps_trans)
  then show *: "keeps p (failInFlight c k e p)" by (simp add: failInFlight_def)
  show "keeps p (handler_fails c k e p)" using * keeps_finalize(1) [OF k w] by (simp add: handler_fails_def)
qed

lemma keeps_data:
  assumes k: "k < length (plRequests p)" and w: "worker_of p k < length (plWorkers p)"
  shows "keeps p (on_data c parse k chunk p)"
proof -
  obtain ts f rest where d: "drain parse (rqBuffer (plRequests p ! k) @ chunk) = (ts, f, rest)" by (cases rule: prod_cases3)
  let ?p = "on_request k (\<lambda>r. r\<lparr>rqBuffer := rest, rqTokens := rqTokens r @ (if rqStream r then ts else [])\<rparr>) p"
  have p: "keeps p ?p" using k by (rule keeps_request) simp_all
  have k': "k < length (plRequests ?p)" "worker_of ?p k < length (plWorkers ?p)" using k w by (simp_all add: on_request_nth)
  note steps = keeps_trans [OF p keeps_fails(2) [OF k']] keeps_trans [OF p keeps_finalize(2) [OF k']]
    keeps_trans [OF p keeps_quiet [OF quiet_other(3)]]
  show ?thesis unfolding on_data_def d Let_def prod.case by (auto split: option.split frame.split intro: p steps simp del: on_request_fields)
qed

lemma keeps_fold:
  assumes "\<forall>k \<in> set ks. k < length (plRequests p)" and "pool_inv X p"
  shows "keeps p (fold (\<lambda>k. failInFlight c k e) ks p)"
  using assms
proof (induction ks arbitrary: p)
  case (Cons k ks)
  have k: "k < length (plRequests p)" "worker_of p k < length (plWorkers p)" using Cons.prems inv_worker by auto
  have f: "keeps p (failInFlight c k e p)" by (rule keeps_fails(1) [OF k])
  have "\<forall>k \<in> set ks. k < length (plRequests (failInFlight c k0 e p))" if "k0 = k" for k0
    using Cons.prems(1) f that by (simp add: keeps_def)
  from keeps_trans [OF f Cons.IH [OF this failInFlight_inv [OF Cons.prems(2) k(1)]]] show ?case by simp
qed simp

lemma keeps_crashed:
  assumes inv: "pool_inv {} p" and w: "w < length (plWorkers p)"
  shows "keeps p (markWorkerCrashed c w rid p)"
proof -
  let ?p1 = "on_worker w (\<lambda>x. x\<lparr>wkStatus := Crashed\<rparr>) p"
  define ks where "ks = (case (case rid of None \<Rightarrow> None | Some r \<Rightarrow> if r = [] then None else map_of (plInFlight p) r) of
      Some k \<Rightarrow> [k] | None \<Rightarrow> filter (\<lambda>k. worker_of p k = w) (map snd (plInFlight p)))"
  let ?p2 = "fold (\<lambda>k. failInFlight c k Worker_crashed) ks ?p1"
  have d: "distinct (map fst (plInFlight p))" using inv by (simp add: pool_inv_def requests_ok_def)
  have "(r, k) \<in> set (plInFlight p) \<Longrightarrow> k < length (plRequests p)" for r k
    using inv map_of_is_SomeI [OF d, of r k] by (auto simp: pool_inv_def requests_ok_def open_request_def)
  then have "\<forall>k \<in> set ks. k < length (plRequests ?p1)"
    by (auto simp: ks_def dest!: map_of_SomeD split: option.splits if_splits)
  from keeps_fold [OF this crash_status_inv [OF inv w]] have "keeps ?p1 ?p2" .
  moreover have "keeps p ?p1" by (simp add: keeps_def)
  moreover have "keeps ?p2 (markWorkerCrashed c w rid p)"
    by (simp add: markWorkerCrashed_def ks_def [symmetric] Let_def keeps_def)
  ultimately show ?thesis by (meson keeps_trans)
qed

lemma keeps_notice:
  assumes inv: "pool_inv {} p"
  shows "keeps p (handleSupervisorMessage c now msg p)"
  using keeps_crashed [OF inv]
  by (cases msg) (auto simp: handleSupervisorMessage_def known_worker_def
      intro!: keeps_quiet quiet_trans [OF quiet_trans [OF quiet_clear quiet_on_worker] quiet_schedule] quiet_trans [OF quiet_clear quiet_on_worker])

lemma pool_step_keeps:
  assumes inv: "pool_inv {} p" and en: "pool_enabled p e" and no_run: "\<And>now exists r stream. e \<noteq> Pl_run now exists r stream"
  shows "keeps p (pool_step c parse e p)"
proof (cases e)
  case (Pl_connect_timeout k)
  then have k: "k < length (plRequests p)" using en by simp
  have "keeps p (on_request k (\<lambda>r. r\<lparr>rqConnTimer := False\<rparr>) p)" using k by (rule keeps_request) simp_all
  moreover have "keeps (on_request k (\<lambda>r. r\<lparr>rqConnTimer := False\<rparr>) p) (destroy k (on_request k (\<lambda>r. r\<lparr>rqConnTimer := False\<rparr>) p))"
    unfolding destroy_def by (rule keeps_request) (use k in simp_all)
  ultimately show ?thesis using Pl_connect_timeout by (simp add: keeps_trans)
next
  case (Pl_close k)
  then have k: "k < length (plRequests p)" using en by simp
  let ?p = "on_request k (\<lambda>r. r\<lparr>rqClosed := True\<rparr>) p"
  have p: "keeps p ?p" using k by (rule keeps_request) simp_all
  have "keeps ?p (handler_fails c k Worker_closed ?p)"
    using k inv_worker [OF inv k] by (intro keeps_fails(2)) (simp_all add: on_request_nth)
  with p Pl_close show ?thesis by (auto simp: Let_def intro: keeps_trans)
next
  case (Pl_run now exists r stream)
  with no_run show ?thesis by blast
qed (use en inv_worker [OF inv] keeps_notice [OF inv] keeps_quiet [OF probe_timer_quiet] keeps_quiet [OF probe_answer_quiet]
    keeps_quiet [OF refresh_quiet] in \<open>auto simp: getHealth_def Let_def intro: keeps_request keeps_data keeps_fails\<close>)

section \<open>Quarantine\<close>

lemma finalizeError_transport:
  assumes k: "open_request p k" and w: "worker_of p k < length (plWorkers p)" and e: "isTransportFailure e"
  shows "status_of (finalizeError c k e p) (worker_of p k) = Crashed"
proof -
  let ?q = "cleanup k (on_request k (\<lambda>r. r\<lparr>rqDone := True, rqOutcome := Some (Failed e)\<rparr>) p)"
  have "settled_by p k (Failed e) ?q" using k w by (intro cleanup_settles) (simp_all add: open_request_def)
  then have "worker_of p k < length (plWorkers ?q)" using w by (simp add: settled_by_def)
  from quarantine_status [OF this] show ?thesis using k e by (simp add: finalizeError_def open_request_def Let_def)
qed

lemma handler_transport:
  assumes k: "open_request p k" and w: "worker_of p k < length (plWorkers p)" and e: "isTransportFailure e"
  shows "status_of (handler_fails c k e p) (worker_of p k) = Crashed"
    and "rqOutcome (plRequests (handler_fails c k e p) ! k) = Some (Failed e)"
proof -
  have kl: "k < length (plRequests p)" using k by (simp add: open_request_def)
  have o: "open_request (destroy k p) k" using k by (simp add: open_request_def)
  have "worker_of (destroy k p) k < length (plWorkers (destroy k p))" using w kl by simp
  from finalizeError_transport [OF o this e, of c] finalizeError_transport [OF k w e, of c] kl k
  show "status_of (handler_fails c k e p) (worker_of p k) = Crashed"
    by (simp add: handler_fails_def failInFlight_def open_request_def)
  have "settled_by p k (Failed e) (finalizeError c k e p)" by (rule finalizeError_settles [OF k w])
  then have "rqOutcome (plRequests (finalizeError c k e p) ! k) = Some (Failed e)"
    by (simp add: settled_by_def Let_def)
  moreover have "rqOutcome (plRequests (failInFlight c k e p) ! k) = Some (Failed e)"
    using failInFlight_fails [OF kl w] k by (simp add: fails_to_def)
  ultimately show "rqOutcome (plRequests (handler_fails c k e p) ! k) = Some (Failed e)" by (simp add: handler_fails_def)
qed

lemma refresh_one_crashed: "status_of p w = Crashed \<Longrightarrow> status_of (refresh_one c now exists w' p) w = Crashed"
  by (cases "w' = w") (auto simp: refresh_one_def Let_def on_worker_def)

lemma fold_refresh_crashed: "status_of p w = Crashed \<Longrightarrow> status_of (fold (refresh_one c now exists) ws p) w = Crashed"
  by (induction ws arbitrary: p) (auto simp: refresh_one_crashed)

text \<open>The pool never offers a worker that is marked as crashed.\<close>

lemma acquire_not_crashed:
  assumes "status_of p w = Crashed"
  shows "fst (acquireWorker c now exists p) \<noteq> Inr w"
proof -
  let ?q = "refreshWorkerReadiness c now exists p"
  have crashed: "status_of ?q w = Crashed" using assms by (simp add: refreshWorkerReadiness_def fold_refresh_crashed)
  show ?thesis
  proof (cases "findIndex (\<lambda>x. wkStatus x = Ready) (plWorkers ?q)")
    case (Some v)
    from findIndex_SomeE [OF this] have "status_of ?q v = Ready" by fastforce
    with crashed Some show ?thesis by (auto simp: acquireWorker_def Let_def)
  qed (simp add: acquireWorker_def Let_def)
qed

end
