(* ===== verification/Api_Server.thy ===== *)
theory Api_Server
  imports Request_Registry Worker_Pool_Properties
begin

text \<open>
  \<^verbatim>\<open>api-server/routes/infer.js\<close>: the routes put the request registry in front of the worker pool. A request that the
  registry starts is handed to the pool by a continuation of its own (\<open>Sv_execute\<close>), since \<^verbatim>\<open>execute\<close> runs behind
  \<^verbatim>\<open>Promise.resolve()\<close>, and the registry learns of the end by another (\<open>Sv_settle\<close>). \<open>svTodo\<close> are the executions
  whose continuation has not run, \<open>svRefused\<close> those the pool had no worker for, and \<open>svBound\<close> says which request of the
  pool an execution became.
\<close>

section \<open>The routes\<close>

datatype http_error = Prompt_required | Request_in_flight | Err_worker_crashed | Err_no_ready_workers | Err_worker_unavailable

record http_answer =
  htStatus :: nat
  htError :: "http_error option"
  htRetryAfter :: "int option"
  htReply :: "worker_reply option"

text \<open>The answer of \<^verbatim>\<open>POST /infer\<close> once the promise has settled.\<close>

definition infer_answer :: "pool_outcome \<Rightarrow> http_answer" where
  "infer_answer out =
     (case out of
        Answered rep \<Rightarrow> \<lparr>htStatus = 200, htError = None, htRetryAfter = None, htReply = Some rep\<rparr>
      | Failed Worker_crashed \<Rightarrow> \<lparr>htStatus = 503, htError = Some Err_worker_crashed, htRetryAfter = Some 2, htReply = None\<rparr>
      | Failed No_ready_workers \<Rightarrow> \<lparr>htStatus = 503, htError = Some Err_no_ready_workers, htRetryAfter = Some 1, htReply = None\<rparr>
      | Failed _ \<Rightarrow> \<lparr>htStatus = 502, htError = Some Err_worker_unavailable, htRetryAfter = None, htReply = None\<rparr>)"

text \<open>The last event of \<^verbatim>\<open>GET /infer/stream\<close>: its headers are out by then, so an error is an event too.\<close>

datatype sse_end = Sse_done worker_reply | Sse_error http_error "int option"

definition stream_end :: "pool_outcome \<Rightarrow> sse_end" where
  "stream_end out =
     (case out of
        Answered rep \<Rightarrow> Sse_done rep
      | Failed Worker_crashed \<Rightarrow> Sse_error Err_worker_crashed (Some 2)
      | Failed _ \<Rightarrow> Sse_error Err_worker_unavailable None)"

record server =
  svRegistry :: "worker_reply registry"
  svPool :: pool
  svTodo :: "nat list"
  svRefused :: "nat list"
  svBound :: "nat \<Rightarrow> nat option"

datatype route_answer = Refused http_error nat | Replayed worker_reply | Awaits nat bool

text \<open>Sync part of the routes. \<open>Awaits k replay\<close> answers when execution \<open>k\<close> ends.\<close>

definition take_up :: "worker_reply run_answer \<times> worker_reply registry \<Rightarrow> server \<Rightarrow> route_answer \<times> server" where
  "take_up ans sv =
     (case ans of
        (Replay_completed rep, rg) \<Rightarrow> (Replayed rep, sv\<lparr>svRegistry := rg\<rparr>)
      | (Replay_inflight k, rg) \<Rightarrow> (Awaits k True, sv\<lparr>svRegistry := rg\<rparr>)
      | (Started k, rg) \<Rightarrow> (Awaits k False, sv\<lparr>svRegistry := rg, svTodo := svTodo sv @ [k]\<rparr>))"

definition sanitizePrompt :: "string option \<Rightarrow> string" where
  "sanitizePrompt v = (case v of None \<Rightarrow> [] | Some s \<Rightarrow> js_trim s)"

definition post_infer :: "int \<Rightarrow> int \<Rightarrow> string option \<Rightarrow> string \<Rightarrow> string \<Rightarrow> server \<Rightarrow> route_answer \<times> server" where
  "post_infer ttl now prompt r m sv =
     (if sanitizePrompt prompt = [] then (Refused Prompt_required 400, sv)
      else take_up (run_request ttl now r m False (svRegistry sv)) sv)"

definition get_stream :: "int \<Rightarrow> int \<Rightarrow> string option \<Rightarrow> string \<Rightarrow> string \<Rightarrow> server \<Rightarrow> route_answer \<times> server" where
  "get_stream ttl now prompt r m sv =
     (if sanitizePrompt prompt = [] then (Refused Prompt_required 400, sv)
      else
        (case lookup_request ttl now r (svRegistry sv) of
           (Lookup_inflight, rg) \<Rightarrow> (Refused Request_in_flight 409, sv\<lparr>svRegistry := rg\<rparr>)
         | (Lookup_completed rep, rg) \<Rightarrow> (Replayed rep, sv\<lparr>svRegistry := rg\<rparr>)
         | (Lookup_new, rg) \<Rightarrow> take_up (run_request ttl now r m True rg) (sv\<lparr>svRegistry := rg\<rparr>)))"

section \<open>The supervisor's line\<close>

text \<open>
  \<^verbatim>\<open>startSupervisorIpcListener\<close> of \<^verbatim>\<open>api-server/server.js\<close>: the notices in a chunk, of lines that parse, and what is
  left in the buffer. Each notice goes to the pool at once; the loop does not look at the pool.
\<close>

definition line_notices :: "(string \<Rightarrow> json option) \<Rightarrow> string list \<Rightarrow> notice list" where
  "line_notices parse ls =
     map notice_of (List.map_filter parse (filter (\<lambda>l. l \<noteq> []) (map js_trim ls)))"

definition on_supervisor_chunk ::
  "pool_config \<Rightarrow> int \<Rightarrow> (string \<Rightarrow> json option) \<Rightarrow> string \<Rightarrow> string \<times> pool \<Rightarrow> string \<times> pool" where
  "on_supervisor_chunk c now parse chunk bp =
     (case js_lines (fst bp @ chunk) of
        (ls, rest) \<Rightarrow> (rest, fold (handleSupervisorMessage c now) (line_notices parse ls) (snd bp)))"

lemma line_notices_append: "line_notices parse (xs @ ys) = line_notices parse xs @ line_notices parse ys"
  by (simp add: line_notices_def List.map_filter_def)

lemma supervisor_chunks:
  assumes "js_lines (fst bp) = ([], fst bp)"
  shows "fold (on_supervisor_chunk c now parse) chunks bp = on_supervisor_chunk c now parse (concat chunks) bp"
  using assms
proof (induction chunks arbitrary: bp)
  case Nil
  then show ?case by (simp add: on_supervisor_chunk_def line_notices_def List.map_filter_def)
next
  case (Cons ch chunks)
  obtain ls r where j: "js_lines (fst bp @ ch) = (ls, r)" by force
  have r: "js_lines r = ([], r)" using js_lines_rest [OF j] .
  obtain ls' r' where j': "js_lines (r @ concat chunks) = (ls', r')" by force
  have "js_lines (fst bp @ ch @ concat chunks) = (ls @ ls', r')"
    using js_lines_append [of "fst bp @ ch" "concat chunks"] j j' by simp
  then show ?case
    using Cons.IH [of "on_supervisor_chunk c now parse ch bp"] r j j'
    by (simp add: on_supervisor_chunk_def line_notices_append)
qed

section \<open>The event loop\<close>

text \<open>\<^verbatim>\<open>execute()\<close> of execution \<open>k\<close>: the pool takes a worker, or throws.\<close>

definition start_execution :: "pool_config \<Rightarrow> int \<Rightarrow> (nat \<Rightarrow> bool) \<Rightarrow> bool \<Rightarrow> nat \<Rightarrow> server \<Rightarrow> server" where
  "start_execution c now exists stream k sv =
     (let sv1 = sv\<lparr>svTodo := remove1 k (svTodo sv)\<rparr>
      in case run_inference c now exists (exRequestId (rgExecs (svRegistry sv) ! k)) stream (svPool sv) of
           (Inl e, p) \<Rightarrow> sv1\<lparr>svPool := p, svRefused := svRefused sv @ [k]\<rparr>
         | (Inr q, p) \<Rightarrow> sv1\<lparr>svPool := p, svBound := (svBound sv)(k \<mapsto> q)\<rparr>)"

text \<open>The continuation in the registry after the promise of \<open>k\<close> settled.\<close>

definition ended :: "server \<Rightarrow> nat \<Rightarrow> pool_outcome option" where
  "ended sv k =
     (if k \<in> set (svRefused sv) then Some (Failed No_ready_workers)
      else case svBound sv k of None \<Rightarrow> None | Some q \<Rightarrow> rqOutcome (plRequests (svPool sv) ! q))"

definition settle_execution :: "int \<Rightarrow> nat \<Rightarrow> server \<Rightarrow> server" where
  "settle_execution now k sv =
     (case ended sv k of
        None \<Rightarrow> sv
      | Some (Answered rep) \<Rightarrow> sv\<lparr>svRegistry := execution_done now k rep (svRegistry sv)\<rparr>
      | Some (Failed e) \<Rightarrow> sv\<lparr>svRegistry := execution_failed now k (svRegistry sv)\<rparr>)"

datatype sv_event =
    Sv_infer "string option" string string
  | Sv_stream "string option" string string
  | Sv_execute "nat \<Rightarrow> bool" bool nat
  | Sv_settle nat
  | Sv_write "worker_reply rg_event"
  | Sv_pool pool_event

text \<open>The events of the pool that are not calls of the routes; the supervisor's notices name no request.\<close>

fun from_outside :: "pool_event \<Rightarrow> bool" where
  "from_outside (Pl_run now exists r stream) \<longleftrightarrow> False"
| "from_outside (Pl_notice now (Notice_crashed w rid)) \<longleftrightarrow> rid = None"
| "from_outside e \<longleftrightarrow> True"

fun writer_event :: "worker_reply rg_event \<Rightarrow> bool" where
  "writer_event (Rg_temp_written ok) \<longleftrightarrow> True"
| "writer_event (Rg_renamed ok) \<longleftrightarrow> True"
| "writer_event Rg_snapshot \<longleftrightarrow> True"
| "writer_event e \<longleftrightarrow> False"

definition exec_open :: "server \<Rightarrow> nat \<Rightarrow> bool" where
  "exec_open sv k \<longleftrightarrow> k < length (rgExecs (svRegistry sv)) \<and> exOutcome (rgExecs (svRegistry sv) ! k) = None"

fun sv_enabled :: "server \<Rightarrow> sv_event \<Rightarrow> bool" where
  "sv_enabled sv (Sv_execute exists stream k) \<longleftrightarrow> k \<in> set (svTodo sv)"
| "sv_enabled sv (Sv_settle k) \<longleftrightarrow> exec_open sv k \<and> ended sv k \<noteq> None"
| "sv_enabled sv (Sv_write e) \<longleftrightarrow> writer_event e \<and> rg_enabled (svRegistry sv) e"
| "sv_enabled sv (Sv_pool e) \<longleftrightarrow> from_outside e \<and> pool_enabled (svPool sv) e"
| "sv_enabled sv e \<longleftrightarrow> True"

fun sv_step :: "pool_config \<Rightarrow> (string \<Rightarrow> frame) \<Rightarrow> int \<Rightarrow> int \<Rightarrow> sv_event \<Rightarrow> server \<Rightarrow> server" where
  "sv_step c parse ttl now (Sv_infer prompt r m) sv = snd (post_infer ttl now prompt r m sv)"
| "sv_step c parse ttl now (Sv_stream prompt r m) sv = snd (get_stream ttl now prompt r m sv)"
| "sv_step c parse ttl now (Sv_execute exists stream k) sv = start_execution c now exists stream k sv"
| "sv_step c parse ttl now (Sv_settle k) sv = settle_execution now k sv"
| "sv_step c parse ttl now (Sv_write e) sv = sv\<lparr>svRegistry := rg_step ttl now e (svRegistry sv)\<rparr>"
| "sv_step c parse ttl now (Sv_pool e) sv = sv\<lparr>svPool := pool_step c parse e (svPool sv)\<rparr>"

inductive sv_reach :: "pool_config \<Rightarrow> (string \<Rightarrow> frame) \<Rightarrow> int \<Rightarrow> int \<Rightarrow> server \<Rightarrow> bool" for c parse ttl where
  init: "pool_init c now n prefix = Inr p \<Longrightarrow> sv_reach c parse ttl now
    \<lparr>svRegistry = registry_init now f, svPool = p, svTodo = [], svRefused = [], svBound = Map.empty\<rparr>"
| step: "sv_reach c parse ttl t sv \<Longrightarrow> t \<le> now \<Longrightarrow> sv_enabled sv e \<Longrightarrow> sv_reach c parse ttl now (sv_step c parse ttl now e sv)"

section \<open>The invariant\<close>

text \<open>
  Every open request of the pool belongs to an open execution of the registry with the same id, and every open
  execution waits for its continuation, was refused, or became a request.
\<close>

definition bound_ok :: "server \<Rightarrow> bool" where
  "bound_ok sv \<longleftrightarrow>
     (\<forall>q. open_request (svPool sv) q \<longrightarrow> (\<exists>k. svBound sv k = Some q \<and> exec_open sv k \<and>
        exRequestId (rgExecs (svRegistry sv) ! k) = rqId (plRequests (svPool sv) ! q))) \<and>
     (\<forall>k q. svBound sv k = Some q \<longrightarrow> q < length (plRequests (svPool sv)) \<and> k < length (rgExecs (svRegistry sv))) \<and>
     distinct (svTodo sv) \<and>
     (\<forall>k \<in> set (svTodo sv). exec_open sv k \<and> svBound sv k = None \<and> k \<notin> set (svRefused sv)) \<and>
     (\<forall>k. exec_open sv k \<longrightarrow> k \<in> set (svTodo sv) \<or> k \<in> set (svRefused sv) \<or> svBound sv k \<noteq> None) \<and>
     (\<forall>k \<in> set (svRefused sv). svBound sv k = None \<and> k < length (rgExecs (svRegistry sv)))"

definition sv_inv :: "int \<Rightarrow> server \<Rightarrow> bool" where
  "sv_inv now sv \<longleftrightarrow> rg_inv now (svRegistry sv) \<and> pool_inv {} (svPool sv) \<and> bound_ok sv"

lemma run_request_execs:
  "rgExecs (snd (run_request ttl now r m stream rg)) =
     rgExecs rg @ (case fst (run_request ttl now r m stream rg) of Started k \<Rightarrow> [\<lparr>exRequestId = r, exOutcome = None\<rparr>] | _ \<Rightarrow> [])"
  and run_request_started: "fst (run_request ttl now r m stream rg) = Started k \<Longrightarrow> k = length (rgExecs rg)"
  by (auto simp: run_request_def Let_def split: option.splits)

text \<open>Taking a request up adds at most one open execution, which waits for its continuation.\<close>

lemma take_up_bound:
  assumes ok: "bound_ok sv"
  shows "bound_ok (snd (take_up (run_request ttl now r m stream (svRegistry sv)) sv))"
proof -
  let ?run = "run_request ttl now r m stream (svRegistry sv)"
  show ?thesis
  proof (cases "fst ?run")
    case (Started k)
    let ?execs = "rgExecs (svRegistry sv)"
    have k: "k = length ?execs" using run_request_started [OF Started] .
    have e: "rgExecs (snd ?run) = ?execs @ [\<lparr>exRequestId = r, exOutcome = None\<rparr>]"
      using run_request_execs [of ttl now r m stream "svRegistry sv"] Started by simp
    let ?sv = "sv\<lparr>svRegistry := snd ?run, svTodo := svTodo sv @ [k]\<rparr>"
    have eq: "snd (take_up ?run sv) = ?sv" using Started by (cases ?run) (simp add: take_up_def)
    have o: "exec_open ?sv j \<longleftrightarrow> exec_open sv j \<or> j = k" for j
      by (auto simp: exec_open_def e k nth_append less_Suc_eq)
    have i: "exec_open sv j \<Longrightarrow> exRequestId ((?execs @ [\<lparr>exRequestId = r, exOutcome = None\<rparr>]) ! j) = exRequestId (?execs ! j)" for j
      by (simp add: exec_open_def nth_append)
    have b: "svBound sv k = None" "k \<notin> set (svTodo sv)" "k \<notin> set (svRefused sv)"
      using ok unfolding k bound_ok_def exec_open_def by (metis not_None_eq less_irrefl)+
    have "\<exists>j. svBound sv j = Some q \<and> exec_open ?sv j \<and> exRequestId (rgExecs (snd ?run) ! j) = rqId (plRequests (svPool sv) ! q)"
      if "open_request (svPool sv) q" for q
      using ok that i o unfolding bound_ok_def e by metis
    with ok b show ?thesis unfolding eq bound_ok_def o
      by (auto simp: e less_Suc_eq)
  qed (use ok run_request_execs [of ttl now r m stream "svRegistry sv"] in
      \<open>cases ?run; simp add: take_up_def bound_ok_def exec_open_def\<close>)+
qed

lemma lookup_same: "rgExecs (snd (lookup_request ttl now r rg)) = rgExecs rg"
  by (simp add: lookup_request_def Let_def)

lemma lookup_bound: "bound_ok sv \<Longrightarrow> bound_ok (sv\<lparr>svRegistry := snd (lookup_request ttl now r (svRegistry sv))\<rparr>)"
  by (simp add: bound_ok_def exec_open_def lookup_same)

lemma open_ids_unique:
  assumes ids: "rg_ids rg" and k: "k < length (rgExecs rg)" "exOutcome (rgExecs rg ! k) = None"
    and j: "j < length (rgExecs rg)" "exOutcome (rgExecs rg ! j) = None"
    and same: "exRequestId (rgExecs rg ! k) = exRequestId (rgExecs rg ! j)"
  shows "k = j"
proof (rule ccontr)
  assume ne: "k \<noteq> j"
  let ?xs = "rgExecs rg"
  have "distinct (map fst (rgInflight rg))" using ids by (simp add: rg_ids_def)
  then have d: "distinct (open_ids ?xs)" using ids mset_eq_imp_distinct_iff by (metis rg_ids_def)
  let ?ys = "?xs[k := (?xs ! k)\<lparr>exOutcome := Some None\<rparr>]"
  have m: "mset (open_ids ?xs) = add_mset (exRequestId (?xs ! k)) (mset (open_ids ?ys))"
    unfolding open_ids_def by (rule filter_update_leave) (use k in auto)
  have "?xs ! j \<in> set ?ys" using j(1) ne by (metis length_list_update nth_list_update_neq nth_mem)
  then have "exRequestId (?xs ! j) \<in> set (open_ids ?ys)" using j(2) by (auto simp: open_ids_def)
  then have "2 \<le> count (mset (open_ids ?xs)) (exRequestId (?xs ! k))"
    unfolding m same by (simp add: Suc_le_eq)
  with d show False using distinct_count_atmost_1 [of "open_ids ?xs"] by (auto split: if_splits)
qed

lemma execute_inv:
  assumes rg: "rg_inv t (svRegistry sv)" and pl: "pool_inv {} (svPool sv)" and ok: "bound_ok sv" and k: "k \<in> set (svTodo sv)"
  shows "pool_inv {} (svPool (start_execution c now exists stream k sv))" and "bound_ok (start_execution c now exists stream k sv)"
proof -
  let ?p = "svPool sv" and ?rg = "svRegistry sv"
  let ?r = "exRequestId (rgExecs ?rg ! k)"
  let ?run = "run_inference c now exists ?r stream ?p"
  have ko: "exec_open sv k" and kn: "svBound sv k = None" "k \<notin> set (svRefused sv)" using ok k by (auto simp: bound_ok_def)
  have ids: "rg_ids ?rg" using rg by (simp add: rg_inv_def)
  have fresh: "?r \<notin> fst ` set (plInFlight ?p)"
  proof
    assume "?r \<in> fst ` set (plInFlight ?p)"
    then obtain q where "map_of (plInFlight ?p) ?r = Some q" by (metis image_set map_of_eq_None_iff not_Some_eq set_map)
    then have q: "open_request ?p q" "rqId (plRequests ?p ! q) = ?r" using pl by (auto simp: pool_inv_def requests_ok_def)
    then obtain j where j: "svBound sv j = Some q" "exec_open sv j" "exRequestId (rgExecs ?rg ! j) = ?r"
      using ok by (auto simp: bound_ok_def)
    then have "k = j" using ko by (intro open_ids_unique [OF ids]) (auto simp: exec_open_def)
    with j kn show False by simp
  qed
  have inv': "pool_inv {} (snd ?run)" by (rule acquire_run_inv [OF pl fresh])
  then show "pool_inv {} (svPool (start_execution c now exists stream k sv))"
    by (cases ?run) (auto simp: start_execution_def Let_def split: sum.split)
  have d: "set (remove1 k (svTodo sv)) = set (svTodo sv) - {k}" "distinct (remove1 k (svTodo sv))"
    using ok by (simp_all add: bound_ok_def)
  let ?q = "refreshWorkerReadiness c now exists ?p"
  have rq: "plRequests ?q = plRequests ?p" using refresh_quiet [of ?p c now exists] by (simp add: quiet_def)
  show "bound_ok (start_execution c now exists stream k sv)"
  proof (cases "findIndex (\<lambda>x. wkStatus x = Ready) (plWorkers ?q)")
    case None
    then have run: "?run = (Inl No_ready_workers, ?q)" by (simp add: run_inference_def acquireWorker_def Let_def)
    let ?sv = "sv\<lparr>svTodo := remove1 k (svTodo sv), svPool := ?q, svRefused := svRefused sv @ [k]\<rparr>"
    have eq: "start_execution c now exists stream k sv = ?sv" unfolding start_execution_def run by (simp add: Let_def)
    have o: "exec_open ?sv = exec_open sv" "open_request ?q = open_request ?p" by (simp_all add: exec_open_def open_request_def rq fun_eq_iff)
    show ?thesis using ok d kn ko unfolding eq bound_ok_def o by (auto simp: rq o exec_open_def)
  next
    case (Some w)
    let ?n = "length (plRequests ?p)"
    have run: "fst ?run = Inr ?n" and reqs: "\<exists>x. plRequests (snd ?run) = plRequests ?p @ [x] \<and> rqId x = ?r"
      using Some by (simp_all add: run_inference_def acquireWorker_def Let_def rq)
    obtain x where x: "plRequests (snd ?run) = plRequests ?p @ [x]" "rqId x = ?r" using reqs by blast
    let ?sv = "sv\<lparr>svTodo := remove1 k (svTodo sv), svPool := snd ?run, svBound := (svBound sv)(k \<mapsto> ?n)\<rparr>"
    have eq: "start_execution c now exists stream k sv = ?sv"
      using run by (cases ?run) (simp add: start_execution_def Let_def)
    have o: "exec_open ?sv = exec_open sv" by (simp add: exec_open_def fun_eq_iff)
    have "\<exists>j. svBound ?sv j = Some q \<and> exec_open sv j \<and>
        exRequestId (rgExecs ?rg ! j) = rqId (plRequests (snd ?run) ! q)" if "open_request (snd ?run) q" for q
    proof (cases "q = ?n")
      case True
      with x ko show ?thesis by (intro exI [of _ k]) simp
    next
      case False
      with that x have q: "open_request ?p q" "plRequests (snd ?run) ! q = plRequests ?p ! q"
        by (auto simp: open_request_def nth_append)
      then obtain j where "svBound sv j = Some q" "exec_open sv j" "exRequestId (rgExecs ?rg ! j) = rqId (plRequests ?p ! q)"
        using ok by (auto simp: bound_ok_def)
      with q kn show ?thesis by (intro exI [of _ j]) auto
    qed
    then show ?thesis using ok d kn ko unfolding eq bound_ok_def o
      by (auto simp: x less_Suc_eq exec_open_def)
  qed
qed

lemma settle_inv:
  assumes rg: "rg_inv t (svRegistry sv)" and now: "t \<le> now" and ok: "bound_ok sv" and pl: "pool_inv {} (svPool sv)"
    and k: "exec_open sv k" "ended sv k \<noteq> None"
  shows "rg_inv now (svRegistry (settle_execution now k sv))" and "bound_ok (settle_execution now k sv)"
proof -
  let ?rg = "svRegistry sv"
  have kk: "k < length (rgExecs ?rg)" "exOutcome (rgExecs ?rg ! k) = None" using k(1) by (simp_all add: exec_open_def)
  show "rg_inv now (svRegistry (settle_execution now k sv))"
    using done_inv [OF rg now kk] k(2) by (auto simp: settle_execution_def split: option.split pool_outcome.split)
  obtain rg' out where eq: "settle_execution now k sv = sv\<lparr>svRegistry := rg'\<rparr>"
    and ex: "rgExecs rg' = (rgExecs ?rg)[k := (rgExecs ?rg ! k)\<lparr>exOutcome := Some out\<rparr>]"
  proof (cases "the (ended sv k)")
    case (Answered rep)
    with k(2) show thesis
      by (intro that [of "execution_done now k rep ?rg" "Some rep"]) (auto simp: settle_execution_def execution_done_def Let_def)
  next
    case (Failed e)
    with k(2) show thesis
      by (intro that [of "execution_failed now k ?rg" None]) (auto simp: settle_execution_def execution_failed_def Let_def)
  qed
  let ?sv = "sv\<lparr>svRegistry := rg'\<rparr>"
  have o: "exec_open ?sv j \<longleftrightarrow> exec_open sv j \<and> j \<noteq> k" for j
    using kk by (auto simp: exec_open_def ex nth_list_update)
  have i: "exRequestId (rgExecs rg' ! j) = exRequestId (rgExecs ?rg ! j)" for j
    using kk by (cases "j = k") (simp_all add: ex)
  have nt: "k \<notin> set (svTodo sv)"
  proof
    assume "k \<in> set (svTodo sv)"
    then have "svBound sv k = None" "k \<notin> set (svRefused sv)" using ok by (auto simp: bound_ok_def)
    with k(2) show False by (simp add: ended_def)
  qed
  have closed: "\<not> open_request (svPool sv) q" if "svBound sv k = Some q" for q
  proof -
    have "k \<notin> set (svRefused sv)" using ok that by (auto simp: bound_ok_def)
    then have "rqOutcome (plRequests (svPool sv) ! q) \<noteq> None" using k(2) that by (simp add: ended_def)
    moreover have "q < length (plRequests (svPool sv))" using ok that by (auto simp: bound_ok_def)
    ultimately show ?thesis using pl by (simp add: open_request_def pool_inv_def requests_ok_def)
  qed
  have "\<exists>j. svBound sv j = Some q \<and> exec_open ?sv j \<and> exRequestId (rgExecs rg' ! j) = rqId (plRequests (svPool sv) ! q)"
    if q: "open_request (svPool sv) q" for q
  proof -
    obtain j where j: "svBound sv j = Some q" "exec_open sv j" "exRequestId (rgExecs ?rg ! j) = rqId (plRequests (svPool sv) ! q)"
      using ok q by (auto simp: bound_ok_def)
    then have "j \<noteq> k" using closed q by auto
    with j o i show ?thesis by auto
  qed
  then show "bound_ok (settle_execution now k sv)"
    using ok nt unfolding eq bound_ok_def o by (auto simp: ex)
qed

lemma writer_execs: "writer_event e \<Longrightarrow> rgExecs (rg_step ttl now e rg) = rgExecs rg"
  by (cases e) (auto simp: temp_written_def renamed_def registry_snapshot_def Let_def split: writer.split)

lemma outside_bound:
  assumes ok: "bound_ok sv" and pl: "pool_inv {} (svPool sv)" and e: "from_outside e" "pool_enabled (svPool sv) e"
  shows "bound_ok (sv\<lparr>svPool := pool_step c parse e (svPool sv)\<rparr>)"
proof -
  let ?p = "pool_step c parse e (svPool sv)"
  have "keeps (svPool sv) ?p" by (rule pool_step_keeps [OF pl e(2)]) (use e(1) in auto)
  then have l: "length (plRequests ?p) = length (plRequests (svPool sv))"
    and q: "open_request ?p q \<Longrightarrow> open_request (svPool sv) q \<and> rqId (plRequests ?p ! q) = rqId (plRequests (svPool sv) ! q)" for q
    by (auto simp: keeps_def open_request_def)
  have o: "exec_open (sv\<lparr>svPool := ?p\<rparr>) = exec_open sv" by (simp add: exec_open_def fun_eq_iff)
  have "\<exists>k. svBound sv k = Some j \<and> exec_open sv k \<and> exRequestId (rgExecs (svRegistry sv) ! k) = rqId (plRequests ?p ! j)"
    if "open_request ?p j" for j
    using ok q [OF that] by (simp add: bound_ok_def)
  then show ?thesis using ok l unfolding bound_ok_def o by simp
qed

lemma outside_callers: "from_outside e \<Longrightarrow> pool_callers p e"
  by (cases e) (auto elim!: from_outside.elims)

lemma post_infer_inv:
  assumes inv: "sv_inv t sv" and now: "t \<le> now"
  shows "sv_inv now (snd (take_up (run_request ttl now r m stream (svRegistry sv)) sv))"
proof -
  let ?run = "run_request ttl now r m stream (svRegistry sv)"
  have "rg_inv now (snd ?run)" using inv now by (intro run_inv) (simp_all add: sv_inv_def)
  moreover have "svRegistry (snd (take_up ?run sv)) = snd ?run" "svPool (snd (take_up ?run sv)) = svPool sv"
    by (cases ?run; simp add: take_up_def split: run_answer.split)+
  ultimately show ?thesis using inv take_up_bound [of sv ttl now r m stream] by (simp add: sv_inv_def)
qed

lemma rg_inv_later: "rg_inv t rg \<Longrightarrow> t \<le> now \<Longrightarrow> rg_inv now rg"
  by (force simp: rg_inv_def rg_sorted_def)

lemma sv_step_inv:
  assumes inv: "sv_inv t sv" and now: "t \<le> now" and en: "sv_enabled sv e"
  shows "sv_inv now (sv_step c parse ttl now e sv)"
proof (cases e)
  case (Sv_infer prompt r m)
  moreover have "sv_inv now sv" using inv rg_inv_later [of t "svRegistry sv" now] now by (simp add: sv_inv_def)
  ultimately show ?thesis using post_infer_inv [OF inv now] by (simp add: post_infer_def)
next
  case (Sv_stream prompt r m)
  let ?sv = "sv\<lparr>svRegistry := snd (lookup_request ttl now r (svRegistry sv))\<rparr>"
  have l: "sv_inv now ?sv"
    using inv now rg_step_inv [of t "svRegistry sv" now "Rg_lookup r" ttl] lookup_bound [of sv ttl now r] by (simp add: sv_inv_def)
  have "sv_inv now (snd (take_up (run_request ttl now r m True (svRegistry ?sv)) ?sv))" by (rule post_infer_inv [OF l order_refl])
  moreover have "sv_inv now sv" using inv rg_inv_later [of t "svRegistry sv" now] now by (simp add: sv_inv_def)
  ultimately show ?thesis using l Sv_stream
    by (cases "lookup_request ttl now r (svRegistry sv)") (auto simp: get_stream_def split: lookup_answer.split)
next
  case (Sv_execute exists stream k)
  then show ?thesis using execute_inv [of t sv k c now exists stream] inv en now rg_inv_later
    by (cases "run_inference c now exists (exRequestId (rgExecs (svRegistry sv) ! k)) stream (svPool sv)")
      (auto simp: sv_inv_def start_execution_def Let_def split: sum.splits)
next
  case (Sv_settle k)
  then show ?thesis using settle_inv [of t sv now k] inv en now
    by (auto simp: sv_inv_def settle_execution_def split: option.splits pool_outcome.splits)
next
  case (Sv_write w)
  then show ?thesis using inv en rg_step_inv [of t "svRegistry sv" now w ttl] now writer_execs [of w ttl now "svRegistry sv"]
    by (simp add: sv_inv_def bound_ok_def exec_open_def)
next
  case (Sv_pool w)
  then show ?thesis using inv en now pool_step_inv [OF _ _ outside_callers] outside_bound [of sv w c parse] rg_inv_later
    by (auto simp: sv_inv_def)
qed

lemma reach_sv_inv: "sv_reach c parse ttl now sv \<Longrightarrow> sv_inv now sv"
proof (induction rule: sv_reach.induct)
  case (init now n prefix p f)
  have "rgExecs (registry_init now f :: worker_reply registry) = []" by (simp add: registry_init_def)
  moreover have "rg_inv now (registry_init now f :: worker_reply registry)"
    by (rule reach_rg_inv [OF rg_reach.init [of "\<lambda>_. True" 0]])
  ultimately show ?case using pool_init_inv [OF init] init
    by (auto simp: sv_inv_def bound_ok_def exec_open_def open_request_def pool_init_def split: if_splits)
qed (rule sv_step_inv)

section \<open>The theorems\<close>

definition demo_pool_config :: pool_config where
  "demo_pool_config = \<lparr>pcRecoveryMs = 2000, pcRecoveryAttempts = 10, pcStartupGraceMs = 15000, pcConnectTimeoutMs = 3000\<rparr>"

definition no_frames :: "string \<Rightarrow> frame" where
  "no_frames line = Fr_bad"

definition demo_server0 :: server where
  "demo_server0 = \<lparr>svRegistry = registry_init 1000 None,
     svPool = (case pool_init demo_pool_config 1000 1 ''/tmp/w'' of Inr p \<Rightarrow> p
       | Inl _ \<Rightarrow> \<lparr>plWorkers = [], plInFlight = [], plRequests = [], plTimers = [], plNextTimer = 0, plProbes = [], plThrown = False\<rparr>),
     svTodo = [], svRefused = [], svBound = Map.empty\<rparr>"

definition demo_server1 :: server where
  "demo_server1 = sv_step demo_pool_config no_frames 300000 2000 (Sv_infer (Some ''hi'') ''r1'' ''qa'') demo_server0"

text \<open>One request, which holds the only worker.\<close>

definition demo_server :: server where
  "demo_server = sv_step demo_pool_config no_frames 300000 2000 (Sv_execute (\<lambda>_. True) False 0) demo_server1"

lemma demo_server_reach: "sv_reach demo_pool_config no_frames 300000 2000 demo_server"
proof -
  have "\<exists>p. pool_init demo_pool_config 1000 1 ''/tmp/w'' = Inr p" by (simp add: pool_init_def demo_pool_config_def)
  then have 0: "sv_reach demo_pool_config no_frames 300000 1000 demo_server0"
    unfolding demo_server0_def by (auto intro: sv_reach.init)
  have 1: "sv_reach demo_pool_config no_frames 300000 2000 demo_server1"
    unfolding demo_server1_def by (rule sv_reach.step [OF 0]) simp_all
  have "0 \<in> set (svTodo demo_server1)" by code_simp
  then show ?thesis unfolding demo_server_def by (intro sv_reach.step [OF 1]) simp_all
qed

lemma demo_server_parts:
  "open_request (svPool demo_server) 0 \<and> svBound demo_server 0 = Some 0 \<and> exec_open demo_server 0
   \<and> worker_of (svPool demo_server) 0 = 0 \<and> length (plWorkers (svPool demo_server)) = 1"
  by code_simp

text \<open>C5: A worker never serves two requests at a time, whatever ids the clients send and repeat and whatever crashes: an
  open request's worker is busy with it and with no other.
\<close>

theorem worker_is_never_shared:
  assumes "sv_reach c parse ttl now sv" and "open_request (svPool sv) q" and "open_request (svPool sv) q'"
  shows "status_of (svPool sv) (worker_of (svPool sv) q) = Busy \<and>
    (worker_of (svPool sv) q = worker_of (svPool sv) q' \<longleftrightarrow> q = q')"
  using reach_sv_inv [OF assms(1)] assms(2,3) by (auto simp: sv_inv_def pool_inv_def serving_ok_def)

theorem worker_is_never_shared_witness: "status_of (svPool demo_server) (worker_of (svPool demo_server) 0) = Busy"
  using worker_is_never_shared [OF demo_server_reach, of 0 0] demo_server_parts by simp

text \<open>C16: When the supervisor reports that a worker crashed, the request it was serving is answered with
  \<^verbatim>\<open>worker_crashed\<close>, requests on other workers go on, and once the registry has taken note the same id is executed
  anew instead of being answered with the failure.
\<close>

theorem crash_notice_frees_the_request:
  assumes "sv_reach c parse ttl t sv" and "exec_open sv k" and "svBound sv k = Some q" and "open_request (svPool sv) q"
    and "w < length (plWorkers (svPool sv))"
  shows "let sv' = sv_step c parse ttl now (Sv_pool (Pl_notice now (Notice_crashed (int w) None))) sv in
    if worker_of (svPool sv) q = w
    then ended sv' k = Some (Failed Worker_crashed) \<and> sv_enabled sv' (Sv_settle k) \<and>
      fst (run_request ttl later (exRequestId (rgExecs (svRegistry sv) ! k)) m stream
        (svRegistry (sv_step c parse ttl later (Sv_settle k) sv'))) = Started (length (rgExecs (svRegistry sv)))
    else open_request (svPool sv') q"
proof -
  have inv: "sv_inv t sv" by (rule reach_sv_inv [OF assms(1)])
  have pl: "pool_inv {} (svPool sv)" and ok: "bound_ok sv" and ids: "rg_ids (svRegistry sv)"
    using inv by (simp_all add: sv_inv_def rg_inv_def)
  let ?sv = "sv\<lparr>svPool := markWorkerCrashed c w None (svPool sv)\<rparr>"
  have step: "sv_step c parse ttl now (Sv_pool (Pl_notice now (Notice_crashed (int w) None))) sv = ?sv"
    using assms(5) by (simp add: handleSupervisorMessage_def known_worker_def)
  have m: "if worker_of (svPool sv) q = w
      then rqOutcome (plRequests (svPool ?sv) ! q) = Some (Failed Worker_crashed) \<and> \<not> open_request (svPool ?sv) q
      else open_request (svPool ?sv) q"
    using markWorkerCrashed_inv(3) [OF pl assms(5), of None c] assms(4) by simp
  show ?thesis
  proof (cases "worker_of (svPool sv) q = w")
    case False
    with m show ?thesis unfolding step Let_def by simp
  next
    case True
    have nr: "k \<notin> set (svRefused sv)" using ok assms(3) by (auto simp: bound_ok_def)
    then have e: "ended ?sv k = Some (Failed Worker_crashed)" using m True assms(3) by (simp add: ended_def)
    have k: "k < length (rgExecs (svRegistry sv))" "exOutcome (rgExecs (svRegistry sv) ! k) = None"
      using assms(2) by (simp_all add: exec_open_def)
    have o: "exec_open ?sv k" using assms(2) by (simp add: exec_open_def)
    have "svRegistry (sv_step c parse ttl later (Sv_settle k) ?sv) = execution_failed later k (svRegistry sv)"
      by (simp add: settle_execution_def e)
    then show ?thesis unfolding step Let_def using True e o failed_is_started [OF ids k] by simp
  qed
qed

theorem crash_notice_frees_the_request_witness:
  "ended (sv_step demo_pool_config no_frames 300000 3000 (Sv_pool (Pl_notice 3000 (Notice_crashed 0 None))) demo_server) 0 =
     Some (Failed Worker_crashed)"
  using crash_notice_frees_the_request [OF demo_server_reach, of 0 0 0 3000] demo_server_parts
  by (simp add: Let_def del: sv_step.simps)



section \<open>A frame that is no object\<close>

text \<open>A line \<^verbatim>\<open>null\<close> parses, and reading its \<^verbatim>\<open>type\<close> throws in the event handler.\<close>

lemma null_frame_ends_the_process:
  assumes "parse ''null'' = Fr_null" and "rqBuffer (plRequests p ! k) = []"
  shows "plThrown (pool_step c parse (Pl_data k (''null'' @ [newline])) p)"
proof -
  have "js_trim ''null'' = ''null''" by (simp add: js_trim_def trim_start_def trim_end_def is_space_def)
  then have "drain parse (''null'' @ [newline]) = ([], Some Fr_null, [])"
    using assms(1) by (simp add: drain.simps)
  then show ?thesis using assms(2) by (simp add: on_data_def Let_def)
qed

end
