(* ===== verification/Worker_Count.thy ===== *)
theory Worker_Count
  imports Worker_Pool
begin

text \<open>
  \<^verbatim>\<open>api-server/workerCountSource.js\<close>: how many workers the API server's pool has. \<^verbatim>\<open>EDGE_WORKER_COUNT\<close> is a ceiling and
  the supervisor publishes the count it could place in the model config file. The answer of \<^verbatim>\<open>readFileSync\<close> is the
  argument \<open>file\<close> and \<^verbatim>\<open>JSON.parse\<close> the argument \<open>parse\<close>; its values are the datatype \<open>json\<close>.
\<close>

section \<open>Data\<close>

datatype js_num = Js_int int | Js_not_integer

datatype file_read = File_absent | File_error string | File_text string

datatype count_reason =
    No_config_path
  | Config_absent
  | Config_unreadable string
  | Config_not_json
  | Config_not_object
  | Ceiling_not_positive
  | No_count_key
  | Count_not_integer json
  | Count_not_positive int
  | Count_insane int
  | Count_above_ceiling int

datatype count_source = From_env | From_model_config

record count_decision =
  dcWorkerCount :: js_num
  dcConfiguredCount :: js_num
  dcEffectiveCount :: "int option"
  dcClamped :: bool
  dcPath :: "string option"
  dcSource :: count_source
  dcReason :: "count_reason option"

definition max_sane_worker_count :: int where
  "max_sane_worker_count = 1024"

section \<open>The decision\<close>

text \<open>A path that is missing or empty is no path.\<close>

definition config_path :: "string option \<Rightarrow> string option" where
  "config_path p = (case p of None \<Rightarrow> None | Some s \<Rightarrow> if s = [] then None else Some s)"

definition readModelConfig ::
  "(string \<Rightarrow> json option) \<Rightarrow> (string \<Rightarrow> file_read) \<Rightarrow> string option \<Rightarrow> count_reason + (string \<times> json) list" where
  "readModelConfig parse file path =
     (case config_path path of
        None \<Rightarrow> Inl No_config_path
      | Some s \<Rightarrow>
          (case file s of
             File_absent \<Rightarrow> Inl Config_absent
           | File_error e \<Rightarrow> Inl (Config_unreadable e)
           | File_text raw \<Rightarrow>
               (case parse raw of
                  None \<Rightarrow> Inl Config_not_json
                | Some (J_object ps) \<Rightarrow> Inr ps
                | Some _ \<Rightarrow> Inl Config_not_object)))"

definition resolveWorkerCount ::
  "(string \<Rightarrow> json option) \<Rightarrow> (string \<Rightarrow> file_read) \<Rightarrow> js_num \<Rightarrow> string option \<Rightarrow> count_decision" where
  "resolveWorkerCount parse file configured path =
     (let base = \<lparr>dcWorkerCount = configured, dcConfiguredCount = configured, dcEffectiveCount = None, dcClamped = False,
            dcPath = config_path path, dcSource = From_env, dcReason = None\<rparr>
      in case configured of
           Js_not_integer \<Rightarrow> base\<lparr>dcReason := Some Ceiling_not_positive\<rparr>
         | Js_int ceiling \<Rightarrow>
             if ceiling \<le> 0 then base\<lparr>dcReason := Some Ceiling_not_positive\<rparr>
             else
               (case readModelConfig parse file path of
                  Inl r \<Rightarrow> base\<lparr>dcReason := Some r\<rparr>
                | Inr ps \<Rightarrow>
                    (case map_of ps ''workerCount'' of
                       None \<Rightarrow> base\<lparr>dcReason := Some No_count_key\<rparr>
                     | Some (J_int effective) \<Rightarrow>
                         if effective \<le> 0 then base\<lparr>dcReason := Some (Count_not_positive effective)\<rparr>
                         else if max_sane_worker_count < effective then base\<lparr>dcReason := Some (Count_insane effective)\<rparr>
                         else if ceiling < effective then
                           base\<lparr>dcEffectiveCount := Some effective, dcClamped := True,
                             dcReason := Some (Count_above_ceiling effective)\<rparr>
                         else base\<lparr>dcWorkerCount := Js_int effective, dcEffectiveCount := Some effective,
                             dcSource := From_model_config\<rparr>
                     | Some v \<Rightarrow> base\<lparr>dcReason := Some (Count_not_integer v)\<rparr>)))"

section \<open>What it promises\<close>

text \<open>The integer the file publishes, if it publishes one.\<close>

definition published_count :: "(string \<Rightarrow> json option) \<Rightarrow> (string \<Rightarrow> file_read) \<Rightarrow> string option \<Rightarrow> int option" where
  "published_count parse file path =
     (case readModelConfig parse file path of
        Inl _ \<Rightarrow> None
      | Inr ps \<Rightarrow> (case map_of ps ''workerCount'' of Some (J_int n) \<Rightarrow> Some n | _ \<Rightarrow> None))"

lemma resolve_published:
  assumes "0 < ceiling"
  shows "dcWorkerCount (resolveWorkerCount parse file (Js_int ceiling) path) =
    Js_int (case published_count parse file path of
      Some n \<Rightarrow> if 1 \<le> n \<and> n \<le> min ceiling max_sane_worker_count then n else ceiling
    | None \<Rightarrow> ceiling)"
proof -
  have pos: "1 \<le> n \<longleftrightarrow> 0 < n" for n :: int by auto
  show ?thesis using assms
    by (auto simp: resolveWorkerCount_def published_count_def Let_def pos split: sum.split option.split json.split)
qed

text \<open>C31: Whatever is in the model config file, the pool is built with at least one and at most \<^verbatim>\<open>EDGE_WORKER_COUNT\<close> entries,
  and with exactly the supervisor's count when that is an integer in this range and no larger than 1024.
\<close>

theorem pool_size_is_bounded:
  assumes "0 < ceiling" and "prefix \<noteq> []" and "0 < pcConnectTimeoutMs c" and "0 < pcStartupGraceMs c"
  shows "\<exists>n p. dcWorkerCount (resolveWorkerCount parse file (Js_int ceiling) path) = Js_int n \<and>
    pool_init c now n prefix = Inr p \<and> int (length (plWorkers p)) = n \<and> 1 \<le> n \<and> n \<le> ceiling \<and>
    (\<forall>m. published_count parse file path = Some m \<and> 1 \<le> m \<and> m \<le> min ceiling max_sane_worker_count \<longrightarrow> n = m)"
proof -
  define n where "n = (case published_count parse file path of
      Some n \<Rightarrow> if 1 \<le> n \<and> n \<le> min ceiling max_sane_worker_count then n else ceiling | None \<Rightarrow> ceiling)"
  have n: "1 \<le> n \<and> n \<le> ceiling" using assms(1) by (auto simp: n_def split: option.split)
  then obtain p where p: "pool_init c now n prefix = Inr p" "int (length (plWorkers p)) = n"
    using assms(2-4) by (simp add: pool_init_def)
  have "\<forall>m. published_count parse file path = Some m \<and> 1 \<le> m \<and> m \<le> min ceiling max_sane_worker_count \<longrightarrow> n = m"
    by (auto simp: n_def)
  moreover have "dcWorkerCount (resolveWorkerCount parse file (Js_int ceiling) path) = Js_int n"
    using resolve_published [OF assms(1)] by (simp add: n_def)
  ultimately show ?thesis using n p by (intro exI [of _ n] exI [of _ p] conjI) simp_all
qed

theorem pool_size_is_bounded_witness:
  "dcWorkerCount (resolveWorkerCount (\<lambda>_. Some (J_object [(''workerCount'', J_int 2)])) (\<lambda>_. File_text [])
      (Js_int 4) (Some ''/run/model.json'')) = Js_int 2"
proof -
  let ?parse = "\<lambda>_. Some (J_object [(''workerCount'', J_int 2)])"
  let ?file = "\<lambda>_. File_text []"
  have "published_count ?parse ?file (Some ''/run/model.json'') = Some 2" by code_simp
  then show ?thesis
    using pool_size_is_bounded [of 4 "''/tmp/w''"
      "\<lparr>pcRecoveryMs = 2000, pcRecoveryAttempts = 10, pcStartupGraceMs = 15000, pcConnectTimeoutMs = 3000\<rparr>"
      ?parse ?file "Some ''/run/model.json''" 0]
    by (auto simp: max_sane_worker_count_def)
qed

end
