(* ===== verification/Event_Stream.thy ===== *)
theory Event_Stream
  imports Js_Collections
begin

text \<open>
  The event stream between the API server and the shell app: \<^verbatim>\<open>sendSse\<close> of \<^verbatim>\<open>api-server/routes/infer.js\<close> and the
  reader \<^verbatim>\<open>_streamFromApi\<close> of \<^verbatim>\<open>shell-app/edgeAgentService.js\<close>, from the moment the response is there. \<^verbatim>\<open>JSON.parse\<close>
  is the argument \<open>parse\<close> (\<open>json_parse\<close> in \<open>Answer_Stream\<close>); \<^verbatim>\<open>trim\<close> is on ASCII white space. A chunk is what the stream decoder made of the bytes.
\<close>

section \<open>Writing\<close>

definition send_sse :: "string \<Rightarrow> string \<Rightarrow> string" where
  "send_sse event payload = ''event: '' @ event @ [newline] @ ''data: '' @ payload @ [newline, newline]"

section \<open>Reading\<close>

datatype 'j sse_payload = Parsed 'j | Raw string

record 'j sse_reader =
  srBuffer :: string
  srEvent :: string
  srData :: "string list"
  srTokens :: "'j sse_payload list"
  srDone :: "'j sse_payload option"
  srThrown :: "'j sse_payload option"

definition sse_start :: "'j sse_reader" where
  "sse_start = \<lparr>srBuffer = [], srEvent = ''message'', srData = [], srTokens = [], srDone = None, srThrown = None\<rparr>"

fun join_lines :: "string list \<Rightarrow> string" where
  "join_lines [] = []"
| "join_lines [l] = l"
| "join_lines (l # ls) = l @ [newline] @ join_lines ls"

definition read_payload :: "(string \<Rightarrow> 'j option) \<Rightarrow> string \<Rightarrow> 'j sse_payload" where
  "read_payload parse raw = (case parse raw of Some j \<Rightarrow> Parsed j | None \<Rightarrow> Raw raw)"

text \<open>\<^verbatim>\<open>flushEvent\<close>: an event without data is kept for the next one, an error event throws.\<close>

definition flush_event :: "(string \<Rightarrow> 'j option) \<Rightarrow> 'j sse_reader \<Rightarrow> 'j sse_reader" where
  "flush_event parse st =
     (if srData st = [] then st
      else
        let payload = read_payload parse (join_lines (srData st)); st1 = st\<lparr>srData := []\<rparr>
        in if srEvent st = ''token'' then st1\<lparr>srTokens := srTokens st @ [payload], srEvent := ''message''\<rparr>
           else if srEvent st = ''done'' then st1\<lparr>srDone := Some payload, srEvent := ''message''\<rparr>
           else if srEvent st = ''error'' then st1\<lparr>srThrown := Some payload\<rparr>
           else st1\<lparr>srEvent := ''message''\<rparr>)"

definition sse_line :: "(string \<Rightarrow> 'j option) \<Rightarrow> string \<Rightarrow> 'j sse_reader \<Rightarrow> 'j sse_reader" where
  "sse_line parse line st =
     (if line = [] then flush_event parse st
      else if starts_with ''event:'' line then st\<lparr>srEvent := trim_start (trim_end (drop 6 line))\<rparr>
      else if starts_with ''data:'' line then st\<lparr>srData := srData st @ [trim_start (drop 5 line)]\<rparr>
      else st)"

lemma flush_buffer [simp]: "srBuffer (flush_event parse st) = srBuffer st"
  by (simp add: flush_event_def Let_def)

lemma sse_line_buffer [simp]: "srBuffer (sse_line parse line st) = srBuffer st"
  by (simp add: sse_line_def)

text \<open>The inner loop over the complete lines of the buffer; an exception leaves both loops.\<close>

function eat_lines :: "(string \<Rightarrow> 'j option) \<Rightarrow> 'j sse_reader \<Rightarrow> 'j sse_reader" where
  "eat_lines parse st =
     (if srThrown st \<noteq> None then st
      else case find_char newline (srBuffer st) of
          None \<Rightarrow> st
        | Some i \<Rightarrow> eat_lines parse (sse_line parse (trim_end (take i (srBuffer st)))
            (st\<lparr>srBuffer := drop (Suc i) (srBuffer st)\<rparr>)))"
  by pat_completeness auto

termination
  by (relation "measure (\<lambda>(parse, st). length (srBuffer st))") (auto dest: find_char_bound)

declare eat_lines.simps [simp del]

definition sse_chunk :: "(string \<Rightarrow> 'j option) \<Rightarrow> string \<Rightarrow> 'j sse_reader \<Rightarrow> 'j sse_reader" where
  "sse_chunk parse chunk st = (if srThrown st \<noteq> None then st else eat_lines parse (st\<lparr>srBuffer := srBuffer st @ chunk\<rparr>))"

text \<open>What the call returns at the end of the stream: the final payload, an empty answer without one, or the exception.\<close>

datatype 'j stream_outcome = Stream_answer "'j sse_payload" | Stream_empty | Stream_throws "'j sse_payload"

definition stream_result :: "'j sse_reader \<Rightarrow> 'j stream_outcome" where
  "stream_result st =
     (case srThrown st of Some e \<Rightarrow> Stream_throws e
      | None \<Rightarrow> (case srDone st of Some p \<Rightarrow> Stream_answer p | None \<Rightarrow> Stream_empty))"

section \<open>Chunks do not matter\<close>

lemma eat_append:
  assumes "srThrown (eat_lines parse (st\<lparr>srBuffer := x @ y\<rparr>)) = None"
  shows "eat_lines parse (st\<lparr>srBuffer := x @ y\<rparr>) = sse_chunk parse y (eat_lines parse (st\<lparr>srBuffer := x\<rparr>))"
  using assms
proof (induction "length x" arbitrary: x st rule: less_induct)
  case less
  show ?case
  proof (cases "srThrown st")
    case (Some e)
    with less.prems show ?thesis by (simp add: eat_lines.simps [of parse "st\<lparr>srBuffer := x @ y\<rparr>"])
  next
    case None
    show ?thesis
    proof (cases "find_char newline x")
      case None
      with \<open>srThrown st = None\<close> show ?thesis
        by (simp add: eat_lines.simps [of parse "st\<lparr>srBuffer := x\<rparr>"] sse_chunk_def)
    next
      case (Some i)
      let ?st = "sse_line parse (trim_end (take i x)) (st\<lparr>srBuffer := []\<rparr>)"
      have i: "i < length x" using Some by (rule find_char_bound)
      have upd: "sse_line parse l (st\<lparr>srBuffer := b\<rparr>) = (sse_line parse l (st\<lparr>srBuffer := []\<rparr>))\<lparr>srBuffer := b\<rparr>" for l b
        by (simp add: sse_line_def flush_event_def Let_def)
      have "eat_lines parse (st\<lparr>srBuffer := x @ y\<rparr>) = eat_lines parse (?st\<lparr>srBuffer := drop (Suc i) x @ y\<rparr>)"
        using None i find_char_prefix [OF Some, of y]
        by (simp add: eat_lines.simps [of parse "st\<lparr>srBuffer := x @ y\<rparr>"] upd [of _ "drop (Suc i) x @ y"])
      moreover have "eat_lines parse (st\<lparr>srBuffer := x\<rparr>) = eat_lines parse (?st\<lparr>srBuffer := drop (Suc i) x\<rparr>)"
        using None Some by (simp add: eat_lines.simps [of parse "st\<lparr>srBuffer := x\<rparr>"] upd [of _ "drop (Suc i) x"])
      moreover have "length (drop (Suc i) x) < length x" using i by simp
      ultimately show ?thesis using less.hyps [of "drop (Suc i) x" ?st] less.prems by simp
    qed
  qed
qed

lemma eat_thrown: "srThrown st \<noteq> None \<Longrightarrow> eat_lines parse st = st"
  by (simp add: eat_lines.simps)

lemma eat_idem: "eat_lines parse (eat_lines parse st) = eat_lines parse st"
proof (induction parse st rule: eat_lines.induct)
  case (1 parse st)
  show ?case
  proof (cases "srThrown st = None \<and> find_char newline (srBuffer st) \<noteq> None")
    case True
    then obtain i where i: "find_char newline (srBuffer st) = Some i" by blast
    let ?st = "sse_line parse (trim_end (take i (srBuffer st))) (st\<lparr>srBuffer := drop (Suc i) (srBuffer st)\<rparr>)"
    have "eat_lines parse st = eat_lines parse ?st" using True i by (simp add: eat_lines.simps [of parse st])
    moreover have "eat_lines parse (eat_lines parse ?st) = eat_lines parse ?st" using True i by (intro 1) simp_all
    ultimately show ?thesis by simp
  next
    case False
    then have "eat_lines parse st = st" by (auto simp: eat_lines.simps [of parse st])
    then show ?thesis by simp
  qed
qed

lemma fold_chunks:
  assumes "srThrown (sse_chunk parse (concat cs) st) = None" and "eat_lines parse st = st"
  shows "fold (sse_chunk parse) cs st = sse_chunk parse (concat cs) st"
  using assms
proof (induction cs arbitrary: st)
  case Nil
  then show ?case by (simp add: sse_chunk_def)
next
  case (Cons c cs)
  have t: "srThrown st = None" using Cons.prems(1) by (auto simp: sse_chunk_def split: if_splits)
  have eq: "sse_chunk parse (concat (c # cs)) st = sse_chunk parse (concat cs) (sse_chunk parse c st)"
    using eat_append [where parse = parse and st = st and x = "srBuffer st @ c" and y = "concat cs"] Cons.prems(1) t by (simp add: sse_chunk_def)
  show ?case using Cons.IH [of "sse_chunk parse c st"] Cons.prems(1) eq t by (simp add: sse_chunk_def eat_idem)
qed

section \<open>What is sent arrives\<close>

text \<open>
  Payloads as \<^verbatim>\<open>JSON.stringify\<close> writes an object: one line that neither starts nor ends with white space.
\<close>

definition json_line :: "string \<Rightarrow> bool" where
  "json_line p \<longleftrightarrow> p \<noteq> [] \<and> newline \<notin> set p \<and> \<not> is_space (hd p) \<and> \<not> is_space (last p)"

lemma eat_line:
  assumes "newline \<notin> set l" and "srThrown st = None"
  shows "eat_lines parse (st\<lparr>srBuffer := l @ newline # r\<rparr>) =
    eat_lines parse ((sse_line parse (trim_end l) st)\<lparr>srBuffer := r\<rparr>)"
proof -
  have "sse_line parse k (st\<lparr>srBuffer := b\<rparr>) = (sse_line parse k st)\<lparr>srBuffer := b\<rparr>" for k b
    by (simp add: sse_line_def flush_event_def Let_def)
  then show ?thesis using assms
    by (simp add: eat_lines.simps [of parse "st\<lparr>srBuffer := l @ newline # r\<rparr>"] find_char_append)
qed

definition deliver :: "(string \<Rightarrow> 'j option) \<Rightarrow> string \<times> string \<Rightarrow> 'j sse_reader \<Rightarrow> 'j sse_reader" where
  "deliver parse ev st = flush_event parse (st\<lparr>srEvent := fst ev, srData := [snd ev]\<rparr>)"

lemma eat_event:
  assumes e: "e = ''token'' \<or> e = ''done''" and p: "json_line p" and t: "srThrown st = None" "srData st = []"
  shows "eat_lines parse (st\<lparr>srBuffer := send_sse e p @ r\<rparr>) = eat_lines parse ((deliver parse (e, p) st)\<lparr>srBuffer := r\<rparr>)"
proof -
  have s: "is_space CHR 0x20" by (simp add: is_space_def)
  have te: "trim_end (''event: '' @ e) = ''event: '' @ e" "trim_start (trim_end (drop 6 (''event: '' @ e))) = e"
    using e by (auto simp: trim_end_def trim_start_def is_space_def)
  have tp: "trim_end (''data: '' @ p) = ''data: '' @ p"
    using p by (intro trim_end_id) (auto simp: json_line_def)
  have tq: "trim_start (drop 5 (''data: '' @ p)) = p"
    using p s trim_start_id [of p] by (auto simp: json_line_def trim_start_def)
  have l1: "sse_line parse (''event: '' @ e) st = st\<lparr>srEvent := e\<rparr>" using te by (simp add: sse_line_def starts_with_def)
  have l2: "sse_line parse (''data: '' @ p) (st\<lparr>srEvent := e\<rparr>) = st\<lparr>srEvent := e, srData := [p]\<rparr>"
    using tq t by (simp add: sse_line_def starts_with_def)
  have n: "newline \<notin> set (''event: '' @ e)" "newline \<notin> set (''data: '' @ p)" using e p by (auto simp: json_line_def)
  have "send_sse e p @ r = (''event: '' @ e) @ newline # (''data: '' @ p) @ newline # [] @ newline # r"
    by (simp add: send_sse_def)
  then have "eat_lines parse (st\<lparr>srBuffer := send_sse e p @ r\<rparr>) =
      eat_lines parse (st\<lparr>srBuffer := (''event: '' @ e) @ newline # (''data: '' @ p) @ newline # [] @ newline # r\<rparr>)"
    by (simp only:)
  also have "\<dots> = eat_lines parse ((st\<lparr>srEvent := e\<rparr>)\<lparr>srBuffer := (''data: '' @ p) @ newline # [] @ newline # r\<rparr>)"
    by (subst eat_line [OF n(1) t(1)]) (simp only: te(1) l1)
  also have "\<dots> = eat_lines parse ((st\<lparr>srEvent := e, srData := [p]\<rparr>)\<lparr>srBuffer := [] @ newline # r\<rparr>)"
    by (subst eat_line [OF n(2)]) (use t in \<open>simp_all only: tp l2, simp_all\<close>)
  also have "\<dots> = eat_lines parse ((deliver parse (e, p) st)\<lparr>srBuffer := r\<rparr>)"
    by (subst eat_line) (use t in \<open>simp_all add: trim_end_def sse_line_def deliver_def\<close>)
  finally show ?thesis .
qed

lemma deliver_state:
  assumes "e = ''token'' \<or> e = ''done''" and "srThrown st = None"
  shows "srThrown (deliver parse (e, p) st) = None" and "srData (deliver parse (e, p) st) = []"
    and "srBuffer (deliver parse (e, p) st) = srBuffer st"
    and "srTokens (deliver parse (e, p) st) = srTokens st @ (if e = ''token'' then [read_payload parse p] else [])"
    and "srDone (deliver parse (e, p) st) = (if e = ''done'' then Some (read_payload parse p) else srDone st)"
  using assms by (auto simp: deliver_def flush_event_def Let_def)

lemma eat_events:
  assumes "\<forall>(e, p) \<in> set evs. (e = ''token'' \<or> e = ''done'') \<and> json_line p"
    and "srThrown st = None" and "srData st = []" and "srBuffer st = []"
  shows "eat_lines parse (st\<lparr>srBuffer := concat (map (\<lambda>(e, p). send_sse e p) evs)\<rparr>) = fold (deliver parse) evs st \<and>
    srThrown (fold (deliver parse) evs st) = None"
  using assms
proof (induction evs arbitrary: st)
  case Nil
  then have "st\<lparr>srBuffer := []\<rparr> = st" by (cases st) simp
  with Nil show ?case by (simp add: eat_lines.simps)
next
  case (Cons ev evs)
  obtain e p where ev: "ev = (e, p)" by force
  then have e: "e = ''token'' \<or> e = ''done''" "json_line p" using Cons.prems(1) by auto
  note d = deliver_state [OF e(1) Cons.prems(2), of parse p]
  from Cons.IH [of "deliver parse (e, p) st"] Cons.prems(1,4) d
    eat_event [OF e Cons.prems(2,3), of parse "concat (map (\<lambda>(e, p). send_sse e p) evs)"]
  show ?case by (simp add: ev)
qed

lemma all_delivered:
  assumes "\<forall>(e, p) \<in> set evs. e = ''token'' \<or> e = ''done''" and "srThrown st = None"
  shows "srTokens (fold (deliver parse) evs st) = srTokens st @ map (\<lambda>(e, p). read_payload parse p) (filter (\<lambda>(e, p). e = ''token'') evs)"
  using assms
proof (induction evs arbitrary: st)
  case (Cons ev evs)
  obtain e p where ev: "ev = (e, p)" by force
  then have e: "e = ''token'' \<or> e = ''done''" using Cons.prems(1) by auto
  note d = deliver_state [OF e Cons.prems(2), of parse p]
  from Cons.IH [of "deliver parse (e, p) st"] Cons.prems(1) d ev show ?case by auto
qed simp

text \<open>
  Cut the text of any token events and the final event into chunks anywhere: every token's payload is handed on once
  and in order, and the call answers with the final one.
\<close>

lemma stream_delivers:
  assumes "\<forall>p \<in> set (final # tokens). json_line p"
    and "concat chunks = concat (map (send_sse ''token'') tokens) @ send_sse ''done'' final"
  shows "srTokens (fold (sse_chunk parse) chunks sse_start) = map (read_payload parse) tokens \<and>
    stream_result (fold (sse_chunk parse) chunks sse_start) = Stream_answer (read_payload parse final)"
proof -
  let ?evs = "map (Pair ''token'') tokens @ [(''done'', final)]"
  have evs: "\<forall>(e, p) \<in> set ?evs. (e = ''token'' \<or> e = ''done'') \<and> json_line p" using assms(1) by auto
  have sent: "concat chunks = concat (map (\<lambda>(e, p). send_sse e p) ?evs)" by (simp add: assms(2) comp_def)
  have s: "srThrown sse_start = None" "srData sse_start = []" "srBuffer sse_start = []" by (simp_all add: sse_start_def)
  have eat: "eat_lines parse (sse_start\<lparr>srBuffer := concat chunks\<rparr>) = fold (deliver parse) ?evs sse_start"
    and ok: "srThrown (fold (deliver parse) ?evs sse_start) = None"
    using eat_events [OF evs s, of parse] sent by simp_all
  have "sse_chunk parse (concat chunks) sse_start = fold (deliver parse) ?evs sse_start"
    using eat by (simp add: sse_chunk_def s)
  moreover have "eat_lines parse sse_start = sse_start" by (simp add: eat_lines.simps s)
  ultimately have f: "fold (sse_chunk parse) chunks sse_start = fold (deliver parse) ?evs sse_start"
    using fold_chunks [of parse chunks sse_start] ok by simp
  have "\<forall>(e, p) \<in> set ?evs. e = ''token'' \<or> e = ''done''" by auto
  from all_delivered [OF this s(1), of parse]
  have tk: "srTokens (fold (deliver parse) ?evs sse_start) = map (read_payload parse) tokens"
    by (simp add: filter_map comp_def sse_start_def)
  have "srThrown (fold (deliver parse) (map (Pair ''token'') tokens) sse_start) = None"
    using eat_events [OF _ s, of "map (Pair ''token'') tokens" parse] assms(1) by auto
  then have "srDone (fold (deliver parse) ?evs sse_start) = Some (read_payload parse final)"
    by (simp add: deliver_state)
  with f tk ok show ?thesis by (simp add: stream_result_def)
qed

end
