(* ===== verification/Js_Json.thy ===== *)
theory Js_Json
  imports Js_Collections Remote_Transport
begin

text \<open>
  \<^verbatim>\<open>JSON.parse\<close> and \<^verbatim>\<open>JSON.stringify\<close> as the servers use them, on the bytes of the text. Bytes from 128 on pass through
  a string as they are; a number written with a fraction or an exponent is an integer when its value is one. What
  is not kept is the rounding of numbers to doubles, and that a surrogate on its own is no code point.
\<close>

section \<open>Reading\<close>

text \<open>The rest of a string literal after its opening quote.\<close>

definition code_unit :: "string \<Rightarrow> (string \<times> string) option" where
  "code_unit ds =
     (case readHex4 ds of
        None \<Rightarrow> None
      | Some cp \<Rightarrow>
          (case (if 55296 \<le> cp \<and> cp \<le> 56319 then lowSurrogate (drop 4 ds) else None) of
             Some low \<Rightarrow> Some (codePointBytes (65536 + push_bit 10 (cp - 55296) + (low - 56320)), drop 10 ds)
           | None \<Rightarrow> Some (codePointBytes cp, drop 4 ds)))"

lemma code_unit_length: "code_unit ds = Some (b, r) \<Longrightarrow> length r < length ds"
  by (auto simp: code_unit_def readHex4_def split: option.splits if_splits)

definition simple_escape :: "char \<Rightarrow> char option" where
  "simple_escape d =
     (if d \<in> {dquote, bslash, CHR ''/''} then Some d
      else if d = CHR ''b'' then Some CHR 0x08
      else if d = CHR ''f'' then Some CHR 0x0C
      else if d = CHR ''n'' then Some newline
      else if d = CHR ''r'' then Some creturn
      else if d = CHR ''t'' then Some htab
      else None)"

function json_string :: "string \<Rightarrow> (string \<times> string) option" where
  "json_string [] = None"
| "json_string (c # cs) =
     (if c = dquote then Some ([], cs)
      else if c = bslash then
        (case cs of
           [] \<Rightarrow> None
         | d # ds \<Rightarrow>
             (case simple_escape d of
                Some e \<Rightarrow> map_option (apfst (Cons e)) (json_string ds)
              | None \<Rightarrow>
                  if d = CHR ''u'' then
                    (case code_unit ds of
                       None \<Rightarrow> None
                     | Some (b, r) \<Rightarrow> map_option (apfst ((@) b)) (json_string r))
                  else None))
      else if (of_char c :: nat) < 32 then None
      else map_option (apfst (Cons c)) (json_string cs))"
  by pat_completeness auto
termination
  by (relation "measure length") (auto dest: code_unit_length)

declare json_string.simps(2) [simp del]

text \<open>A number: its text is that of the grammar, its value \<open>m * 10 ^ k\<close>.\<close>

definition json_digits :: "string \<Rightarrow> (string \<times> string) option" where
  "json_digits s = (let ds = takeWhile is_digit s in if ds = [] then None else Some (ds, dropWhile is_digit s))"

definition json_fraction :: "string \<Rightarrow> (string \<times> string) option" where
  "json_fraction s = (case s of c # r \<Rightarrow> if c = CHR ''.'' then json_digits r else Some ([], s) | [] \<Rightarrow> Some ([], s))"

definition json_exponent :: "string \<Rightarrow> (int \<times> string) option" where
  "json_exponent s =
     (case s of
        [] \<Rightarrow> Some (0, s)
      | c # r \<Rightarrow>
          if c = CHR ''e'' \<or> c = CHR ''E'' then
            (let sign = (case r of d # _ \<Rightarrow> if d = CHR ''-'' then -1 else 1 | [] \<Rightarrow> 1);
                 r' = (case r of d # ds \<Rightarrow> if d = CHR ''-'' \<or> d = CHR ''+'' then ds else r | [] \<Rightarrow> r)
             in map_option (apfst (\<lambda>ds. sign * int (dec_val ds))) (json_digits r'))
          else Some (0, s))"

definition number_value :: "string \<Rightarrow> int \<Rightarrow> int \<Rightarrow> json" where
  "number_value txt m k =
     (if 0 \<le> k then J_int (m * 10 ^ nat k)
      else if m mod 10 ^ nat (- k) = 0 then J_int (m div 10 ^ nat (- k))
      else J_frac txt)"

definition json_number :: "string \<Rightarrow> (json \<times> string) option" where
  "json_number s =
     (let neg = (case s of c # _ \<Rightarrow> c = CHR ''-'' | [] \<Rightarrow> False)
      in case json_digits (if neg then tl s else s) of
           None \<Rightarrow> None
         | Some (ds, r1) \<Rightarrow>
             if hd ds = CHR ''0'' \<and> 1 < length ds then None
             else
               (case json_fraction r1 of
                  None \<Rightarrow> None
                | Some (fs, r2) \<Rightarrow>
                    (case json_exponent r2 of
                       None \<Rightarrow> None
                     | Some (e, r3) \<Rightarrow>
                         let m = int (dec_val (ds @ fs))
                         in Some (number_value (take (length s - length r3) s) (if neg then - m else m)
                              (e - int (length fs)), r3))))"

text \<open>
  White space, and the grammar of values. The first argument is fuel: \<open>json_parse\<close> gives two for every byte, and
  \<open>json_fuel\<close> shows that more never changes the answer.
\<close>

definition json_space :: "char \<Rightarrow> bool" where
  "json_space c \<longleftrightarrow> c \<in> {CHR '' '', htab, newline, creturn}"

definition skip_space :: "string \<Rightarrow> string" where
  "skip_space s = dropWhile json_space s"

definition json_literal :: "string \<Rightarrow> (json \<times> string) option" where
  "json_literal s =
     (if starts_with ''null'' s then Some (J_null, drop 4 s)
      else if starts_with ''true'' s then Some (J_bool True, drop 4 s)
      else if starts_with ''false'' s then Some (J_bool False, drop 5 s)
      else json_number s)"

fun json_value :: "nat \<Rightarrow> string \<Rightarrow> (json \<times> string) option"
  and json_elements :: "nat \<Rightarrow> json list \<Rightarrow> string \<Rightarrow> (json \<times> string) option"
  and json_members :: "nat \<Rightarrow> (string \<times> json) list \<Rightarrow> string \<Rightarrow> (json \<times> string) option"
where
  "json_value 0 s = None"
| "json_value (Suc n) s =
     (case skip_space s of
        [] \<Rightarrow> None
      | c # r \<Rightarrow>
          if c = dquote then map_option (apfst J_string) (json_string r)
          else if c = CHR ''['' then
            (case skip_space r of
               [] \<Rightarrow> None
             | d # r' \<Rightarrow> if d = CHR '']'' then Some (J_array [], r') else json_elements n [] (d # r'))
          else if c = CHR ''{'' then
            (case skip_space r of
               [] \<Rightarrow> None
             | d # r' \<Rightarrow> if d = CHR ''}'' then Some (J_object [], r') else json_members n [] (d # r'))
          else json_literal (c # r))"
| "json_elements 0 acc s = None"
| "json_elements (Suc n) acc s =
     (case json_value n s of
        None \<Rightarrow> None
      | Some (j, r) \<Rightarrow>
          (case skip_space r of
             [] \<Rightarrow> None
           | c # r' \<Rightarrow>
               if c = CHR '','' then json_elements n (acc @ [j]) r'
               else if c = CHR '']'' then Some (J_array (acc @ [j]), r')
               else None))"
| "json_members 0 acc s = None"
| "json_members (Suc n) acc s =
     (case skip_space s of
        [] \<Rightarrow> None
      | c # r \<Rightarrow>
          if c \<noteq> dquote then None
          else
            (case json_string r of
               None \<Rightarrow> None
             | Some (k, r1) \<Rightarrow>
                 (case skip_space r1 of
                    [] \<Rightarrow> None
                  | d # r2 \<Rightarrow>
                      if d \<noteq> CHR '':'' then None
                      else
                        (case json_value n r2 of
                           None \<Rightarrow> None
                         | Some (j, r3) \<Rightarrow>
                             (case skip_space r3 of
                                [] \<Rightarrow> None
                              | e # r4 \<Rightarrow>
                                  if e = CHR '','' then json_members n (AList.update k j acc) r4
                                  else if e = CHR ''}'' then Some (J_object (AList.update k j acc), r4)
                                  else None)))))"

definition json_parse :: "string \<Rightarrow> json option" where
  "json_parse s =
     (case json_value (Suc (2 * length s)) s of
        Some (j, r) \<Rightarrow> if skip_space r = [] then Some j else None
      | None \<Rightarrow> None)"

subsection \<open>The fuel is enough\<close>

lemma skip_space_length: "length (skip_space s) \<le> length s"
  by (simp add: skip_space_def length_dropWhile_le)

lemma skip_space_Cons: "skip_space s = c # r \<Longrightarrow> length r < length s"
  using skip_space_length [of s] by simp

lemma json_string_length: "json_string s = Some (t, r) \<Longrightarrow> length r < length s"
proof (induction s arbitrary: t r rule: json_string.induct)
  case (2 c cs)
  have esc: "length r < length (c # cs)"
    if c: "c \<noteq> dquote" "c = bslash" and cs: "cs = d # ds" for d ds
  proof (cases "simple_escape d")
    case (Some e)
    then obtain t' where "json_string ds = Some (t', r)"
      using 2(4) c cs by (auto simp: json_string.simps(2))
    with 2(2) [OF c cs Some] show ?thesis using cs by fastforce
  next
    case None
    then obtain b r' t' where u: "d = CHR ''u''" "code_unit ds = Some (b, r')" "json_string r' = Some (t', r)"
      using 2(4) c cs by (auto simp: json_string.simps(2) split: if_splits option.splits)
    with 2(1) [OF c cs None u(1) u(2) refl u(3)] code_unit_length [OF u(2)] show ?thesis using cs by fastforce
  qed
  show ?case
  proof (cases "c = bslash")
    case True
    then show ?thesis using esc 2(4) by (cases cs) (auto simp: json_string.simps(2))
  next
    case False
    show ?thesis
    proof (cases "c = dquote \<or> (of_char c :: nat) < 32")
      case True
      then show ?thesis using 2(4) False by (auto simp: json_string.simps(2) split: if_splits)
    next
      case ordinary: False
      then obtain t' where "json_string cs = Some (t', r)"
        using 2(4) False by (auto simp: json_string.simps(2))
      with 2(3) ordinary False show ?thesis by fastforce
    qed
  qed
qed simp

lemma json_digits_length: "json_digits s = Some (ds, r) \<Longrightarrow> length r < length s"
proof -
  assume a: "json_digits s = Some (ds, r)"
  then have "takeWhile is_digit s \<noteq> []" "r = dropWhile is_digit s"
    by (auto simp: json_digits_def Let_def split: if_splits)
  then show ?thesis
    by (metis add.commute length_append length_greater_0_conv less_add_same_cancel1 takeWhile_dropWhile_id)
qed

lemma json_fraction_length: "json_fraction s = Some (fs, r) \<Longrightarrow> length r \<le> length s"
  by (auto simp: json_fraction_def dest!: json_digits_length split: list.splits if_splits)

lemma json_exponent_length: "json_exponent s = Some (e, r) \<Longrightarrow> length r \<le> length s"
  by (auto simp: json_exponent_def Let_def dest!: json_digits_length split: list.splits if_splits)

lemma json_number_length: "json_number s = Some (j, r) \<Longrightarrow> length r < length s"
  unfolding json_number_def Let_def
  by (auto dest!: json_digits_length json_fraction_length json_exponent_length split: option.splits if_splits; linarith)

lemma json_literal_length: "s \<noteq> [] \<Longrightarrow> json_literal s = Some (j, r) \<Longrightarrow> length r < length s"
  by (auto simp: json_literal_def dest: json_number_length split: if_splits)

lemma json_shrinks:
  "json_value n s = Some (j, r) \<Longrightarrow> length r < length s"
  "json_elements n js s = Some (j, r) \<Longrightarrow> length r < length s"
  "json_members n ps s = Some (j, r) \<Longrightarrow> length r < length s"
proof (induction n s and n js s and n ps s arbitrary: j r and j r and j r
    rule: json_value_json_elements_json_members.induct)
  case (2 n s)
  then show ?case
    using skip_space_length [of s] json_literal_length
    by (fastforce dest: skip_space_Cons json_string_length split: list.splits if_splits)
next
  case (4 n acc s)
  then show ?case
    by (fastforce dest: skip_space_Cons split: option.splits list.splits if_splits)
next
  case (6 n acc s)
  then show ?case
    by (fastforce dest: skip_space_Cons json_string_length split: option.splits list.splits if_splits)
qed simp_all

lemma json_fuel:
  "2 * length s < n \<Longrightarrow> json_value (n + k) s = json_value n s"
  "2 * length s + 1 < n \<Longrightarrow> json_elements (n + k) js s = json_elements n js s"
  "2 * length s + 1 < n \<Longrightarrow> json_members (n + k) ps s = json_members n ps s"
proof (induction n s and n js s and n ps s rule: json_value_json_elements_json_members.induct)
  case (2 n s)
  show ?case
  proof (cases "skip_space s")
    case (Cons c r)
    then have r: "length r < length s" by (rule skip_space_Cons)
    show ?thesis
    proof (cases "skip_space r")
      case inner: (Cons d r')
      then have "length (d # r') \<le> length r" using skip_space_length [of r] by simp
      then have "2 * length (d # r') + 1 < n" using r 2(3) by simp
      then show ?thesis using 2(1,2) Cons inner by (auto split: if_splits)
    qed (simp add: Cons)
  qed simp
next
  case (4 n acc s)
  then have v: "json_value (n + k) s = json_value n s" by simp
  show ?case
  proof (cases "json_value n s")
    case (Some jr)
    obtain j r where jr: "jr = (j, r)" by force
    have r: "length r < length s" using Some jr json_shrinks(1) by simp
    have "2 * length r' + 1 < n" if "skip_space r = c # r'" for c r'
      using skip_space_Cons [OF that] r 4(3) by simp
    then show ?thesis using v Some jr 4(2) by (auto split: list.split if_splits)
  qed (simp add: v)
next
  case (6 n acc s)
  show ?case
  proof (cases "skip_space s")
    case (Cons c r)
    then have r: "length r < length s" by (rule skip_space_Cons)
    show ?thesis
    proof (cases "json_string r")
      case (Some kr)
      obtain key r1 where kr: "kr = (key, r1)" by force
      have r1: "length r1 < length r" using Some kr json_string_length by simp
      show ?thesis
      proof (cases "skip_space r1")
        case colon: (Cons d r2)
        have r2: "length r2 < length r1" using skip_space_Cons [OF colon] .
        then have v: "c = dquote \<Longrightarrow> d = CHR '':'' \<Longrightarrow> json_value (n + k) r2 = json_value n r2"
          using 6(1) Cons Some kr colon r r1 6(3) by simp
        have "2 * length r4 + 1 < n" if "json_value n r2 = Some (j, r3)" "skip_space r3 = e # r4" for j r3 e r4
          using skip_space_Cons [OF that(2)] json_shrinks(1) [OF that(1)] r r1 r2 6(3) by simp
        then show ?thesis using v 6(2) Cons Some kr colon
          by (auto split: option.split list.split if_splits)
      qed (simp add: Cons Some kr)
    qed (simp add: Cons)
  qed simp
qed simp_all

section \<open>Writing\<close>

definition js_escape_char :: "char \<Rightarrow> string" where
  "js_escape_char c =
     (if c = bslash then [bslash, bslash]
      else if c = dquote then [bslash, dquote]
      else if c = CHR 0x08 then [bslash, CHR ''b'']
      else if c = CHR 0x0C then [bslash, CHR ''f'']
      else if c = newline then [bslash, CHR ''n'']
      else if c = creturn then [bslash, CHR ''r'']
      else if c = htab then [bslash, CHR ''t'']
      else if (of_char c :: nat) < 32 then [bslash, CHR ''u''] @ hex4 (of_char c)
      else [c])"

definition js_escape :: "string \<Rightarrow> string" where
  "js_escape s = concat (map js_escape_char s)"

definition js_quote :: "string \<Rightarrow> string" where
  "js_quote s = dquote # js_escape s @ [dquote]"

fun comma_join :: "string list \<Rightarrow> string" where
  "comma_join [] = []"
| "comma_join [t] = t"
| "comma_join (t # ts) = t @ CHR '','' # comma_join ts"

fun json_text :: "json \<Rightarrow> string" where
  "json_text J_null = ''null''"
| "json_text (J_bool b) = (if b then ''true'' else ''false'')"
| "json_text (J_int i) = int_str i"
| "json_text (J_frac t) = t"
| "json_text (J_string s) = js_quote s"
| "json_text (J_array js) = CHR ''['' # comma_join (map json_text js) @ '']''"
| "json_text (J_object ps) =
     CHR ''{'' # comma_join (map (\<lambda>(k, j). js_quote k @ CHR '':'' # json_text j) ps) @ ''}''"

text \<open>The values that are written as they are: no fraction, and the names of an object distinct.\<close>

fun json_exact :: "json \<Rightarrow> bool" where
  "json_exact (J_frac t) \<longleftrightarrow> False"
| "json_exact (J_array js) \<longleftrightarrow> list_all json_exact js"
| "json_exact (J_object ps) \<longleftrightarrow> distinct (map fst ps) \<and> list_all (\<lambda>(k, j). json_exact j) ps"
| "json_exact j \<longleftrightarrow> True"

subsection \<open>Strings are read back\<close>

lemma json_string_plain:
  "c \<noteq> dquote \<Longrightarrow> c \<noteq> bslash \<Longrightarrow> 32 \<le> (of_char c :: nat) \<Longrightarrow>
   json_string (c # r) = map_option (apfst (Cons c)) (json_string r)"
  by (simp add: json_string.simps(2))

lemma json_string_simple:
  "simple_escape d = Some e \<Longrightarrow> json_string (bslash # d # r) = map_option (apfst (Cons e)) (json_string r)"
  by (simp add: json_string.simps(2))

lemma json_string_end: "json_string (dquote # r) = Some ([], r)"
  by (simp add: json_string.simps(2))

lemma json_string_hex:
  assumes "n < 32"
  shows "json_string (bslash # CHR ''u'' # hex4 n @ r) = map_option (apfst (Cons (char_of n))) (json_string r)"
proof -
  have "code_unit (hex4 n @ r) = Some ([char_of n], r)"
    using assms by (simp add: code_unit_def codePointBytes_def) (simp add: hex4_def)
  then show ?thesis
    by (simp add: json_string.simps(2) simple_escape_def) (simp add: apfst_def map_prod_def)
qed

lemma json_string_js_char: "json_string (js_escape_char c @ r) = map_option (apfst (Cons c)) (json_string r)"
proof -
  consider "c \<in> {bslash, dquote, CHR 0x08, CHR 0x0C, newline, creturn, htab}"
    | "c \<notin> {bslash, dquote, CHR 0x08, CHR 0x0C, newline, creturn, htab}" "(of_char c :: nat) < 32"
    | "c \<notin> {bslash, dquote, CHR 0x08, CHR 0x0C, newline, creturn, htab}" "32 \<le> (of_char c :: nat)"
    using not_less by blast
  then show ?thesis
  proof cases
    case 1
    then show ?thesis by (auto simp: js_escape_char_def json_string_simple simple_escape_def)
  next
    case 2
    then show ?thesis by (simp add: js_escape_char_def json_string_hex)
  next
    case 3
    then show ?thesis by (simp add: js_escape_char_def json_string_plain)
  qed
qed

lemma json_string_js_escape: "json_string (js_escape s @ dquote # r) = Some (s, r)"
  by (induction s) (simp_all add: js_escape_def json_string_end json_string_js_char)

text \<open>What the C++ processes escape by hand is read back when it holds no other control character.\<close>

definition json_safe :: "string \<Rightarrow> bool" where
  "json_safe s \<longleftrightarrow> list_all (\<lambda>c. 32 \<le> (of_char c :: nat) \<or> c \<in> {newline, creturn, htab}) s"

lemma json_string_json_escape: "json_safe s \<Longrightarrow> json_string (json_escape s @ dquote # r) = Some (s, r)"
proof (induction s)
  case (Cons c s)
  then have "json_string (json_escape_char c @ t) = map_option (apfst (Cons c)) (json_string t)" for t
    by (auto simp: json_safe_def json_escape_char_def json_string_simple simple_escape_def json_string_plain)
  with Cons show ?case by (simp add: json_safe_def)
qed (simp add: json_string_end)

subsection \<open>Values are read back\<close>

text \<open>
  What may follow a value. \<open>reads s j\<close>: whatever comes after such a text \<open>s\<close>, its value \<open>j\<close> is read and nothing more.
\<close>

definition ends_value :: "string \<Rightarrow> bool" where
  "ends_value r \<longleftrightarrow> r = [] \<or> hd r \<in> {CHR '','', CHR '']'', CHR ''}'', newline}"

definition reads :: "string \<Rightarrow> json \<Rightarrow> bool" where
  "reads s j \<longleftrightarrow> (\<exists>n. \<forall>m \<ge> n. \<forall>r. ends_value r \<longrightarrow> json_value m (s @ r) = Some (j, r))"

definition reads_list :: "string \<Rightarrow> json list \<Rightarrow> bool" where
  "reads_list s js \<longleftrightarrow>
     (\<exists>n. \<forall>m \<ge> n. \<forall>r acc. json_elements m acc (s @ CHR '']'' # r) = Some (J_array (acc @ js), r))"

definition reads_fields :: "string \<Rightarrow> (string \<times> json) list \<Rightarrow> bool" where
  "reads_fields s ps \<longleftrightarrow>
     (\<exists>n. \<forall>m \<ge> n. \<forall>r acc. fst ` set acc \<inter> fst ` set ps = {} \<longrightarrow>
        json_members m acc (s @ CHR ''}'' # r) = Some (J_object (acc @ ps), r))"

lemma from_some_on: "(\<And>m. n \<le> m \<Longrightarrow> P (Suc m)) \<Longrightarrow> \<exists>n. \<forall>m \<ge> n. P m"
  by (metis Suc_le_D Suc_le_mono)

lemma skip_nonspace [simp]: "\<not> json_space c \<Longrightarrow> skip_space (c # s) = c # s"
  by (simp add: skip_space_def)

lemma not_json_space [simp]:
  "\<not> json_space dquote" "\<not> json_space CHR ''[''" "\<not> json_space CHR '']''" "\<not> json_space CHR ''{''"
  "\<not> json_space CHR ''}''" "\<not> json_space CHR '',''" "\<not> json_space CHR '':''"
  by (simp_all add: json_space_def)

lemma json_parse_reads:
  assumes "reads s j"
  shows "json_parse s = Some j"
proof -
  obtain n where n: "\<And>m r. n \<le> m \<Longrightarrow> ends_value r \<Longrightarrow> json_value m (s @ r) = Some (j, r)"
    using assms by (auto simp: reads_def)
  have "json_value (Suc (2 * length s) + n) s = json_value (Suc (2 * length s)) s" by (rule json_fuel) simp
  moreover have "json_value (Suc (2 * length s) + n) s = Some (j, [])"
    using n [of "Suc (2 * length s) + n" "[]"] by (simp add: ends_value_def)
  ultimately show ?thesis by (simp add: json_parse_def skip_space_def)
qed

text \<open>The line end behind a text is white space.\<close>

lemma parse_line:
  assumes "reads s j"
  shows "json_parse (s @ [newline]) = Some j"
proof -
  let ?t = "s @ [newline]"
  obtain n where n: "\<And>m r. n \<le> m \<Longrightarrow> ends_value r \<Longrightarrow> json_value m (s @ r) = Some (j, r)"
    using assms by (auto simp: reads_def)
  have "json_value (Suc (2 * length ?t) + n) ?t = json_value (Suc (2 * length ?t)) ?t" by (rule json_fuel) simp
  moreover have "json_value (Suc (2 * length ?t) + n) ?t = Some (j, [newline])"
    using n [of "Suc (2 * length ?t) + n" "[newline]"] by (simp add: ends_value_def)
  ultimately show ?thesis by (simp add: json_parse_def skip_space_def json_space_def)
qed

lemma reads_literal:
  assumes "\<And>r. ends_value r \<Longrightarrow> json_literal (s @ r) = Some (j, r)"
    and "s \<noteq> []" and "\<not> json_space (hd s)" and "hd s \<notin> {dquote, CHR ''['', CHR ''{''}"
  shows "reads s j"
proof -
  obtain c t where s: "s = c # t" using assms(2) by (cases s) auto
  have "json_value (Suc m) (s @ r) = Some (j, r)" if "ends_value r" for m r
    using assms that by (simp add: s)
  then show ?thesis unfolding reads_def by (intro from_some_on) blast
qed

lemma nat_str_no_zero: "nat_str n = CHR ''0'' # t \<Longrightarrow> t = []"
proof (induction n arbitrary: t rule: nat_str.induct)
  case (1 n)
  show ?case
  proof (cases "n < 10")
    case True
    then show ?thesis using 1(2) by (simp add: nat_str.simps [of n])
  next
    case False
    then obtain u where "nat_str (n div 10) = CHR ''0'' # u"
      using 1(2) by (cases "nat_str (n div 10)") (auto simp: nat_str.simps [of n])
    with False 1(1) have "nat_str (n div 10) = ''0''" by simp
    then have "n div 10 = 0" using dec_val_nat_str [of "n div 10"] by (simp add: dec_val_def digit_val_def)
    with False show ?thesis by simp
  qed
qed

lemma reads_int: "reads (int_str i) (J_int i)"
proof -
  have digits: "json_digits (nat_str n @ r) = Some (nat_str n, r)" if "ends_value r" for n r
  proof -
    have r: "r = [] \<or> \<not> is_digit (hd r)" using that by (auto simp: ends_value_def is_digit_def)
    have "takeWhile is_digit (nat_str n @ r) = nat_str n"
      using nat_str_digits r by (intro takeWhile_stop) auto
    moreover have "dropWhile is_digit (nat_str n @ r) = r"
      using nat_str_digits [of n] r by (cases r) (auto simp: dropWhile_append2 simp del: dropWhile_append3)
    ultimately show ?thesis by (simp add: json_digits_def)
  qed
  have rest: "json_fraction r = Some ([], r)" "json_exponent r = Some (0, r)" if "ends_value r" for r
    using that by (cases r; auto simp: ends_value_def json_fraction_def json_exponent_def)+
  have number: "json_number (int_str i @ r) = Some (J_int i, r)" if "ends_value r" for r
  proof (cases "0 \<le> i")
    case True
    obtain c t where n: "nat_str (nat i) = c # t" by (cases "nat_str (nat i)") auto
    then have "c \<noteq> CHR ''-''" using nat_str_digits [of "nat i"] by (auto simp: is_digit_def)
    moreover have "\<not> (c = CHR ''0'' \<and> t \<noteq> [])" using nat_str_no_zero [of "nat i"] n by simp
    ultimately show ?thesis using True n digits [OF that, of "nat i"] rest [OF that] dec_val_nat_str [of "nat i"]
      by (simp add: json_number_def int_str_def number_value_def del: dec_val_nat_str)
  next
    case False
    obtain c t where n: "nat_str (nat (- i)) = c # t" by (cases "nat_str (nat (- i))") auto
    moreover have "\<not> (c = CHR ''0'' \<and> t \<noteq> [])" using nat_str_no_zero [of "nat (- i)"] n by simp
    ultimately show ?thesis using False digits [OF that, of "nat (- i)"] rest [OF that] dec_val_nat_str [of "nat (- i)"]
      by (simp add: json_number_def int_str_def number_value_def del: dec_val_nat_str)
  qed
  obtain c t where i: "int_str i = c # t" "is_digit c \<or> c = CHR ''-''"
  proof (cases "0 \<le> i")
    case True
    then show ?thesis using that nat_str_hd_digit [of "nat i"] by (cases "nat_str (nat i)") (auto simp: int_str_def)
  qed (use that in \<open>auto simp: int_str_def\<close>)
  then have c: "c \<notin> {dquote, CHR ''['', CHR ''{'', CHR ''n'', CHR ''t'', CHR ''f''}" "\<not> json_space c"
    by (auto simp: is_digit_def json_space_def)
  show ?thesis
  proof (rule reads_literal)
    fix r assume "ends_value r"
    then show "json_literal (int_str i @ r) = Some (J_int i, r)"
      using number i(1) c(1) by (auto simp: json_literal_def starts_with_def)
  qed (use i c in auto)
qed

lemma reads_words: "reads ''null'' J_null" "reads ''true'' (J_bool True)" "reads ''false'' (J_bool False)"
  by (rule reads_literal; simp add: json_literal_def starts_with_def json_space_def)+

lemma reads_string:
  assumes "\<And>r. json_string (b @ dquote # r) = Some (s, r)"
  shows "reads (dquote # b @ [dquote]) (J_string s)"
proof -
  have "json_value (Suc m) ((dquote # b @ [dquote]) @ r) = Some (J_string s, r)" for m r
    using assms by simp
  then show ?thesis unfolding reads_def by (intro from_some_on) blast
qed

lemma reads_js_quote: "reads (js_quote s) (J_string s)"
  unfolding js_quote_def by (rule reads_string) (rule json_string_js_escape)

lemma reads_list_one: "reads s j \<Longrightarrow> reads_list s [j]"
proof -
  assume "reads s j"
  then obtain n where n: "\<And>m r. n \<le> m \<Longrightarrow> ends_value r \<Longrightarrow> json_value m (s @ r) = Some (j, r)"
    by (auto simp: reads_def)
  have "json_elements (Suc m) acc (s @ CHR '']'' # r) = Some (J_array (acc @ [j]), r)" if "n \<le> m" for m r acc
    using n [OF that, of "CHR '']'' # r"] by (simp add: ends_value_def)
  then show ?thesis unfolding reads_list_def by (intro from_some_on) blast
qed

lemma reads_list_Cons:
  assumes "reads s j" and "reads_list t js"
  shows "reads_list (s @ CHR '','' # t) (j # js)"
proof -
  obtain n where n: "\<And>m r. n \<le> m \<Longrightarrow> ends_value r \<Longrightarrow> json_value m (s @ r) = Some (j, r)"
    using assms(1) by (auto simp: reads_def)
  obtain n' where n': "\<And>m r acc. n' \<le> m \<Longrightarrow> json_elements m acc (t @ CHR '']'' # r) = Some (J_array (acc @ js), r)"
    using assms(2) unfolding reads_list_def by blast
  have "json_elements (Suc m) acc ((s @ CHR '','' # t) @ CHR '']'' # r) = Some (J_array (acc @ j # js), r)"
    if "max n n' \<le> m" for m r acc
    using n [of m "CHR '','' # t @ CHR '']'' # r"] n' [of m "acc @ [j]" r] that by (simp add: ends_value_def)
  then show ?thesis unfolding reads_list_def by (intro from_some_on) blast
qed

text \<open>A member and the members behind it; \<open>q\<close> is the name in quotes.\<close>

lemma member_read:
  assumes "\<And>r. json_string (b @ dquote # r) = Some (k, r)" and "json_value m (s @ r) = Some (j, r)"
  shows "json_members (Suc m) acc (dquote # b @ dquote # CHR '':'' # s @ r) =
     (case skip_space r of
        [] \<Rightarrow> None
      | e # r4 \<Rightarrow>
          if e = CHR '','' then json_members m (AList.update k j acc) r4
          else if e = CHR ''}'' then Some (J_object (AList.update k j acc), r4)
          else None)"
  using assms by simp

lemma reads_fields_one:
  assumes "\<And>r. json_string (b @ dquote # r) = Some (k, r)" and "reads s j"
  shows "reads_fields (dquote # b @ dquote # CHR '':'' # s) [(k, j)]"
proof -
  obtain n where n: "\<And>m r. n \<le> m \<Longrightarrow> ends_value r \<Longrightarrow> json_value m (s @ r) = Some (j, r)"
    using assms(2) by (auto simp: reads_def)
  have key: "json_members (Suc m) acc ((dquote # b @ dquote # CHR '':'' # s) @ CHR ''}'' # r) = Some (J_object (acc @ [(k, j)]), r)"
    if "n \<le> m" "fst ` set acc \<inter> fst ` set [(k, j)] = {}" for m r acc
    using member_read [OF assms(1) n [OF that(1), of "CHR ''}'' # r"], of acc] update_fresh [of k acc j] that(2)
    by (simp add: ends_value_def del: json_value.simps json_members.simps)
  show ?thesis unfolding reads_fields_def by (intro from_some_on allI impI) (rule key, assumption+)
qed

lemma reads_fields_Cons:
  assumes "\<And>r. json_string (b @ dquote # r) = Some (k, r)" and "reads s j" and "reads_fields t ps"
    and "k \<notin> fst ` set ps"
  shows "reads_fields (dquote # b @ dquote # CHR '':'' # s @ CHR '','' # t) ((k, j) # ps)"
proof -
  obtain n where n: "\<And>m r. n \<le> m \<Longrightarrow> ends_value r \<Longrightarrow> json_value m (s @ r) = Some (j, r)"
    using assms(2) by (auto simp: reads_def)
  obtain n' where n': "\<And>m r acc. n' \<le> m \<Longrightarrow> fst ` set acc \<inter> fst ` set ps = {} \<Longrightarrow>
      json_members m acc (t @ CHR ''}'' # r) = Some (J_object (acc @ ps), r)"
    using assms(3) unfolding reads_fields_def by blast
  have key: "json_members (Suc m) acc ((dquote # b @ dquote # CHR '':'' # s @ CHR '','' # t) @ CHR ''}'' # r) =
      Some (J_object (acc @ (k, j) # ps), r)"
    if m: "max n n' \<le> m" and k: "fst ` set acc \<inter> fst ` set ((k, j) # ps) = {}" for m r acc
  proof -
    have "fst ` set (acc @ [(k, j)]) \<inter> fst ` set ps = {}" using k assms(4) by auto
    moreover have "AList.update k j acc = acc @ [(k, j)]" using k by (intro update_fresh) auto
    ultimately show ?thesis
      using member_read [OF assms(1) n [of m "CHR '','' # t @ CHR ''}'' # r"], of acc] n' [of m "acc @ [(k, j)]" r] m
      by (simp add: ends_value_def del: json_value.simps json_members.simps)
  qed
  show ?thesis unfolding reads_fields_def by (intro from_some_on allI impI) (rule key, assumption+)
qed

lemma reads_array_object:
  "reads ''[]'' (J_array [])"
  "reads_list (c # s) js \<Longrightarrow> \<not> json_space c \<Longrightarrow> c \<noteq> CHR '']'' \<Longrightarrow> reads (CHR ''['' # (c # s) @ '']'') (J_array js)"
  "reads ''{}'' (J_object [])"
  "reads_fields (c # s) ps \<Longrightarrow> \<not> json_space c \<Longrightarrow> c \<noteq> CHR ''}'' \<Longrightarrow> reads (CHR ''{'' # (c # s) @ ''}'') (J_object ps)"
proof -
  show "reads ''[]'' (J_array [])" "reads ''{}'' (J_object [])"
    unfolding reads_def by (intro from_some_on allI impI; simp)+
  {
    assume "reads_list (c # s) js" and c: "\<not> json_space c" "c \<noteq> CHR '']''"
    then obtain n where n: "\<And>m r acc. n \<le> m \<Longrightarrow> json_elements m acc ((c # s) @ CHR '']'' # r) = Some (J_array (acc @ js), r)"
      unfolding reads_list_def by blast
    have "json_value (Suc m) ((CHR ''['' # (c # s) @ '']'') @ r) = Some (J_array js, r)" if "n \<le> m" for m r
      using n [OF that, of "[]" r] c by simp
    then show "reads (CHR ''['' # (c # s) @ '']'') (J_array js)" unfolding reads_def by (intro from_some_on) blast
  }
  {
    assume "reads_fields (c # s) ps" and c: "\<not> json_space c" "c \<noteq> CHR ''}''"
    then obtain n where n: "\<And>m r acc. n \<le> m \<Longrightarrow> fst ` set acc \<inter> fst ` set ps = {} \<Longrightarrow>
        json_members m acc ((c # s) @ CHR ''}'' # r) = Some (J_object (acc @ ps), r)"
      unfolding reads_fields_def by blast
    have "json_value (Suc m) ((CHR ''{'' # (c # s) @ ''}'') @ r) = Some (J_object ps, r)" if "n \<le> m" for m r
      using n [OF that, of "[]" r] c by simp
    then show "reads (CHR ''{'' # (c # s) @ ''}'') (J_object ps)" unfolding reads_def by (intro from_some_on) blast
  }
qed

lemma reads_object: "reads_fields (dquote # s) ps \<Longrightarrow> reads (CHR ''{'' # dquote # s @ ''}'') (J_object ps)"
  using reads_array_object(4) [of dquote s ps] by simp

text \<open>
  The text of an object put together from its members: a name between its quotes, the name, the text of the value and
  the value.
\<close>

definition members_text :: "(string \<times> string \<times> string \<times> json) list \<Rightarrow> string" where
  "members_text ms = comma_join (map (\<lambda>(b, k, s, j). dquote # b @ dquote # CHR '':'' # s) ms)"

definition object_text :: "(string \<times> string \<times> string \<times> json) list \<Rightarrow> string" where
  "object_text ms = CHR ''{'' # members_text ms @ ''}''"

definition members_value :: "(string \<times> string \<times> string \<times> json) list \<Rightarrow> (string \<times> json) list" where
  "members_value ms = map (\<lambda>(b, k, s, j). (k, j)) ms"

definition member_ok :: "string \<times> string \<times> string \<times> json \<Rightarrow> bool" where
  "member_ok m \<longleftrightarrow> (case m of (b, k, s, j) \<Rightarrow> (\<forall>r. json_string (b @ dquote # r) = Some (k, r)) \<and> reads s j)"

lemma reads_members:
  assumes "ms \<noteq> []" and "\<forall>m \<in> set ms. member_ok m" and "distinct (map fst (members_value ms))"
  shows "reads_fields (members_text ms) (members_value ms)"
  using assms
proof (induction ms rule: list_nonempty_induct)
  case (single m)
  obtain b k s j where m: "m = (b, k, s, j)" by (cases m)
  with single reads_fields_one [of b k s j] show ?case
    by (simp add: members_text_def members_value_def member_ok_def)
next
  case (cons m ms)
  obtain b k s j where m: "m = (b, k, s, j)" by (cases m)
  have "reads_fields (members_text ms) (members_value ms)" using cons by (simp add: members_value_def)
  from reads_fields_Cons [of b k s j, OF _ _ this] cons m show ?case
    by (cases ms) (auto simp: members_text_def members_value_def member_ok_def)
qed

lemma reads_object_text:
  assumes "\<forall>m \<in> set ms. member_ok m" and "distinct (map fst (members_value ms))"
  shows "reads (object_text ms) (J_object (members_value ms))"
proof (cases ms)
  case (Cons m ms')
  obtain t where t: "members_text ms = dquote # t"
    unfolding Cons by (cases m; cases ms') (simp_all add: members_text_def)
  from reads_object [of t "members_value ms"] reads_members [OF _ assms] Cons t show ?thesis
    by (simp add: object_text_def)
qed (simp add: object_text_def members_text_def members_value_def reads_array_object(3))

lemma json_text_start: "json_exact j \<Longrightarrow> \<exists>c s. json_text j = c # s \<and> \<not> json_space c \<and> c \<noteq> CHR '']''"
proof (cases j)
  case (J_int i)
  have "is_digit (hd (nat_str n)) \<and> nat_str n \<noteq> []" for n by (simp add: nat_str_hd_digit)
  then have "int_str i \<noteq> [] \<and> (is_digit (hd (int_str i)) \<or> hd (int_str i) = CHR ''-'')"
    by (auto simp: int_str_def)
  then show ?thesis using J_int by (cases "int_str i") (auto simp: is_digit_def json_space_def)
qed (auto simp: js_quote_def json_space_def)

lemma reads_json_list:
  assumes "\<And>x. x \<in> set (j # js) \<Longrightarrow> reads (json_text x) x"
  shows "reads_list (comma_join (map json_text (j # js))) (j # js)"
  using assms
proof (induction js arbitrary: j)
  case (Cons j' js)
  then show ?case using reads_list_Cons [of "json_text j" j "comma_join (map json_text (j' # js))" "j' # js"] by simp
qed (simp add: reads_list_one)

lemma reads_json_text: "json_exact j \<Longrightarrow> reads (json_text j) j"
proof (induction j rule: json_text.induct)
  case (6 js)
  then have ih: "j \<in> set js \<Longrightarrow> reads (json_text j) j" for j by (simp add: list_all_iff)
  show ?case
  proof (cases js)
    case (Cons j js')
    obtain c s where c: "json_text j = c # s" "\<not> json_space c" "c \<noteq> CHR '']''"
      using json_text_start [of j] 6(2) Cons by auto
    have "\<exists>t. comma_join (map json_text (j # js')) = c # t" using c(1) by (cases js') auto
    then obtain t where t: "comma_join (map json_text (j # js')) = c # t" by blast
    have "reads_list (c # t) js"
      unfolding t [symmetric] Cons using ih Cons by (intro reads_json_list) simp
    from reads_array_object(2) [OF this c(2,3)] show ?thesis using t Cons by simp
  qed (simp add: reads_array_object(1))
next
  case (7 ps)
  let ?ms = "map (\<lambda>(k, j). (js_escape k, k, json_text j, j)) ps"
  have "reads (json_text j) j" if "(k, j) \<in> set ps" for k j
    using 7(1) [OF that refl] 7(2) that by (auto simp: list_all_iff)
  then have "reads (object_text ?ms) (J_object (members_value ?ms))"
    using 7(2) by (intro reads_object_text) (auto simp: member_ok_def json_string_js_escape members_value_def comp_def case_prod_beta)
  moreover have "members_value ?ms = ps" by (simp add: members_value_def comp_def case_prod_beta)
  moreover have "object_text ?ms = json_text (J_object ps)"
    by (simp add: object_text_def members_text_def comp_def case_prod_unfold js_quote_def)
  ultimately show ?case by simp
qed (simp_all add: reads_words reads_int reads_js_quote)

lemma json_parse_text: "json_exact j \<Longrightarrow> json_parse (json_text j) = Some j"
  by (intro json_parse_reads reads_json_text)

text \<open>A value is written on one line.\<close>

lemma js_quote_line: "newline \<notin> set (js_quote s)"
proof -
  have d: "n < 16 \<Longrightarrow> newline \<noteq> hex_digit n" for n using hex_digit_plain [of n] by auto
  have "newline \<notin> set (hex4 n)" for n by (simp add: hex4_def d)
  then have "newline \<notin> set (js_escape_char c)" for c by (auto simp: js_escape_char_def)
  then show ?thesis by (simp add: js_quote_def js_escape_def)
qed

lemma int_str_line: "newline \<notin> set (int_str i)"
proof -
  have "\<not> is_digit newline" by (simp add: is_digit_def)
  then have "newline \<notin> set (nat_str k)" for k using nat_str_digits [of k] by blast
  then show ?thesis by (simp add: int_str_def)
qed

lemma comma_join_line: "\<forall>t \<in> set ts. newline \<notin> set t \<Longrightarrow> newline \<notin> set (comma_join ts)"
  by (induction ts rule: comma_join.induct) simp_all

lemma json_text_line: "json_exact j \<Longrightarrow> newline \<notin> set (json_text j)"
proof (induction j rule: json_text.induct)
  case (6 js)
  then show ?case using comma_join_line [of "map json_text js"] by (auto simp: list_all_iff)
next
  case (7 ps)
  have "newline \<notin> set (js_quote k @ CHR '':'' # json_text j)" if "(k, j) \<in> set ps" for k j
    using 7(1) [OF that refl] 7(2) that js_quote_line by (auto simp: list_all_iff)
  then show ?case using comma_join_line [of "map (\<lambda>(k, j). js_quote k @ CHR '':'' # json_text j) ps"] by auto
qed (simp_all add: js_quote_line int_str_line)

end
