(* ===== verification/Worker_Wire.thy ===== *)
theory Worker_Wire
  imports Js_Json Worker_Properties Worker_Pool_Properties
begin

text \<open>
  The socket between the pool of the API server (\<^verbatim>\<open>api-server/ipc.js\<close>) and a worker (\<^verbatim>\<open>worker.cpp\<close>): the line the pool
  writes on \<^verbatim>\<open>connect\<close>, what its handler reads of a frame, and that each side reads what the other wrote. The pool
  writes and reads with \<^verbatim>\<open>JSON\<close>, the worker with its own escapes and regular expressions; they agree on text whose only
  control characters are line ends and tabs.
\<close>

section \<open>Values as the handler reads them\<close>

text \<open>
  \<^verbatim>\<open>Boolean(v)\<close> and \<^verbatim>\<open>String(v)\<close>. A number that is no integer literal is zero when no digit before its exponent is
  above 0, and prints as it was written: a value too small for a double and the shortest form of a fraction are left aside.
\<close>

definition js_truthy :: "json \<Rightarrow> bool" where
  "js_truthy j =
     (case j of
        J_null \<Rightarrow> False
      | J_bool b \<Rightarrow> b
      | J_int i \<Rightarrow> i \<noteq> 0
      | J_frac t \<Rightarrow> list_ex (\<lambda>c. c \<in> set ''123456789'') (takeWhile (\<lambda>c. c \<noteq> CHR ''e'' \<and> c \<noteq> CHR ''E'') t)
      | J_string s \<Rightarrow> s \<noteq> []
      | _ \<Rightarrow> True)"

fun js_string :: "json \<Rightarrow> string" where
  "js_string J_null = ''null''"
| "js_string (J_bool b) = (if b then ''true'' else ''false'')"
| "js_string (J_int i) = int_str i"
| "js_string (J_frac t) = t"
| "js_string (J_string s) = s"
| "js_string (J_array js) = comma_join (map (\<lambda>j. if j = J_null then [] else js_string j) js)"
| "js_string (J_object ps) = ''[object Object]''"

text \<open>\<^verbatim>\<open>String(v ?? d)\<close>, \<^verbatim>\<open>String(v || d)\<close>, \<^verbatim>\<open>Boolean(v)\<close> and \<^verbatim>\<open>v ? String(v) : null\<close> of a member that may be missing.\<close>

definition nullish_or :: "json option \<Rightarrow> string \<Rightarrow> string" where
  "nullish_or v d = (case v of None \<Rightarrow> d | Some j \<Rightarrow> if j = J_null then d else js_string j)"

definition falsy_or :: "json option \<Rightarrow> string \<Rightarrow> string" where
  "falsy_or v d = (case v of None \<Rightarrow> d | Some j \<Rightarrow> if js_truthy j then js_string j else d)"

definition member_truthy :: "json option \<Rightarrow> bool" where
  "member_truthy v = (case v of None \<Rightarrow> False | Some j \<Rightarrow> js_truthy j)"

definition truthy_string :: "json option \<Rightarrow> string option" where
  "truthy_string v = (case v of None \<Rightarrow> None | Some j \<Rightarrow> if js_truthy j then Some (js_string j) else None)"

definition frame_of :: "json \<Rightarrow> frame" where
  "frame_of msg =
     (case msg of
        J_null \<Rightarrow> Fr_null
      | J_object ps \<Rightarrow>
          if map_of ps ''type'' = Some (J_string ''token'') then Fr_token (nullish_or (map_of ps ''token'') [])
          else if map_of ps ''type'' = Some (J_string ''error'') then Fr_error (falsy_or (map_of ps ''error'') ''worker_error'')
          else if map_of ps ''type'' = Some (J_string ''result'') then
            Fr_result \<lparr>rpText = nullish_or (map_of ps ''text'') [], rpDevice = nullish_or (map_of ps ''device'') ''cpu'',
              rpDegraded = member_truthy (map_of ps ''degraded''), rpReason = truthy_string (map_of ps ''degradedReason'')\<rparr>
          else Fr_other
      | _ \<Rightarrow> Fr_other)"

definition frame_of_line :: "string \<Rightarrow> frame" where
  "frame_of_line line = (case json_parse line of None \<Rightarrow> Fr_bad | Some msg \<Rightarrow> frame_of msg)"

section \<open>The request line\<close>

definition request_line :: "string \<Rightarrow> string \<Rightarrow> string \<Rightarrow> bool \<Rightarrow> string" where
  "request_line requestId prompt mfeId stream =
     json_text (J_object [(''type'', J_string ''infer''), (''requestId'', J_string requestId), (''prompt'', J_string prompt),
       (''mfeId'', J_string mfeId), (''stream'', J_bool stream)]) @ [newline]"

lemma safe_js_escape: "json_safe s \<Longrightarrow> js_escape s = workerJsonEscape s"
  unfolding js_escape_def workerJsonEscape_eq json_escape_def
  by (rule arg_cong [where f = concat], rule map_cong [OF refl])
    (auto simp: json_safe_def list_all_iff js_escape_char_def json_escape_char_def)

lemma request_line_job:
  assumes "json_safe rid" and "json_safe prompt" and "json_safe mfe"
  shows "request_line rid prompt mfe stream =
    jobText \<lparr>job_requestId = rid, job_prompt = prompt, job_stream = stream\<rparr> mfe @ [newline]"
proof -
  have "json_safe k \<and> needs_no_escape k"
    if "k \<in> {''type'', ''infer'', ''requestId'', ''prompt'', ''mfeId'', ''stream''}" for k
    using that by (auto simp: json_safe_def needs_no_escape_def)
  then have "js_escape k = k" if "k \<in> {''type'', ''infer'', ''requestId'', ''prompt'', ''mfeId'', ''stream''}" for k
    using that safe_js_escape json_escape_id_iff by (simp add: workerJsonEscape_eq)
  with assms show ?thesis by (simp add: request_line_def jobText_def js_quote_def safe_js_escape)
qed

section \<open>The frames\<close>

lemma plain_read: "needs_no_escape k \<Longrightarrow> json_safe k \<Longrightarrow> json_string (k @ dquote # r) = Some (k, r)"
  using json_string_json_escape [of k r] json_escape_id_iff [of k] by simp

definition plain_text :: "string \<Rightarrow> bool" where
  "plain_text s \<longleftrightarrow> needs_no_escape s \<and> json_safe s"

text \<open>A member whose text is escaped by the worker, and one whose text is put in as it is.\<close>

definition wire_member :: "string \<Rightarrow> string \<Rightarrow> string \<times> string \<times> string \<times> json" where
  "wire_member k s = (k, k, dquote # workerJsonEscape s @ [dquote], J_string s)"

definition raw_member :: "string \<Rightarrow> string \<Rightarrow> string \<times> string \<times> string \<times> json" where
  "raw_member k s = (k, k, dquote # s @ [dquote], J_string s)"

definition bool_member :: "string \<Rightarrow> bool \<Rightarrow> string \<times> string \<times> string \<times> json" where
  "bool_member k b = (k, k, if b then ''true'' else ''false'', J_bool b)"

lemma members_ok:
  "plain_text k \<Longrightarrow> json_safe s \<Longrightarrow> member_ok (wire_member k s)"
  "plain_text k \<Longrightarrow> plain_text s \<Longrightarrow> member_ok (raw_member k s)"
  "plain_text k \<Longrightarrow> member_ok (bool_member k b)"
  by (auto simp: member_ok_def wire_member_def raw_member_def bool_member_def plain_text_def workerJsonEscape_eq
      plain_read reads_words intro!: reads_string json_string_json_escape)

lemma plain_names:
  "list_all plain_text [''type'', ''requestId'', ''token'', ''error'', ''result'', ''text'', ''device'', ''degraded'', ''degradedReason'']"
  by (simp add: plain_text_def needs_no_escape_def json_safe_def)

lemma line_read:
  assumes "\<forall>m \<in> set ms. member_ok m" and "distinct (map fst (members_value ms))"
  shows "frame_of_line (object_text ms) = frame_of (J_object (members_value ms))"
  using json_parse_reads [OF reads_object_text [OF assms]] by (simp add: frame_of_line_def)

lemma frame_texts:
  "butlast (tokenFrame rid t) = object_text [raw_member ''type'' ''token'', wire_member ''requestId'' rid, wire_member ''token'' t]"
  "butlast (errorFrame rid t) = object_text [raw_member ''type'' ''error'', wire_member ''requestId'' rid, wire_member ''error'' t]"
  by (simp_all add: tokenFrame_def errorFrame_def object_text_def members_text_def raw_member_def wire_member_def butlast_append)

text \<open>What a result frame says to the pool.\<close>

definition reply_of :: "string \<Rightarrow> worker_state \<Rightarrow> worker_reply" where
  "reply_of text' r =
     (let deg = degraded (rt_ladder r); reason = lad_degradedReason (rt_ladder r)
      in \<lparr>rpText = text', rpDevice = wk_activeDevice (rt_owner r), rpDegraded = deg,
          rpReason = (if deg \<and> reason \<noteq> [] then Some reason else None)\<rparr>)"

lemma result_text:
  "butlast (resultFrame rid t (deviceResultFields r)) = object_text
     ([raw_member ''type'' ''result'', wire_member ''requestId'' rid, wire_member ''text'' t,
       raw_member ''device'' (wk_activeDevice (rt_owner r)), bool_member ''degraded'' (degraded (rt_ladder r))] @
      (if degraded (rt_ladder r) then [wire_member ''degradedReason'' (lad_degradedReason (rt_ladder r))] else []))"
  by (simp add: resultFrame_def deviceResultFields_def object_text_def members_text_def raw_member_def wire_member_def
      bool_member_def butlast_append Let_def)

lemma member_values:
  "members_value [] = []"
  "members_value (raw_member k s # ms) = (k, J_string s) # members_value ms"
  "members_value (wire_member k s # ms) = (k, J_string s) # members_value ms"
  "members_value (bool_member k b # ms) = (k, J_bool b) # members_value ms"
  by (simp_all add: members_value_def raw_member_def wire_member_def bool_member_def)

lemma token_frame_read: "json_safe rid \<Longrightarrow> json_safe t \<Longrightarrow> frame_of_line (butlast (tokenFrame rid t)) = Fr_token t"
  unfolding frame_texts
  by (subst line_read) (use plain_names in \<open>auto simp: members_ok member_values frame_of_def nullish_or_def\<close>)

lemma error_frame_read:
  "json_safe rid \<Longrightarrow> json_safe t \<Longrightarrow>
   frame_of_line (butlast (errorFrame rid t)) = Fr_error (if t = [] then ''worker_error'' else t)"
  unfolding frame_texts
  by (subst line_read) (use plain_names in \<open>auto simp: members_ok member_values frame_of_def falsy_or_def js_truthy_def\<close>)

lemma result_frame_read:
  assumes "json_safe rid" and "json_safe t" and "plain_text (wk_activeDevice (rt_owner r))"
    and "degraded (rt_ladder r) \<longrightarrow> json_safe (lad_degradedReason (rt_ladder r))"
  shows "frame_of_line (butlast (resultFrame rid t (deviceResultFields r))) = Fr_result (reply_of t r)"
  unfolding result_text
  by (subst line_read) (use assms plain_names in \<open>auto simp: members_ok member_values frame_of_def nullish_or_def
      member_truthy_def truthy_string_def js_truthy_def reply_of_def Let_def\<close>)

section \<open>Chunks\<close>

text \<open>The handler's loop, when more text comes behind what it has seen.\<close>

lemma drain_append:
  "drain parse (x @ y) =
     (case drain parse x of
        (ts, None, b) \<Rightarrow> (let (ts', f, b') = drain parse (b @ y) in (ts @ ts', f, b'))
      | (ts, Some f, b) \<Rightarrow> (ts, Some f, b @ y))"
proof (induction parse x rule: drain.induct)
  case (1 parse x)
  show ?case
  proof (cases "find_char newline x")
    case None
    then show ?thesis by (simp add: drain.simps [of parse x])
  next
    case (Some i)
    then have i: "i < length x" by (rule find_char_bound)
    have xy: "drain parse (x @ y) =
        (let line = js_trim (take i x); rest = drop (Suc i) x @ y
         in if line = [] then drain parse rest
            else case parse line of
                Fr_token t \<Rightarrow> (let (ts, f, b) = drain parse rest in (t # ts, f, b))
              | Fr_other \<Rightarrow> drain parse rest
              | f \<Rightarrow> ([], Some f, rest))"
      using i by (simp add: drain.simps [of parse "x @ y"] find_char_prefix [OF Some] Let_def)
    show ?thesis
    proof (cases "js_trim (take i x) = []")
      case True
      then show ?thesis using 1(1) [OF Some refl refl] xy by (simp add: drain.simps [of parse x] Some Let_def)
    next
      case False
      note ih = 1(2) [OF Some refl refl False] 1(3) [OF Some refl refl False]
      show ?thesis
        using ih False xy
        by (cases "parse (js_trim (take i x))")
          (simp_all add: drain.simps [of parse x] Some Let_def split: prod.splits option.splits)
    qed
  qed
qed

lemma drain_line:
  assumes "newline \<notin> set l" and "js_trim l = l" and "l \<noteq> []"
  shows "drain parse (l @ newline # r) =
    (case parse l of
       Fr_token t \<Rightarrow> (let (ts, f, b) = drain parse r in (t # ts, f, b))
     | Fr_other \<Rightarrow> drain parse r
     | f \<Rightarrow> ([], Some f, r))"
  using assms by (simp add: drain.simps [of parse "l @ newline # r"] find_char_append Let_def)

lemma braces_trim:
  assumes "hd l = CHR ''{''" and "last l = CHR ''}''" and "l \<noteq> []"
  shows "js_trim l = l"
  using assms trim_start_id [of l] trim_end_id [of l] by (simp add: js_trim_def is_space_def)

lemma object_text_trim: "js_trim (object_text ms) = object_text ms" "object_text ms \<noteq> []"
  by (rule braces_trim) (simp_all add: object_text_def)

lemma token_line:
  "tokenFrame rid t = butlast (tokenFrame rid t) @ [newline]"
  "newline \<notin> set (butlast (tokenFrame rid t))"
  using escape_one_line by (simp_all add: tokenFrame_def butlast_append)

lemma result_line:
  assumes "plain_text (wk_activeDevice (rt_owner r))"
  shows "resultFrame rid t (deviceResultFields r) = butlast (resultFrame rid t (deviceResultFields r)) @ [newline]"
    and "newline \<notin> set (butlast (resultFrame rid t (deviceResultFields r)))"
proof -
  have "newline \<notin> set (wk_activeDevice (rt_owner r))"
    using assms by (auto simp: plain_text_def needs_no_escape_def list_all_iff)
  then show "newline \<notin> set (butlast (resultFrame rid t (deviceResultFields r)))"
    using escape_one_line by (simp add: resultFrame_def deviceResultFields_def butlast_append Let_def)
qed (simp add: resultFrame_def butlast_append)

text \<open>Text the two sides of the wire agree on.\<close>

definition answer_plain :: "string \<Rightarrow> string list \<Rightarrow> string \<Rightarrow> worker_state \<Rightarrow> bool" where
  "answer_plain rid tokens text' r \<longleftrightarrow>
     json_safe rid \<and> list_all json_safe tokens \<and> json_safe text' \<and> plain_text (wk_activeDevice (rt_owner r)) \<and>
     (degraded (rt_ladder r) \<longrightarrow> json_safe (lad_degradedReason (rt_ladder r)))"

lemma drain_answer:
  assumes "answer_plain rid tokens text' r"
  shows "drain frame_of_line (fullAnswer rid tokens text' r) = (tokens, Some (Fr_result (reply_of text' r)), [])"
  using assms
proof (induction tokens)
  case Nil
  let ?l = "butlast (resultFrame rid text' (deviceResultFields r))"
  have p: "plain_text (wk_activeDevice (rt_owner r))" using Nil by (simp add: answer_plain_def)
  have "js_trim ?l = ?l" "?l \<noteq> []" unfolding result_text by (rule object_text_trim)+
  from drain_line [OF result_line(2) [OF p] this, of frame_of_line "[]"] show ?case
    using Nil result_frame_read [of rid text' r] result_line(1) [OF p, of rid text']
    by (simp add: fullAnswer_def answer_plain_def)
next
  case (Cons t tokens)
  let ?l = "butlast (tokenFrame rid t)"
  have "js_trim ?l = ?l" "?l \<noteq> []" unfolding frame_texts by (rule object_text_trim)+
  note step = drain_line [OF token_line(2) this, of frame_of_line "fullAnswer rid tokens text' r"]
  have "fullAnswer rid (t # tokens) text' r = ?l @ newline # fullAnswer rid tokens text' r"
    unfolding fullAnswer_def list.map concat.simps by (subst (1) token_line(1)) simp
  then show ?case
    using step Cons token_frame_read [of rid t] by (simp add: answer_plain_def)
qed

lemma drain_rest: "drain parse x = (ts, None, b) \<Longrightarrow> drain parse b = ([], None, b)"
proof (induction parse x arbitrary: ts rule: drain.induct)
  case (1 parse x)
  show ?case
  proof (cases "find_char newline x")
    case None
    then have "drain parse x = ([], None, x)" by (simp add: drain.simps [of parse x])
    with 1(4) show ?thesis by auto
  next
    case (Some i)
    show ?thesis
    proof (cases "js_trim (take i x) = []")
      case True
      then show ?thesis using 1(1) [OF Some refl refl] 1(4) by (simp add: drain.simps [of parse x] Some Let_def)
    next
      case False
      note ih = 1(2) [OF Some refl refl False] 1(3) [OF Some refl refl False]
      show ?thesis
        using ih False 1(4)
        by (cases "parse (js_trim (take i x))")
          (auto simp: drain.simps [of parse x] Some Let_def split: prod.splits)
    qed
  qed
qed

text \<open>What the handler leaves of the request when a result has come.\<close>

lemma finish_result_request:
  assumes "open_request p k"
  shows "plRequests (finish_result k rep p) ! k =
      (plRequests p ! k)\<lparr>rqDone := True, rqOutcome := Some (Answered rep), rqConnTimer := False\<rparr>"
    and "length (plRequests (finish_result k rep p)) = length (plRequests p)"
  using assms
  by (simp_all add: finish_result_def open_request_def recordDevice_def cleanup_def on_worker_def on_request_def Let_def)

lemma on_data_result:
  assumes "open_request p k" and "drain parse (rqBuffer (plRequests p ! k) @ x) = (ts, Some (Fr_result rep), b)"
  shows "plRequests (on_data c parse k x p) ! k = (plRequests p ! k)\<lparr>rqBuffer := b,
      rqTokens := rqTokens (plRequests p ! k) @ (if rqStream (plRequests p ! k) then ts else []),
      rqDone := True, rqOutcome := Some (Answered rep), rqConnTimer := False\<rparr>"
    and "length (plRequests (on_data c parse k x p)) = length (plRequests p)"
proof -
  let ?p = "on_request k (\<lambda>r. r\<lparr>rqBuffer := b, rqTokens := rqTokens r @ (if rqStream r then ts else [])\<rparr>) p"
  have o: "open_request ?p k" using assms(1) by (simp add: open_request_def on_request_def)
  have "on_data c parse k x p = finish_result k rep ?p" using assms(2) by (simp add: on_data_def Let_def)
  then show "plRequests (on_data c parse k x p) ! k = (plRequests p ! k)\<lparr>rqBuffer := b,
      rqTokens := rqTokens (plRequests p ! k) @ (if rqStream (plRequests p ! k) then ts else []),
      rqDone := True, rqOutcome := Some (Answered rep), rqConnTimer := False\<rparr>"
    "length (plRequests (on_data c parse k x p)) = length (plRequests p)"
    using finish_result_request [OF o] assms(1) by (simp_all add: open_request_def on_request_def)
qed

lemma on_data_idle:
  assumes "k < length (plRequests p)" and "rqBuffer (plRequests p ! k) = []"
  shows "on_data c parse k [] p = p"
proof -
  have "drain parse [] = ([], None, [])" by (simp add: drain.simps)
  then have d: "on_data c parse k [] p = on_request k (\<lambda>r. r\<lparr>rqBuffer := []\<rparr>) p"
    using assms by (simp add: on_data_def on_request_def Let_def)
  have "plRequests p ! k = (plRequests p ! k)\<lparr>rqBuffer := []\<rparr>"
    using assms(2) by (cases "plRequests p ! k") simp
  then have "(plRequests p)[k := (plRequests p ! k)\<lparr>rqBuffer := []\<rparr>] = plRequests p"
    by (metis list_update_id)
  then show ?thesis unfolding d on_request_def by simp
qed

text \<open>The whole answer may come in any chunks: the handler leaves what it leaves when it comes in one.\<close>

lemma on_data_chunks:
  assumes "open_request p k" and "drain parse (rqBuffer (plRequests p ! k)) = ([], None, rqBuffer (plRequests p ! k))"
    and "drain parse (rqBuffer (plRequests p ! k) @ concat chunks) = (ts, Some (Fr_result rep), [])"
  shows "fold (on_data c parse k) chunks p = on_data c parse k (concat chunks) p"
  using assms
proof (induction chunks arbitrary: p ts)
  case (Cons x chunks)
  let ?buf = "rqBuffer (plRequests p ! k)"
  have k: "k < length (plRequests p)" using Cons.prems(1) by (simp add: open_request_def)
  obtain tx fx b where x: "drain parse (?buf @ x) = (tx, fx, b)" by (metis prod_cases3)
  show ?case
  proof (cases fx)
    case None
    let ?p = "on_data c parse k x p"
    have p: "?p = on_request k (\<lambda>r. r\<lparr>rqBuffer := b, rqTokens := rqTokens r @ (if rqStream r then tx else [])\<rparr>) p"
      using x None by (simp add: on_data_def Let_def)
    have r: "plRequests ?p ! k = (plRequests p ! k)\<lparr>rqBuffer := b,
        rqTokens := rqTokens (plRequests p ! k) @ (if rqStream (plRequests p ! k) then tx else [])\<rparr>"
      using k by (simp add: p on_request_def)
    have o: "open_request ?p k" using Cons.prems(1) by (simp add: p open_request_def on_request_def)
    obtain ty fy b' where y: "drain parse (b @ concat chunks) = (ty, fy, b')" by (metis prod_cases3)
    then have y': "tx @ ty = ts" "fy = Some (Fr_result rep)" "b' = []"
      using drain_append [of parse "?buf @ x" "concat chunks"] x None Cons.prems(3) by simp_all
    have "fold (on_data c parse k) chunks ?p = on_data c parse k (concat chunks) ?p"
      using Cons.IH [OF o] r y y' drain_rest [OF x [unfolded None]] by simp
    also have "\<dots> = on_data c parse k (x @ concat chunks) p"
    proof -
      have e: "on_request k f (on_request k g p) = on_request k (\<lambda>r. f (g r)) p" for f g
        using k by (simp add: on_request_def)
      show ?thesis
        using r y y' drain_append [of parse "?buf @ x" "concat chunks"] x None
        by (simp add: on_data_def [of _ _ _ "concat chunks"] on_data_def [of _ _ _ "x @ concat chunks"] Let_def)
          (simp add: p e if_distrib [of "(@) _"] cong: if_cong)
    qed
    finally show ?thesis by simp
  next
    case (Some f)
    then have f: "f = Fr_result rep" "b = []" "concat chunks = []"
      using drain_append [of parse "?buf @ x" "concat chunks"] x Cons.prems(3) by simp_all
    from on_data_result [OF Cons.prems(1) x [unfolded Some f(1,2)], of c]
    have i: "on_data c parse k [] (on_data c parse k x p) = on_data c parse k x p"
      using k by (intro on_data_idle) simp_all
    have "\<forall>y \<in> set chunks. y = []" using f(3) by simp
    then have "fold (on_data c parse k) chunks (on_data c parse k x p) = on_data c parse k x p"
      using i by (induction chunks) simp_all
    moreover have "on_data c parse k (x @ concat chunks) p = on_data c parse k x p" unfolding f(3) by simp
    ultimately show ?thesis by simp
  qed
qed simp

section \<open>There and back\<close>

lemma serveJob_sends:
  assumes "route (Some onTierChanged) (job_prompt job) (job_stream job) r = Some (res, tokens, q)"
    and "ww_engine (rt_world r) \<noteq> None" and "router_ok N r"
  shows "serveJob job ss r = sendAnswer (job_requestId job) tokens (answerText (job_stream job) res) ss
      (onOwner (setDevice (active q)) q)"
    and "tokens = [] \<or> job_stream job \<and> concat tokens = rr_text res"
proof -
  show t: "tokens = [] \<or> job_stream job \<and> concat tokens = rr_text res"
    using wkh.route_spec [OF assms(1,3)] by (auto simp: wkh.served_def split: if_splits)
  show "serveJob job ss r = sendAnswer (job_requestId job) tokens (answerText (job_stream job) res) ss
      (onOwner (setDevice (active q)) q)"
  proof (cases "job_stream job")
    case False
    then have "generateWithFallback (job_prompt job) r = Some (answerText False res, onOwner (setDevice (active q)) q)" "tokens = []"
      using assms(1) t by (simp_all add: generateWithFallback_def answerText_def)
    with assms(2) False show ?thesis by (auto simp: serveJob_def sendAnswer_Nil Let_def)
  next
    case True
    then have "streamWithFallback (job_prompt job) r = Some (answerText True res, tokens, onOwner (setDevice (active q)) q)"
      using assms(1) by (simp add: streamWithFallback_def answerText_def)
    with assms(2) True show ?thesis by (auto simp: serveJob_def sendAnswer_def Let_def)
  qed
qed

lemma sendAnswer_delivers:
  assumes "all_taken ss" and "length (fullAnswer rid tokens text' s) \<le> length ss"
  shows "sendAnswer rid tokens text' ss s = Some (fullAnswer rid tokens text' s, s)"
proof -
  let ?frames = "concat (map (tokenFrame rid) tokens)" and ?last = "resultFrame rid text' (deviceResultFields s)"
  obtain k where k: "k \<le> length ?frames" "sendTokens rid tokens ss = Some (True, ?frames, drop k ss)"
    using sendTokens_delivers [OF assms(1), of rid tokens] assms(2) by (auto simp: fullAnswer_def)
  have "all_taken (drop k ss)" "length ?last \<le> length (drop k ss)"
    using assms k(1) by (auto simp: fullAnswer_def all_taken_def list_all_iff dest: in_set_dropD)
  from sendAll_delivers [OF this] k(2) show ?thesis by (auto simp: sendAnswer_def reply_def fullAnswer_def)
qed

lemma request_line_parsed:
  assumes "sound_reads rs" and "delivered rs = request_line rid prompt mfe stream"
    and "length (request_line rid prompt mfe stream) \<le> 1024 * 1024"
    and "json_safe rid" and "json_safe prompt" and "json_safe mfe"
  shows "\<exists>payload. readPayload rs [] = Some (Inr payload) \<and>
    parseJob (firstLine payload) = (\<lparr>job_requestId = rid, job_prompt = prompt, job_stream = stream\<rparr>, None)"
proof -
  let ?t = "jobText \<lparr>job_requestId = rid, job_prompt = prompt, job_stream = stream\<rparr> mfe"
  have l: "request_line rid prompt mfe stream = ?t @ [newline]" by (rule request_line_job [OF assms(4-6)])
  have "readPayload rs [] = Some (Inr (?t @ [newline]))"
    using assms(1-3) l jobText_one_line by (intro readPayload_line) simp_all
  then show ?thesis by (simp add: firstLine_line jobText_one_line jobText_parsed)
qed


text \<open>The request of one client, to the worker of \<open>Worker_Demo\<close>.\<close>

definition demo_wire_pool :: pool where
  "demo_wire_pool = \<lparr>plWorkers = [\<lparr>wkStatus = Busy, wkTimer = None, wkAttempt = 0, wkStartedAt = 0, wkDevice = None,
       wkDegraded = False, wkReason = None\<rparr>],
     plInFlight = [(''a'', 0)],
     plRequests = [\<lparr>rqId = ''a'', rqWorker = 0, rqStream = True, rqDone = False, rqConnTimer = False, rqDestroyed = False,
       rqClosed = False, rqBuffer = [], rqTokens = [], rqOutcome = None\<rparr>],
     plTimers = [], plNextTimer = 0, plProbes = [], plThrown = False\<rparr>"

definition demo_wire_client :: client_os where
  "demo_wire_client = \<lparr>cl_now = 5, cl_reads = [ReadBytes (request_line ''a'' ''q'' ''m'' True)],
     cl_sends = replicate 1000 (SendBytes 7)\<rparr>"

definition demo_wire_config :: pool_config where
  "demo_wire_config = \<lparr>pcRecoveryMs = 2000, pcRecoveryAttempts = 10, pcStartupGraceMs = 15000, pcConnectTimeoutMs = 3000\<rparr>"


end
