(* ===== verification/Answer_Stream.thy ===== *)
theory Answer_Stream
  imports Event_Stream Worker_Wire
begin

text \<open>
  A streamed answer on its way from \<^verbatim>\<open>GET /infer/stream\<close> of the API server (\<^verbatim>\<open>api-server/routes/infer.js\<close>) to the shell
  app (\<^verbatim>\<open>shell-app/edgeAgentService.js\<close>): the payloads of the events, and the object the shell app answers with.
\<close>

section \<open>The events of an answer\<close>

definition token_payload :: "string \<Rightarrow> string \<Rightarrow> json" where
  "token_payload requestId token = J_object [(''requestId'', J_string requestId), (''token'', J_string token)]"

definition done_payload :: "string \<Rightarrow> worker_reply \<Rightarrow> bool \<Rightarrow> json" where
  "done_payload requestId rep replay =
     J_object [(''requestId'', J_string requestId), (''result'', J_string (rpText rep)), (''device'', J_string (rpDevice rep)),
       (''degraded'', J_bool (rpDegraded rep)),
       (''degradedReason'', case rpReason rep of None \<Rightarrow> J_null | Some s \<Rightarrow> J_string s), (''replay'', J_bool replay)]"

definition answer_stream :: "string \<Rightarrow> string list \<Rightarrow> worker_reply \<Rightarrow> bool \<Rightarrow> string" where
  "answer_stream requestId tokens rep replay =
     concat (map (\<lambda>t. send_sse ''token'' (json_text (token_payload requestId t))) tokens) @
     send_sse ''done'' (json_text (done_payload requestId rep replay))"

section \<open>What the shell app makes of them\<close>

text \<open>
  The returned object, of which \<^verbatim>\<open>requestId\<close> is the caller's own; a member of a payload that is no object is undefined.
  \<open>None\<close> is the exception.
\<close>

definition shell_answer :: "json sse_reader \<Rightarrow> worker_reply option" where
  "shell_answer st =
     (let answer = (\<lambda>ps. \<lparr>rpText = falsy_or (map_of ps ''result'') [], rpDevice = falsy_or (map_of ps ''device'') ''cpu'',
            rpDegraded = member_truthy (map_of ps ''degraded''), rpReason = truthy_string (map_of ps ''degradedReason'')\<rparr>)
      in case stream_result st of
           Stream_throws e \<Rightarrow> None
         | Stream_answer (Parsed (J_object ps)) \<Rightarrow> Some (answer ps)
         | _ \<Rightarrow> Some (answer []))"

lemma object_line: "json_exact (J_object ps) \<Longrightarrow> json_line (json_text (J_object ps))"
  using json_text_line [of "J_object ps"] by (simp add: json_line_def is_space_def)

lemma payloads_exact: "json_exact (token_payload rid t)" "json_exact (done_payload rid rep replay)"
  by (simp_all add: token_payload_def done_payload_def split: option.split)

text \<open>C30: What the API server streams, the shell app receives. Whatever bytes the tokens and the answer hold, and wherever
  the stream is cut into chunks, every token is handed on once and in order with its request id, and the call returns
  the answer, its device and its degradation as the API server had them.\<close>

theorem streamed_answer_arrives:
  assumes "concat chunks = answer_stream rid tokens rep replay"
    and "rpDevice rep \<noteq> []" and "rpReason rep \<noteq> Some []"
  shows "srTokens (fold (sse_chunk json_parse) chunks sse_start) = map (Parsed \<circ> token_payload rid) tokens \<and>
    shell_answer (fold (sse_chunk json_parse) chunks sse_start) = Some rep"
proof -
  let ?final = "json_text (done_payload rid rep replay)" and ?tokens = "map (json_text \<circ> token_payload rid) tokens"
  have "json_line (json_text (token_payload rid t))" "json_line ?final" for t
    using payloads_exact unfolding token_payload_def done_payload_def by (intro object_line; simp)+
  then have lines: "\<forall>p \<in> set (?final # ?tokens). json_line p" by auto
  have sent: "concat chunks = concat (map (send_sse ''token'') ?tokens) @ send_sse ''done'' ?final"
    by (simp add: assms(1) answer_stream_def comp_def)
  have p: "read_payload json_parse (json_text j) = Parsed j" if "json_exact j" for j
    using json_parse_text [OF that] by (simp add: read_payload_def)
  from stream_delivers [OF lines sent, of json_parse]
  have "srTokens (fold (sse_chunk json_parse) chunks sse_start) = map (Parsed \<circ> token_payload rid) tokens"
    "stream_result (fold (sse_chunk json_parse) chunks sse_start) = Stream_answer (Parsed (done_payload rid rep replay))"
    using p payloads_exact by (simp_all add: comp_def)
  then show ?thesis
    using assms(2,3) by (cases rep) (auto simp: shell_answer_def done_payload_def falsy_or_def member_truthy_def
        truthy_string_def js_truthy_def Let_def split: option.split)
qed

theorem streamed_answer_arrives_witness:
  "let rep = \<lparr>rpText = [CHR ''a'', newline, dquote, CHR 0x01], rpDevice = ''cpu'', rpDegraded = True, rpReason = Some ''hot''\<rparr>;
       sent = answer_stream ''r1'' [[CHR ''a'', newline], [dquote, CHR 0x01]] rep False
   in shell_answer (fold (sse_chunk json_parse) [take 11 sent, drop 11 sent] sse_start) = Some rep"
  unfolding Let_def
  by (rule conjunct2 [OF streamed_answer_arrives]) simp_all

end
