(* ===== verification/Js_Env.thy ===== *)
theory Js_Env
  imports Js_Collections
begin

text \<open>
  \<^verbatim>\<open>config/env.js\<close>: where the two servers read their settings. The environment is a map, a file is its text or \<open>None\<close>
  when it does not exist. \<^verbatim>\<open>loadEnv\<close> reads \<^verbatim>\<open>.env.example\<close> and then \<^verbatim>\<open>.env\<close>, once.
\<close>

section \<open>Lines\<close>

definition squote :: char where "squote = CHR 0x27"

definition unquote :: "string \<Rightarrow> string" where
  "unquote v = (if v \<noteq> [] \<and> (hd v = dquote \<or> hd v = squote) \<and> last v = hd v then butlast (tl v) else v)"

definition parseEnvLine :: "string \<Rightarrow> (string \<times> string) option" where
  "parseEnvLine line =
     (let trimmed = js_trim line
      in if trimmed = [] \<or> hd trimmed = CHR ''#'' then None
         else case find_char CHR ''='' trimmed of
             None \<Rightarrow> None
           | Some i \<Rightarrow>
               let key = js_trim (take i trimmed); v = js_trim (drop (Suc i) trimmed)
               in if key = [] then None else Some (key, unquote v))"

text \<open>\<^verbatim>\<open>split(/\r?\n/)\<close>\<close>

fun split_crlf :: "string \<Rightarrow> string \<Rightarrow> string list" where
  "split_crlf acc [] = [rev acc]"
| "split_crlf acc (ch # s) =
     (if ch = newline then rev (case acc of c # cs \<Rightarrow> if c = creturn then cs else acc | [] \<Rightarrow> []) # split_crlf [] s
      else split_crlf (ch # acc) s)"

section \<open>Loading\<close>

type_synonym js_environ = "string \<rightharpoonup> string"

definition loadLine :: "string set \<Rightarrow> bool \<Rightarrow> string \<Rightarrow> js_environ \<Rightarrow> js_environ" where
  "loadLine initialKeys overrideLoadedValues line env =
     (case parseEnvLine line of
        None \<Rightarrow> env
      | Some (k, v) \<Rightarrow>
          if k \<in> initialKeys then env
          else if overrideLoadedValues \<or> env k = None then env(k \<mapsto> v) else env)"

definition loadFile :: "string set \<Rightarrow> string option \<Rightarrow> bool \<Rightarrow> js_environ \<Rightarrow> js_environ" where
  "loadFile initialKeys f overrideLoadedValues env =
     (case f of None \<Rightarrow> env | Some s \<Rightarrow> fold (loadLine initialKeys overrideLoadedValues) (split_crlf [] s) env)"

record js_process =
  jpEnv :: js_environ
  jpInitialKeys :: "string set"
  jpLoaded :: bool

definition js_process_start :: "js_environ \<Rightarrow> js_process" where
  "js_process_start env = \<lparr>jpEnv = env, jpInitialKeys = dom env, jpLoaded = False\<rparr>"

definition loadEnv :: "string option \<Rightarrow> string option \<Rightarrow> js_process \<Rightarrow> js_process" where
  "loadEnv example dotenv jp =
     (if jpLoaded jp then jp
      else jp\<lparr>jpEnv := loadFile (jpInitialKeys jp) dotenv True (loadFile (jpInitialKeys jp) example False (jpEnv jp)),
              jpLoaded := True\<rparr>)"

definition requiredEnv :: "string option \<Rightarrow> string option \<Rightarrow> string \<Rightarrow> js_process \<Rightarrow> (string + string) \<times> js_process" where
  "requiredEnv example dotenv key jp =
     (let jp1 = loadEnv example dotenv jp
      in (case jpEnv jp1 key of
            None \<Rightarrow> Inl (''Missing required environment variable: '' @ key)
          | Some v \<Rightarrow> if v = [] then Inl (''Missing required environment variable: '' @ key) else Inr v, jp1))"

text \<open>\<^verbatim>\<open>Number(raw)\<close> is the argument \<open>number\<close>, with \<open>None\<close> for what is not finite.\<close>

definition numberEnv ::
  "(string \<Rightarrow> 'n option) \<Rightarrow> string option \<Rightarrow> string option \<Rightarrow> string \<Rightarrow> js_process \<Rightarrow> (string + 'n) \<times> js_process" where
  "numberEnv number example dotenv key jp =
     (case requiredEnv example dotenv key jp of
        (Inl e, jp1) \<Rightarrow> (Inl e, jp1)
      | (Inr raw, jp1) \<Rightarrow>
          (case number raw of
             None \<Rightarrow> Inl (''Environment variable '' @ key @ '' must be a number'')
           | Some n \<Rightarrow> Inr n, jp1))"

section \<open>Precedence\<close>

text \<open>The settings of a file, in its order.\<close>

definition settings :: "string option \<Rightarrow> (string \<times> string) list" where
  "settings f = (case f of None \<Rightarrow> [] | Some s \<Rightarrow> List.map_filter parseEnvLine (split_crlf [] s))"

lemma fold_keep:
  "fold (loadLine I False) ls env k =
     (if k \<in> I \<or> env k \<noteq> None then env k else map_of (List.map_filter parseEnvLine ls) k)"
  by (induction ls arbitrary: env) (auto simp: loadLine_def map_filter_simps split: option.splits)

lemma fold_override:
  "fold (loadLine I True) ls env k =
     (if k \<in> I then env k
      else case map_of (rev (List.map_filter parseEnvLine ls)) k of Some v \<Rightarrow> Some v | None \<Rightarrow> env k)"
  by (induction ls arbitrary: env)
    (auto simp: loadLine_def map_filter_simps map_add_def split: option.splits)

text \<open>C32: The order of the settings: what the process inherited wins, then the last line for the name in \<^verbatim>\<open>.env\<close>, then the
  first in \<^verbatim>\<open>.env.example\<close>; a name found nowhere, or set to nothing, is reported as missing.
\<close>

theorem settings_precedence:
  "fst (requiredEnv example dotenv key (js_process_start env)) =
     (case (case env key of Some v \<Rightarrow> Some v
       | None \<Rightarrow> (case map_of (rev (settings dotenv)) key of Some v \<Rightarrow> Some v | None \<Rightarrow> map_of (settings example) key)) of
        Some v \<Rightarrow> if v = [] then Inl (''Missing required environment variable: '' @ key) else Inr v
      | None \<Rightarrow> Inl (''Missing required environment variable: '' @ key))"
proof -
  have "jpEnv (loadEnv example dotenv (js_process_start env)) key =
     (case env key of Some v \<Rightarrow> Some v
       | None \<Rightarrow> (case map_of (rev (settings dotenv)) key of Some v \<Rightarrow> Some v | None \<Rightarrow> map_of (settings example) key))"
    by (auto simp: loadEnv_def js_process_start_def loadFile_def settings_def fold_keep fold_override dom_def
        split: option.split)
  then show ?thesis by (simp add: requiredEnv_def Let_def split: option.split)
qed

end
