(* ===== verification/Remote_Child.thy ===== *)
theory Remote_Child
  imports Worker_Wire Js_Env Complex_Main
begin

text \<open>
  \<^verbatim>\<open>remote/sarvamTransport.js\<close>: the child process that carries one prompt to the vendor's service, and its agreement with
  \<^verbatim>\<open>remoteTransport.cpp\<close>, which starts it. The vendor's SDK is a parameter: \<open>Inl\<close> the message when it cannot be loaded, or
  what its one call answers. \<open>env\<close> is \<^verbatim>\<open>process.env\<close> after \<^verbatim>\<open>loadEnv\<close>, \<^verbatim>\<open>Number\<close> is the argument \<open>number\<close> (\<open>None\<close> when
  not finite), and an endpoint that is no string counts as its text.
\<close>

section \<open>Configuration\<close>

definition env_or :: "js_environ \<Rightarrow> string \<Rightarrow> string \<Rightarrow> string" where
  "env_or env name d = (case env name of None \<Rightarrow> d | Some v \<Rightarrow> if v = [] then d else v)"

definition numberOr :: "(string \<Rightarrow> real option) \<Rightarrow> string option \<Rightarrow> real \<Rightarrow> real" where
  "numberOr number raw fallback =
     (case raw of
        None \<Rightarrow> fallback
      | Some v \<Rightarrow> if v = [] then fallback else (case number v of None \<Rightarrow> fallback | Some x \<Rightarrow> x))"

record sarvam_config =
  sc_apiKey :: string
  sc_baseUrl :: string
  sc_model :: string
  sc_temperature :: real
  sc_topP :: real
  sc_maxTokens :: real
  sc_timeoutMs :: real

definition readConfig :: "(string \<Rightarrow> real option) \<Rightarrow> js_environ \<Rightarrow> sarvam_config" where
  "readConfig number env =
     \<lparr>sc_apiKey = env_or env ''EDGE_SARVAM_API_KEY'' [],
      sc_baseUrl = env_or env ''EDGE_REMOTE_ENDPOINT'' [],
      sc_model = env_or env ''EDGE_SARVAM_MODEL'' ''sarvam-105b-conversations'',
      sc_temperature = numberOr number (env ''EDGE_SARVAM_TEMPERATURE'') (2 / 10),
      sc_topP = numberOr number (env ''EDGE_SARVAM_TOP_P'') 1,
      sc_maxTokens = numberOr number (env ''EDGE_SARVAM_MAX_TOKENS'') 2000,
      sc_timeoutMs = numberOr number (env ''EDGE_REMOTE_TIMEOUT_MS'') 30000\<rparr>"

section \<open>The call\<close>

text \<open>What the SDK is given; it is told never to retry.\<close>

record sdk_call =
  sk_key :: string
  sk_baseUrl :: "string option"
  sk_prompt :: string
  sk_model :: string
  sk_temperature :: real
  sk_topP :: real
  sk_maxTokens :: real
  sk_timeoutSeconds :: real

definition sdk_request :: "(string \<Rightarrow> real option) \<Rightarrow> js_environ \<Rightarrow> string \<Rightarrow> json option \<Rightarrow> sdk_call" where
  "sdk_request number env prompt endpoint =
     (let config = readConfig number env;
          baseUrl = falsy_or endpoint (sc_baseUrl config)
      in \<lparr>sk_key = sc_apiKey config, sk_baseUrl = (if baseUrl = [] then None else Some baseUrl), sk_prompt = prompt,
           sk_model = sc_model config, sk_temperature = sc_temperature config, sk_topP = sc_topP config,
           sk_maxTokens = sc_maxTokens config, sk_timeoutSeconds = sc_timeoutMs config / 1000\<rparr>)"

text \<open>
  The answer: the content of the first choice, if it is there, or the exception with its message. \<open>Sdk_no_client\<close> is an
  exception of the constructor, which is outside the \<^verbatim>\<open>try\<close> of \<^verbatim>\<open>call\<close> and is caught by \<^verbatim>\<open>main\<close>.
\<close>

datatype sdk_answer =
    Sdk_no_client string
  | Sdk_content "json option"
  | Sdk_timeout string
  | Sdk_api_error "int option" string
  | Sdk_failure string

definition classify_answer :: "sdk_answer \<Rightarrow> RemoteResponse" where
  "classify_answer a =
     (case a of
        Sdk_no_client m \<Rightarrow> \<lparr>rs_status = 0, rs_text = [], rs_error = ''transport request was unreadable: '' @ m\<rparr>
      | Sdk_content v \<Rightarrow>
          (case v of
             Some (J_string s) \<Rightarrow>
               if s = [] then \<lparr>rs_status = 502, rs_text = [], rs_error = ''sarvam returned no message content''\<rparr>
               else \<lparr>rs_status = 200, rs_text = s, rs_error = []\<rparr>
           | _ \<Rightarrow> \<lparr>rs_status = 502, rs_text = [], rs_error = ''sarvam returned no message content''\<rparr>)
      | Sdk_timeout m \<Rightarrow> \<lparr>rs_status = 504, rs_text = [], rs_error = ''sarvam call timed out: '' @ m\<rparr>
      | Sdk_api_error code m \<Rightarrow>
          \<lparr>rs_status = (case code of None \<Rightarrow> 0 | Some k \<Rightarrow> k), rs_text = [], rs_error = ''sarvam api error: '' @ m\<rparr>
      | Sdk_failure m \<Rightarrow> \<lparr>rs_status = 0, rs_text = [], rs_error = ''sarvam call failed: '' @ m\<rparr>)"

text \<open>\<^verbatim>\<open>call\<close>: the reply, and the calls of the SDK it made.\<close>

definition child_call ::
  "(string \<Rightarrow> real option) \<Rightarrow> js_environ \<Rightarrow> string + (sdk_call \<Rightarrow> sdk_answer) \<Rightarrow> string \<Rightarrow> json option \<Rightarrow> RemoteResponse \<times> sdk_call list" where
  "child_call number env sdk prompt endpoint =
     (if sc_apiKey (readConfig number env) = [] then
        (\<lparr>rs_status = 401, rs_text = [], rs_error = ''EDGE_SARVAM_API_KEY is empty, so no prompt left this device''\<rparr>, [])
      else case sdk of
          Inl m \<Rightarrow> (\<lparr>rs_status = 0, rs_text = [], rs_error = ''sarvamai sdk is not installed: '' @ m\<rparr>, [])
        | Inr sdk \<Rightarrow>
            let req = sdk_request number env prompt endpoint
            in (classify_answer (sdk req), case sdk req of Sdk_no_client _ \<Rightarrow> [] | _ \<Rightarrow> [req]))"

text \<open>\<^verbatim>\<open>main\<close>, given all of the standard input; \<open>why\<close> is the message of the exception \<^verbatim>\<open>JSON.parse\<close> throws.\<close>

definition child_main ::
  "(string \<Rightarrow> real option) \<Rightarrow> js_environ \<Rightarrow> string + (sdk_call \<Rightarrow> sdk_answer) \<Rightarrow> string \<Rightarrow> string \<Rightarrow> RemoteResponse \<times> sdk_call list" where
  "child_main number env sdk why raw =
     (case json_parse raw of
        None \<Rightarrow> (\<lparr>rs_status = 0, rs_text = [], rs_error = ''transport request was unreadable: '' @ why\<rparr>, [])
      | Some request \<Rightarrow>
          let ps = (case request of J_object ps \<Rightarrow> ps | _ \<Rightarrow> [])
          in case map_of ps ''prompt'' of
               Some (J_string prompt) \<Rightarrow>
                 if prompt = [] then (\<lparr>rs_status = 400, rs_text = [], rs_error = ''transport request carried no prompt''\<rparr>, [])
                 else child_call number env sdk prompt (map_of ps ''endpoint'')
             | _ \<Rightarrow> (\<lparr>rs_status = 400, rs_text = [], rs_error = ''transport request carried no prompt''\<rparr>, []))"

definition child_line :: "RemoteResponse \<Rightarrow> string" where
  "child_line r =
     json_text (J_object [(''status'', J_int (rs_status r)), (''text'', J_string (rs_text r)), (''error'', J_string (rs_error r))])
     @ [newline]"

section \<open>Each side reads the other\<close>

lemma json_string_rem_char: "json_string (remEscapeChar c @ r) = map_option (apfst (Cons c)) (json_string r)"
proof -
  consider "c \<in> {bslash, dquote, newline, creturn, htab}"
    | "c \<notin> {bslash, dquote, newline, creturn, htab}" "(of_char c :: nat) < 32"
    | "c \<notin> {bslash, dquote, newline, creturn, htab}" "32 \<le> (of_char c :: nat)"
    using not_less by blast
  then show ?thesis
  proof cases
    case 1
    then show ?thesis by (auto simp: remEscapeChar_def json_string_simple simple_escape_def)
  next
    case 2
    then show ?thesis by (simp add: remEscapeChar_def json_string_hex)
  next
    case 3
    then show ?thesis by (simp add: remEscapeChar_def json_string_plain)
  qed
qed

lemma json_string_remJsonEscape: "json_string (remJsonEscape s @ dquote # r) = Some (s, r)"
  by (induction s) (simp_all add: remJsonEscape_def json_string_end json_string_rem_char)

lemma member_ok_remJsonEscape: "plain_text k \<Longrightarrow> member_ok (k, k, dquote # remJsonEscape s @ [dquote], J_string s)"
  by (simp add: member_ok_def plain_text_def plain_read reads_string json_string_remJsonEscape)

lemma request_parsed:
  "json_parse (buildRemoteRequestJson req) =
     Some (J_object [(''prompt'', J_string (rq_prompt req)), (''endpoint'', J_string (rq_endpoint req))])"
proof -
  let ?ms = "[(''prompt'', ''prompt'', dquote # remJsonEscape (rq_prompt req) @ [dquote], J_string (rq_prompt req)),
    (''endpoint'', ''endpoint'', dquote # remJsonEscape (rq_endpoint req) @ [dquote], J_string (rq_endpoint req))]"
  have "\<forall>m \<in> set ?ms. member_ok m"
    using member_ok_remJsonEscape [of "''prompt''" "rq_prompt req"] member_ok_remJsonEscape [of "''endpoint''" "rq_endpoint req"]
    by (simp add: plain_text_def needs_no_escape_def json_safe_def)
  then have "reads (object_text ?ms) (J_object (members_value ?ms))"
    by (intro reads_object_text) (simp_all add: members_value_def)
  then have r: "reads (object_text ?ms) (J_object [(''prompt'', J_string (rq_prompt req)), (''endpoint'', J_string (rq_endpoint req))])"
    by (simp add: members_value_def)
  have "buildRemoteRequestJson req = object_text ?ms @ [newline]"
    by (simp add: buildRemoteRequestJson_def object_text_def members_text_def)
  with parse_line [OF r] show ?thesis by simp
qed

text \<open>The worker reads what \<^verbatim>\<open>JSON.stringify\<close> writes.\<close>

lemma unescape_js_char: "jsonUnescape (js_escape_char c @ r) = c # jsonUnescape r"
proof -
  consider "c \<in> {bslash, dquote, CHR 0x08, CHR 0x0C, newline, creturn, htab}"
    | "c \<notin> {bslash, dquote, CHR 0x08, CHR 0x0C, newline, creturn, htab}" by blast
  then show ?thesis
  proof cases
    case 1
    then show ?thesis by (auto simp: js_escape_char_def)
  next
    case 2
    then have "js_escape_char c = remEscapeChar c" by (simp add: js_escape_char_def remEscapeChar_def)
    then show ?thesis by (simp only: unescape_remEscapeChar)
  qed
qed

lemma unescape_js_escape: "jsonUnescape (js_escape s) = s"
  by (induction s) (simp_all add: js_escape_def unescape_js_char)

lemma str_body_js_escape: "str_body (js_escape s)"
proof (induction s)
  case (Cons c s)
  have "str_body (js_escape_char c)"
    by (auto simp: js_escape_char_def hex4_def hex_digit_plain [simplified])
  with Cons show ?case by (simp add: js_escape_def str_body_append)
qed (simp add: js_escape_def)

interpretation js: string_codec js_escape jsonUnescape
  by unfold_locales (rule str_body_js_escape, rule unescape_js_escape)

lemma child_line_text:
  "child_line r = ''{\"status\":'' @ int_str (rs_status r) @ '',\"text\":\"'' @ js_escape (rs_text r) @ ''\",\"error\":\"'' @
     js_escape (rs_error r) @ ''\"}'' @ [newline]"
  by (simp add: child_line_def js_quote_def js_escape_def js_escape_char_def)

lemma child_line_parsed:
  assumes "in_int64 (rs_status r)"
  shows "parseRemoteResponseJson (child_line r) = Some r"
proof -
  let ?line = "child_line r"
  have shape: "?line = butlast ?line @ [newline]" "butlast ?line \<noteq> []" "last (butlast ?line) = CHR ''}''"
    by (simp_all add: child_line_text butlast_append)
  have "newline \<notin> set (butlast ?line)"
    unfolding child_line_def butlast_snoc by (rule json_text_line) simp
  then have one: "list_all (\<lambda>c. c \<noteq> newline) (butlast ?line)" by (auto simp: list_all_iff)
  have "lastLine ([] @ butlast ?line @ [newline]) = Some (butlast ?line @ [newline])"
    using shape(3) by (intro lastLine_append [OF _ shape(2) one]) simp_all
  then have last: "lastLine ?line = Some ?line" using shape(1) by simp
  have "find_string ''text'' ?line = Some (js_escape (rs_text r))"
    using find_string_here [of "js_escape (rs_text r)" "''text''"]
    by (simp add: child_line_text find_string_def re_search_other_key js.skip_field
        str_body_js_escape plain_key_def closes_value_def is_space_def)
  moreover have "find_string ''error'' ?line = Some (js_escape (rs_error r))"
    using find_string_here [of "js_escape (rs_error r)" "''error''"]
    by (simp add: child_line_text find_string_def re_search_other_key js.skip_field
        str_body_js_escape plain_key_def closes_value_def is_space_def)
  moreover have "extractLong ?line ''status'' = Some (rs_status r)"
    using find_int_here [where key = "''status''" and i = "rs_status r"] strtoll_int_str [OF assms(1), of "[]"]
    by (simp add: extractLong_def child_line_text find_int_text_def is_digit_def)
  ultimately show ?thesis
    by (simp add: parseRemoteResponseJson_def last remExtractString_def unescape_js_escape)
qed

lemma classify_answer_ok:
  "rs_status (classify_answer a) = 200 \<and> rs_text (classify_answer a) \<noteq> [] \<longleftrightarrow>
     (\<exists>t. t \<noteq> [] \<and> a = Sdk_content (Some (J_string t)))"
  by (auto simp: classify_answer_def split: sdk_answer.splits option.splits json.splits if_splits)

lemma classify_answer_text: "rs_text (classify_answer (Sdk_content (Some (J_string t)))) = t"
  by (simp add: classify_answer_def)

lemma sdk_request_fields:
  "sk_prompt (sdk_request number env prompt endpoint) = prompt"
  "sk_key (sdk_request number env prompt endpoint) = env_or env ''EDGE_SARVAM_API_KEY'' []"
  "sk_baseUrl (sdk_request number env prompt (Some (J_string e))) =
     (let endpoint = (if e = [] then env_or env ''EDGE_REMOTE_ENDPOINT'' [] else e) in if endpoint = [] then None else Some endpoint)"
  by (simp_all add: sdk_request_def readConfig_def falsy_or_def js_truthy_def Let_def)

lemma child_main_request:
  "child_main number env sdk why (buildRemoteRequestJson request) =
     (if rq_prompt request = [] then (\<lparr>rs_status = 400, rs_text = [], rs_error = ''transport request carried no prompt''\<rparr>, [])
      else child_call number env sdk (rq_prompt request) (Some (J_string (rq_endpoint request))))"
  by (simp add: child_main_def request_parsed)

text \<open>C26: a prompt leaves the device through the child as it is, at most once, and the answer comes back as it is. Whatever
  the child of \<^verbatim>\<open>sarvamTransport.js\<close> answers to the worker's request line is what \<^verbatim>\<open>remoteTransport.cpp\<close> returns, when the
  child's line arrived before the deadline. On the way the vendor is called at most once, and only with a key, with the exact
  prompt and with the request's endpoint before the configured one; a request without a prompt (400) and a device without a
  key (401) call nobody. The worker gets a 200 with text exactly when the vendor was called and answered a string that is
  not empty, and then it has that string.\<close>

theorem remote_answer_crosses_the_child:
  assumes child: "child_main number env sdk why (buildRemoteRequestJson request) = (answer, calls)"
    and run: "runTransportChild (buildRemoteRequestJson request) (tc_childTimeoutMs cfg) os = Some result"
    and "ch_spawned result" and "\<not> ch_timedOut result" and "ch_output result = child_line answer"
    and status: "in_int64 (rs_status answer)"
  shows "callTransport cfg request os = Some answer \<and> length calls \<le> 1 \<and>
     list_all (\<lambda>c. sk_prompt c = rq_prompt request \<and> sk_key c = env_or env ''EDGE_SARVAM_API_KEY'' [] \<and> sk_key c \<noteq> [] \<and>
       sk_baseUrl c =
         (let endpoint = (if rq_endpoint request = [] then env_or env ''EDGE_REMOTE_ENDPOINT'' [] else rq_endpoint request)
          in if endpoint = [] then None else Some endpoint)) calls \<and>
     (if rq_prompt request = [] then rs_status answer = 400 \<and> calls = []
      else if env_or env ''EDGE_SARVAM_API_KEY'' [] = [] then rs_status answer = 401 \<and> calls = []
      else rs_status answer = 200 \<and> rs_text answer \<noteq> [] \<longleftrightarrow>
        (\<exists>f c. sdk = Inr f \<and> calls = [c] \<and> rs_text answer \<noteq> [] \<and> f c = Sdk_content (Some (J_string (rs_text answer)))))"
proof -
  have call: "callTransport cfg request os = Some answer"
    using assms by (simp add: callTransport_def child_line_parsed)
  note child' = child [unfolded child_main_request child_call_def readConfig_def sarvam_config.select_convs Let_def]
  show ?thesis
  proof (cases "rq_prompt request = [] \<or> env_or env ''EDGE_SARVAM_API_KEY'' [] = [] \<or> (\<exists>m. sdk = Inl m)")
    case True
    with call child' show ?thesis by (auto split: if_splits)
  next
    case False
    then obtain f where f: "sdk = Inr f" by (cases sdk) auto
    define c where "c = sdk_request number env (rq_prompt request) (Some (J_string (rq_endpoint request)))"
    have c: "answer = classify_answer (f c)" "calls = (case f c of Sdk_no_client _ \<Rightarrow> [] | _ \<Rightarrow> [c])"
      unfolding c_def using child' False f by auto
    have one: "calls = [] \<or> calls = [c]" using c(2) by (simp split: sdk_answer.splits)
    have "calls = [c]" if "f c = Sdk_content v" for v using c(2) that by simp
    then have ok: "rs_status answer = 200 \<and> rs_text answer \<noteq> [] \<longleftrightarrow>
        (\<exists>f c. sdk = Inr f \<and> calls = [c] \<and> rs_text answer \<noteq> [] \<and> f c = Sdk_content (Some (J_string (rs_text answer))))"
      unfolding c(1) classify_answer_ok using f one classify_answer_text by auto
    from one ok call False show ?thesis by (auto simp: c_def sdk_request_fields)
  qed
qed

definition demoVendor :: "sdk_call \<Rightarrow> sdk_answer" where
  "demoVendor c = (if sk_baseUrl c = Some ''e'' then Sdk_content (Some (J_string (''re: '' @ sk_prompt c))) else Sdk_timeout [])"

definition demoVendorEnv :: js_environ where
  "demoVendorEnv = [''EDGE_SARVAM_API_KEY'' \<mapsto> ''k'', ''EDGE_REMOTE_ENDPOINT'' \<mapsto> ''other'']"

theorem remote_answer_crosses_the_child_witness:
  "callTransport demoTransport \<lparr>rq_endpoint = ''e'', rq_prompt = ''p''\<rparr>
     (demoTransportOs [(0, ChReady (Wrote 99) (ReadData (child_line \<lparr>rs_status = 200, rs_text = ''re: p'', rs_error = []\<rparr>))),
       (1, ChReady NotWritable ReadEof)])
   = Some \<lparr>rs_status = 200, rs_text = ''re: p'', rs_error = []\<rparr>"
proof -
  let ?answer = "\<lparr>rs_status = 200, rs_text = ''re: p'', rs_error = []\<rparr>"
  let ?result = "\<lparr>ch_spawned = True, ch_timedOut = False, ch_exitStatus = 0, ch_output = child_line ?answer, ch_error = []\<rparr>"
  let ?call = "\<lparr>sk_key = ''k'', sk_baseUrl = Some ''e'', sk_prompt = ''p'', sk_model = ''sarvam-105b-conversations'',
    sk_temperature = 2 / 10, sk_topP = 1, sk_maxTokens = 2000, sk_timeoutSeconds = 30\<rparr>"
  have main: "child_main (\<lambda>_. None) demoVendorEnv (Inr demoVendor) [] (buildRemoteRequestJson \<lparr>rq_endpoint = ''e'', rq_prompt = ''p''\<rparr>)
      = (?answer, [?call])"
    by (simp add: child_main_request child_call_def sdk_request_def readConfig_def env_or_def numberOr_def demoVendorEnv_def demoVendor_def
        falsy_or_def js_truthy_def classify_answer_def)
  have line: "child_line ?answer \<noteq> []" by (simp add: child_line_def)
  have run: "runTransportChild (buildRemoteRequestJson \<lparr>rq_endpoint = ''e'', rq_prompt = ''p''\<rparr>) (tc_childTimeoutMs demoTransport)
      (demoTransportOs [(0, ChReady (Wrote 99) (ReadData (child_line ?answer))), (1, ChReady NotWritable ReadEof)]) = Some ?result"
    by (simp add: runTransportChild_def demoTransport_def demoTransportOs_def writeTurn_def freshChild_def line Let_def
        wIfExited_def wExitStatus_def wTermSig_def)
  show ?thesis
    by (rule remote_answer_crosses_the_child [OF main run, THEN conjunct1]) (simp_all add: in_int64_def)
qed

end
