(* ===== verification/Spec2Isabelle.thy ===== *)
theory Spec2Isabelle
  imports Capacity_Plan Model_Cache Device_Ladder Worker_Liveness Crash_Control Supervisor_Properties Backend_Router
    Start_Properties Config_Types Scheduler_Claims Api_Server Worker_Count Answer_Stream Remote_Child
begin

text \<open>
  The core of a local inference service, modelled from its sources under \<^verbatim>\<open>src/backend\<close> and verified: the C++
  processes that plan, start, watch and run the workers, and the JavaScript servers that queue requests for them.

  \<^bold>\<open>The program.\<close> A \<^emph>\<open>supervisor\<close> process starts one \<^emph>\<open>model cache\<close>, one API server and several
  \<^emph>\<open>inference workers\<close>, and restarts what dies. The cache copies the model file into POSIX shared memory and
  publishes it with a header that carries the run's nonce; the supervisor polls that header before it starts a
  worker; a worker attaches the shared model, picks a device tier from its ladder (\<^verbatim>\<open>cuda\<close>, \<^verbatim>\<open>npu\<close>,
  \<^verbatim>\<open>ane\<close>, \<^verbatim>\<open>cpu\<close>, \<^verbatim>\<open>remote\<close>, or as configured), and answers prompts that arrive on its socket, falling down the ladder
  when a tier faults and climbing back when its quarantine is over. How many workers run, and which of them see
  the GPU, follows from a hardware probe, which is the worker binary started with another flag. A worker that
  has to give the GPU back exits with a code of its own, and the supervisor starts it again as a CPU worker.
  Workers report by heartbeats; one that falls silent or wedges is killed. A breaker, in memory and in the crash
  log, stops processes that crash too often. In front of the workers stand two servers. The \<^emph>\<open>shell app\<close> queues the
  requests of the front ends by priority and share; the \<^emph>\<open>API server\<close> keeps an id from being executed twice, hands
  each request to a free worker over its socket, hears from the supervisor which workers died, and streams tokens.

  \<^bold>\<open>Theories and sources.\<close> File names are those under \<^verbatim>\<open>src/backend\<close>.

    \<^item> \<open>Prelude\<close>, \<open>Text_Util\<close>, \<open>Json_Text\<close>: lists, words, \<^verbatim>\<open>std::stoi\<close> and its kin, line splitting, and the regular
      expressions by which every component reads JSON; the locale \<open>string_codec\<close> states what an escape and its
      inverse promise, and its lemmas about fields are used by the transport and the worker protocol.
    \<^item> \<open>Ipc\<close>: \<^verbatim>\<open>ipc/paths.h\<close>, \<^verbatim>\<open>ipc/exitCodes.h\<close>. \<open>Hardware_Report\<close>, \<open>Capacity_Plan\<close>: \<^verbatim>\<open>hardware/*\<close>.
    \<^item> \<open>Model_Cache\<close>: \<^verbatim>\<open>model-cache/*\<close> and \<^verbatim>\<open>ipc/modelReady.h\<close>. The state is the list of all shared-memory states
      the run went through, newest first, so that what a reader sees at any moment can be stated.
    \<^item> \<open>Device_Backends\<close>, \<open>Device_Ladder\<close>: \<^verbatim>\<open>inference-worker/deviceBackends.*\<close> and \<^verbatim>\<open>deviceLadder.*\<close>. The ladder is
      written over a clock and a probe that thread a world; the locale \<open>ladder_world\<close> says what they promise.
    \<^item> \<open>Remote_Transport\<close>: \<^verbatim>\<open>inference-worker/remoteTransport.*\<close>, the child process that carries a prompt off the
      device. \<open>Infer_Engine\<close>: \<^verbatim>\<open>inferEngine.*\<close> and \<^verbatim>\<open>gpuResourceOwner.*\<close>, over the answers of llama.cpp.
    \<^item> \<open>Inference_Backend\<close>, \<open>Backend_Router\<close>: \<^verbatim>\<open>inferenceBackend.*\<close> and \<^verbatim>\<open>backendRouter.*\<close>. The router is generic in
      its owner; the locale \<open>tier_hook\<close> is the contract of the fallback hook, \<open>ladder_reads\<close> that of a world the
      ladder only reads.
    \<^item> \<open>Worker_Protocol\<close>, \<open>Worker_Process\<close>: \<^verbatim>\<open>worker.*\<close>, the wire and the process; \<open>Worker_Demo\<close> is one concrete start.
      \<open>Worker_Liveness\<close>: \<^verbatim>\<open>supervisor/workerLiveness.*\<close> and the heartbeat line.
    \<^item> \<open>Worker_Reassignment\<close>, \<open>Crash_Control\<close>, \<open>Supervisor\<close>: \<^verbatim>\<open>supervisor/workerReassignment.*\<close> (locale
      \<open>reassignment_client\<close>) and \<^verbatim>\<open>supervisor/supervisor.*\<close>. \<open>Command_Line\<close>: the two \<^verbatim>\<open>main.cpp\<close> that parse flags,
      and \<^verbatim>\<open>hardwareProbe.*\<close>. \<open>Start_Properties\<close>, \<open>Config_Types\<close>: what a process is started with.
    \<^item> \<open>Js_Collections\<close>: arrays, maps in insertion order, strings and JSON values as the servers use them; the locale
      \<open>owner_counter\<close> is the contract of a counter per owner.
    \<^item> \<open>Scheduler\<close>: \<^verbatim>\<open>shell-app/scheduler.js\<close>, every method and callback of the object as an event of the loop.
      \<open>Scheduler_Properties\<close> interprets \<open>owner_counter\<close> on the per-client counts and shows the bounds,
      \<open>Scheduler_Jobs\<close> the invariant that ties jobs, runs, timers and promises together, \<open>Scheduler_Claims\<close> the theorems.
    \<^item> \<open>Request_Registry\<close>: \<^verbatim>\<open>api-server/requestRegistry.js\<close>. \<open>Worker_Pool\<close>, \<open>Worker_Pool_Properties\<close>:
      \<^verbatim>\<open>api-server/ipc.js\<close>. \<open>Api_Server\<close>: \<^verbatim>\<open>api-server/routes/infer.js\<close> over both, and the supervisor's line in
      \<^verbatim>\<open>api-server/server.js\<close>. \<open>Worker_Count\<close>: \<^verbatim>\<open>api-server/workerCountSource.js\<close>.
    \<^item> \<open>Js_Json\<close>: \<^verbatim>\<open>JSON.parse\<close> and \<^verbatim>\<open>JSON.stringify\<close> on bytes. \<open>Worker_Wire\<close>: the line the pool writes to a worker and
      what its handlers read of a frame, with \<^verbatim>\<open>worker.cpp\<close> at the other end of the socket.
    \<^item> \<open>Event_Stream\<close>: \<^verbatim>\<open>sendSse\<close> and its reader in \<^verbatim>\<open>shell-app/edgeAgentService.js\<close>. \<open>Answer_Stream\<close>: the events of a
      streamed answer and the object the shell app makes of them. \<open>Js_Env\<close>: \<^verbatim>\<open>config/env.js\<close>. \<open>Remote_Child\<close>:
      \<^verbatim>\<open>remote/sarvamTransport.js\<close>, the child that \<open>Remote_Transport\<close> starts; it interprets \<open>string_codec\<close> on the escape
      of \<^verbatim>\<open>JSON.stringify\<close> and the worker's inverse.

  A class is a record with a field per member, a member function a function on the record and the operating
  system. What the system, the clock or a library answers is an argument: a list with one entry per call, or a
  record of flags. An effect that others can see (a fork with its arguments and environment, a signal, a wait, a
  shared-memory store, a call of llama.cpp) is recorded in order. A thrown exception that ends the process is
  \<open>Inl\<close>; a call that blocks for good or a null pointer that is dereferenced is \<open>None\<close>. Integers with wrap-around
  are words; others are \<^verbatim>\<open>int\<close> with the range stated where it matters. A JavaScript object is a record too; each
  callback of the event loop is an event with the time it reads, a promise is an entry that keeps its first outcome,
  a pending timer an entry that its callback needs, and the theorems are about every state some sequence of events leads to.

  \<^bold>\<open>What is proved.\<close>
    \<^item> Model handshake: a reader that sees its nonce and the ready flag sees the whole model, at every intermediate
      state of the publication (\<open>Model_Cache\<close>); workers start only then (\<open>Supervisor_Properties\<close>), and a worker
      attaches exactly the published model (\<open>Worker_Properties\<close>).
    \<^item> Planning: budgets hold after rounding, clamping and placement (\<open>Capacity_Plan\<close>); in every reachable state
      of the supervisor, however processes crash, are restarted or reassigned, each running worker was forked
      with the arguments and the environment of its slot, no role runs twice, and the GPU is not oversubscribed.
      \<open>Supervisor_Safety\<close> shows the invariant for each operation on an abstract view, \<open>Supervisor_Runs\<close> what every
      operation keeps, \<open>Supervisor_Reach\<close> lifts both to reachable states, \<open>Supervisor_Demo\<close> is a concrete run.
    \<^item> Recovery: the breaker equals its specification, the crash log counts what it matches, the liveness check
      kills exactly the overdue workers, shutdown leaves no child, reaping terminates.
    \<^item> Ladder and router: a benched tier stays out until its time, faults move down only, routing settles within
      the attempts the code makes, an answer comes from one tier, and without consent no prompt leaves the
      device, from \<^verbatim>\<open>init\<close> to exit.
    \<^item> Engine: model and context are freed exactly as often as created, streaming and one-shot generation agree, a
      worker that has touched the GPU leaves by the reassignment exit code and by nothing else.
    \<^item> Wire: heartbeats, reports, jobs, frames, transport requests and responses, and argument vectors are read
      back as they were written, whatever the strings hold, under any cut of the bytes into reads and writes.
      \<open>reads\<close> in \<open>Js_Json\<close> says that a text is read as a value whatever follows it; with it a request is followed
      from the pool through the worker's router and back to its promise, and a prompt through the child to the vendor.
    \<^item> Scheduler: slots and shares are never overrun while ids are not in use twice, nothing waits while it could
      run, every accepted job is answered by its timer at the latest, and a run that timed out changes nothing more;
      with repeated ids memory stays bounded, but slots are overrun (\<open>repeated_id_overruns_slots\<close>).
    \<^item> API server: a worker serves one request at a time, whatever ids clients send; an id is executed once at a time,
      its answer is replayed for exactly its time to live and a failure never; a crash notice or a broken socket
      settles the request and takes the worker out; the file of requests in flight is exact when the writer is quiet.
    \<^item> Streams and settings: a streamed answer arrives under any cut into chunks, the pool's size stays
      between one and the ceiling, settings follow their precedence, accepted configurations fit their types.
    \<^item> Below, properties of several components at once: what the supervisor forks is what the worker's \<^verbatim>\<open>main\<close>
      understands, a heartbeat a worker sends keeps it from being killed, and a crash the supervisor reports reaches
      the client whose request the worker had.

  \<^bold>\<open>Bounds.\<close> The only fuel that is the code's own is the attempt bound of \<^verbatim>\<open>route\<close>, which \<open>routing_settles\<close> proves
  sufficient. The parser of JSON has two units of fuel for every byte, and \<open>json_fuel\<close> proves that more never
  changes its answer. Loops over system answers recurse on the list of answers; loops over a clock end because a step of
  the loop sleeps, and their termination is proved. Reaping takes as many rounds as there are ended children.

  \<^bold>\<open>Not modelled.\<close> The vendored \<^verbatim>\<open>llama-src\<close> and ggml (their answers are parameters); of the JavaScript the Express wiring,
  CORS, logging and the fetch calls between the servers, whose behaviour is that of those packages, and the clients
  and the dashboard, which are user interfaces; tests and scripts. The remote vendor's SDK and \<^verbatim>\<open>Number\<close> are
  parameters, as is \<^verbatim>\<open>JSON.parse\<close> in \<open>Worker_Pool\<close>, \<open>Event_Stream\<close>, \<open>Api_Server\<close> and \<open>Worker_Count\<close>, which hold for any;
  the value of a fraction in JSON is kept as its text, the scheduler's average is exact where the code rounds
  doubles, a callback reads the clock once, the clock of the registry does not run backwards, and the chunks the API
  server reads end between characters. Also not modelled: messages to standard error; the
  signal handlers, except that a stop request can arrive at any turn; mutexes and the data race on the device
  name that the heartbeat thread reads (a turn takes the values it read as arguments); \<^verbatim>\<open>std::stof\<close>, which is
  a parameter; failures of allocation; and the stack depth of \<^verbatim>\<open>std::regex\<close>, which on very long strings may
  end the process before it answers.
\<close>

section \<open>From the plan to the worker\<close>

lemma planned_id_fits:
  assumes "discovered S" and "in_int32 (cfg_workerCount (sup_config S))" and "0 \<le> w" and "w < sup_effective S"
  shows "in_int32 w"
  using assms by (auto simp: discovered_def placeableWorkerCount_def in_int32_def Let_def split: if_splits)

text \<open>C4: a running worker is the one that was planned. Take a supervisor started by an accepted command line, in
  any reachable state, and any worker it lists as running. The argument vector and the variables that process
  was really forked with, read by the worker's \<^verbatim>\<open>main\<close> in the supervisor's environment, make it a worker with the
  id it is listed under, its socket, the supervisor's socket and shared memory, on the backend of its present
  assignment; and if that is the CPU, no run of that worker, whatever its machine and its clients do, ends on
  the \<^verbatim>\<open>cuda\<close> tier.\<close>

theorem running_worker_is_the_planned_one:
  assumes "supervisorMain (so_env os) args = Inr config" and "sup_reach config os so"
    and "map_of (sup_workerPid (fst so)) w = Some p"
    and "''--probe-hardware'' \<notin> {cfg_supervisorSocketPath config, cfg_shmName config, cfg_modelPath config,
           workerSock (so_env os) w}"
  shows "\<exists>argv extra a c. lastFork (so_trace (snd so)) p = Some (argv, extra) \<and>
    assignmentFor w (sup_assignments (fst so)) = Some a \<and>
    workerMain stof (overlayEnv (so_env os) extra) (tl argv) = StartWorker c \<and>
    wc_workerId c = w \<and> wc_assignedBackend c = workerBackendName (asg_backend a) \<and>
    wc_socketPath c = workerSock (so_env os) w \<and> wc_shmName c = cfg_shmName config \<and>
    wc_supervisorSocketPath c = cfg_supervisorSocketPath config \<and>
    (\<forall>aos s los v r as code outs r'. asg_backend a = KCpu \<longrightarrow>
       workerInit aos s los (newWorker c) v = Some (True, Some r) \<longrightarrow>
       workerRun as r = Some (code, outs, r') \<longrightarrow> active r' \<noteq> ''cuda'')"
proof -
  have inv: "workers_ok (sup_view so)" "discovered (fst so)"
    using reach_invariant [OF assms(2)] by (simp_all add: view_ok_def)
  note cfg = reach_config [OF assms(2)]
  obtain a where a: "0 \<le> w" "w < sup_effective (fst so)" "assignmentFor w (sup_assignments (fst so)) = Some a"
    "lastFork (so_trace (snd so)) p = Some (workerArgs config (so_env os) w, workerBackendEnv a)"
    using inv(1) assms(3) cfg unfolding workers_ok_def by (fastforce simp: sup_view_def)
  have "in_int32 w"
    using planned_id_fits [OF inv(2) _ a(1,2)] supervisorMain_workers [OF assms(1)] cfg by simp
  from worker_start [OF assms(1) this assms(4), of stof a] obtain c where c:
    "workerMain stof (overlayEnv (so_env os) (workerBackendEnv a)) (tl (workerArgs config (so_env os) w)) = StartWorker c"
    "wc_workerId c = w" "wc_socketPath c = workerSock (so_env os) w" "wc_shmName c = cfg_shmName config"
    "wc_supervisorSocketPath c = cfg_supervisorSocketPath config" "wc_assignedBackend c = workerBackendName (asg_backend a)"
    by blast
  have "active r' \<noteq> ''cuda''" if "asg_backend a = KCpu" "workerInit aos s los (newWorker c) v = Some (True, Some r)"
    "workerRun as r = Some (code, outs, r')" for aos s los v r as code outs r'
    using cpu_backend_no_cuda [OF _ that(2,3)] c(6) that(1) by (simp add: workerBackendName.simps)
  with a(3,4) c show ?thesis by blast
qed

lemma demo_supervisorMain: "supervisorMain demoSupEnv [] = Inr demoConfig"
  by (simp add: supervisorMain_def supervisorEnvConfig_def fromEnv_def demoSupEnv_def demoConfig_def
      defaultSupervisorConfig_def shmNameEnv_def supervisorSock_def apiNotifySock_def envValue_def workerSockPrefix_def
      crashLogEnv_def modelConfigPath_def Let_def)

theorem running_worker_is_the_planned_one_witness:
  "\<exists>argv extra c. lastFork (so_trace (snd demoState)) 13 = Some (argv, extra) \<and>
     workerMain (\<lambda>s. None) (overlayEnv demoSupEnv extra) (tl argv) = StartWorker c \<and>
     wc_workerId c = 0 \<and> wc_assignedBackend c = ''cuda''"
proof -
  have env: "so_env demoSupOs = demoSupEnv" by (simp add: demoSupOs_def)
  have "''--probe-hardware'' \<notin> {cfg_supervisorSocketPath demoConfig, cfg_shmName demoConfig, cfg_modelPath demoConfig,
      workerSock demoSupEnv 0}"
    by (simp add: demoConfig_def workerSock_def workerSockPrefix_def envValue_def demoSupEnv_def)
  from running_worker_is_the_planned_one [of demoSupOs "[]" demoConfig demoState 0 13, unfolded env,
      OF demo_supervisorMain demo_reach _ this, of "\<lambda>s. None"] demo_start demo_assigned
  show ?thesis by (auto simp: workerBackendName.simps)
qed

section \<open>From the heartbeat to the verdict\<close>

text \<open>C22: a worker that is heard lives. In any reachable state, let a worker's heartbeat turn deliver its line and
  let the supervisor read that client's bytes, however the socket cut them up. Then the liveness check of the same
  turn sends the worker's process no signal, as long as the worker is idle or its request is not older than the
  limit, and draining the socket changes what is known of no other worker.\<close>

theorem heard_worker_is_spared:
  assumes "sup_reach config os0 (S, os)" and "map_of (sup_workerPid S) w = Some p"
    and "heartbeatTurn w b failures = Some (line, 0)" and "0 \<le> failures" and "in_int32 w"
    and "in_int64 (bt_now b - bt_startedAt b)" and "{dquote, newline} \<inter> set (bt_device b) = {}"
    and "sup_serverFd S" and "so_accepts os = [AcClient rs, AcNone]" and "readClient rs = line"
    and "0 < nowEpochMs os"
    and "bt_startedAt b = 0 \<or> bt_now b - bt_startedAt b \<le> lim_stuckRequestMs (cfg_liveness (sup_config S))"
  shows "\<exists>killed so'. drainSupervisorSocket (S, os) = so' \<and>
    so_trace (snd (checkWorkerLiveness so')) = killed @ so_trace os \<and> EvKill p sigkill \<notin> set killed \<and>
    (\<forall>u. u \<noteq> w \<longrightarrow> map_of (sup_workerHealth (fst so')) u = map_of (sup_workerHealth S) u)"
proof -
  have inv: "view_ok (sup_view (S, os))" "distinct (map fst (sup_workerPid S))"
    using reach_invariant [OF assms(1)] by simp_all
  let ?text = "heartbeatText w (bt_startedAt b) (bt_now b) (bt_device b)"
  let ?busy = "if bt_startedAt b = 0 then 0 else bt_now b - bt_startedAt b"
  have "line = ?text"
    using assms(3,4) sendAll_spec [of ?text "bt_sends b"] by (auto simp: heartbeatTurn_def split: if_splits)
  have w: "0 \<le> w" using inv(1) assms(2) by (auto simp: view_ok_def workers_ok_def sup_view_def)
  have "split_lines newline line = [butlast ?text]"
    using heartbeat_one_line(1) [of "bt_device b" w "bt_startedAt b" "bt_now b"]
      heartbeat_one_line(2) [of w "bt_startedAt b" "bt_now b" "bt_device b"] assms(7) \<open>line = ?text\<close>
      split_lines_line [of newline "butlast ?text" "[]"] by auto
  moreover have "parseHeartbeat (butlast ?text) = Some (w, ?busy)"
    using parse_heartbeat_line [OF w assms(5,6), of "bt_device b" "[]"] assms(7) by simp
  ultimately have drain: "drainSupervisorSocket (S, os) =
      (fst (recordHeartbeat w ?busy (S, os)), (snd (recordHeartbeat w ?busy (S, os)))\<lparr>so_accepts := []\<rparr>)"
    using assms(8-10) by (simp add: drainSupervisorSocket_def heartbeatLine_def)
  define S1 where "S1 = fst (recordHeartbeat w ?busy (S, os))"
  have S1: "sup_workerPid S1 = sup_workerPid S" "\<not> workerIsDead (nowEpochMs os) S1 w"
    "\<And>u. u \<noteq> w \<Longrightarrow> map_of (sup_workerHealth S1) u = map_of (sup_workerHealth S) u"
    using assms(11,12) by (auto simp: S1_def recordHeartbeat_def Let_def update_conv' workerIsDead_def classifyWorker_def)
  have os1: "snd (recordHeartbeat w ?busy (S, os)) = os" by (simp add: recordHeartbeat_def Let_def)
  have "u = w" if "(u, p) \<in> set (sup_workerPid S)" for u
    using worker_entry [OF inv(1), of u p] worker_entry [OF inv(1), of w p] assms(2) that inv(1,2)
    by (auto simp: sup_view_def view_ok_def workers_ok_def)
  then have "EvKill p sigkill \<notin> set (rev (map (\<lambda>(w, p). EvKill p sigkill)
      (filter (\<lambda>(u, p). workerIsDead (nowEpochMs os) S1 u) (sup_workerPid S))))"
    using S1(2) by auto
  with checkWorkers_trace [OF inv(2), of "nowEpochMs os" S1 "os\<lparr>so_accepts := []\<rparr>"] S1 drain os1
  show ?thesis by (auto simp: checkWorkerLiveness_def S1_def [symmetric] nowEpochMs_def)
qed

definition demoBeat :: beat_os where
  "demoBeat = \<lparr>bt_socket = True, bt_connect = True, bt_startedAt = 0, bt_now = 5000000, bt_device = ''cpu'',
     bt_sends = [SendBytes 3, SendInterrupt, SendBytes 500]\<rparr>"

definition heardState :: sup_state where
  "heardState = (fst demoState, snd demoState\<lparr>so_epochMs := 900000000, so_accepts :=
     [AcClient [RdData (heartbeatText 0 0 5000000 ''cpu''), RdEnd], AcNone]\<rparr>)"

theorem heard_worker_is_spared_witness:
  "workerIsDead 900000000 (fst heardState) 0 \<and>
   (\<exists>killed. so_trace (snd (checkWorkerLiveness (drainSupervisorSocket heardState))) =
      killed @ so_trace (snd demoState) \<and> EvKill 13 sigkill \<notin> set killed)"
proof -
  have "heartbeatText 0 0 5000000 ''cpu'' \<noteq> []" by code_simp
  then have heard: "readClient [RdData (heartbeatText 0 0 5000000 ''cpu''), RdEnd] = heartbeatText 0 0 5000000 ''cpu''"
    by simp
  have "sup_step demoState heardState"
    using sup_step.outside [of "snd heardState" "snd demoState" "fst demoState"] by (simp add: heardState_def)
  then have reach: "sup_reach demoConfig demoSupOs (fst heardState, snd heardState)"
    using demo_reach sup_reach.step by simp
  have turn: "heartbeatTurn 0 demoBeat 2 = Some (heartbeatText 0 0 5000000 ''cpu'', 0)"
    by code_simp
  have "workerIsDead 900000000 (fst heardState) 0"
    using demo_start by (simp add: heardState_def workerIsDead_def classifyWorker_def defaultLiveness_def)
  moreover have "\<exists>killed so'. drainSupervisorSocket (fst heardState, snd heardState) = so' \<and>
    so_trace (snd (checkWorkerLiveness so')) = killed @ so_trace (snd heardState) \<and> EvKill 13 sigkill \<notin> set killed \<and>
    (\<forall>u. u \<noteq> 0 \<longrightarrow> map_of (sup_workerHealth (fst so')) u = map_of (sup_workerHealth (fst heardState)) u)"
    by (rule heard_worker_is_spared [OF reach _ turn _ _ _ _ _ _ heard])
      (use demo_start demo_listening in \<open>simp_all add: heardState_def demoBeat_def in_int32_def in_int64_def nowEpochMs_def\<close>)
  ultimately show ?thesis by (auto simp: heardState_def)
qed

section \<open>From the dead worker to its client\<close>

lemma notify_one_line:
  "js_lines (notifyText ''worker_crashed'' i) = ([butlast (notifyText ''worker_crashed'' i)], [])"
  "js_trim (butlast (notifyText ''worker_crashed'' i)) = butlast (notifyText ''worker_crashed'' i)"
proof -
  let ?l = "butlast (notifyText ''worker_crashed'' i)"
  have l: "notifyText ''worker_crashed'' i = ?l @ [newline]" by (simp add: notifyText_def butlast_append)
  have "newline \<notin> set (nat_str k)" for k
  proof -
    have "\<not> is_digit newline" by (simp add: is_digit_def)
    then show ?thesis using nat_str_digits [of k] by blast
  qed
  then have "newline \<notin> set (int_str i)" by (simp add: int_str_def)
  then have n: "newline \<notin> set ?l" by (auto simp: notifyText_def butlast_append)
  then show "js_lines (notifyText ''worker_crashed'' i) = ([?l], [])"
    by (subst l) (simp add: js_lines.simps [of "?l @ [newline]"] js_lines.simps [of "[]"] find_char_append)
  show "js_trim ?l = ?l"
    by (simp add: js_trim_def notifyText_def butlast_append trim_start_def trim_end_def is_space_def)
qed

text \<open>The line is what \<^verbatim>\<open>JSON.stringify\<close> would write for the same object, so \<^verbatim>\<open>JSON.parse\<close> reads it.\<close>

lemma notify_parsed:
  "json_parse (butlast (notifyText ''worker_crashed'' i)) =
     Some (J_object [(''type'', J_string ''worker_crashed''), (''workerId'', J_int i), (''requestId'', J_string [])])"
    (is "_ = Some ?j")
proof -
  have "butlast (notifyText ''worker_crashed'' i) = json_text ?j"
    by (simp add: notifyText_def butlast_append js_quote_def js_escape_def js_escape_char_def)
  moreover have "json_parse (json_text ?j) = Some ?j" by (rule json_parse_text) simp
  ultimately show ?thesis by (simp only:)
qed

text \<open>C6: A crash is answered. The line the supervisor writes when a worker died, read by the API server from its socket
  in whatever pieces it arrives, marks that worker as crashed and fails the request it was serving with
  \<^verbatim>\<open>worker_crashed\<close>; the requests on the other workers stay open.\<close>

theorem crash_report_reaches_the_client:
  assumes "sv_reach c frames ttl t sv" and "open_request (svPool sv) q"
    and "concat chunks = notifyText ''worker_crashed'' (int (worker_of (svPool sv) q))"
  shows "\<exists>p'. fold (on_supervisor_chunk c now json_parse) chunks ([], svPool sv) = ([], p') \<and>
    status_of p' (worker_of (svPool sv) q) = Crashed \<and>
    rqOutcome (plRequests p' ! q) = Some (Failed Worker_crashed) \<and>
    (\<forall>k. open_request (svPool sv) k \<and> k \<noteq> q \<longrightarrow> open_request p' k)"
proof -
  let ?w = "worker_of (svPool sv) q" and ?p = "markWorkerCrashed c (worker_of (svPool sv) q) None (svPool sv)"
  have inv: "pool_inv {} (svPool sv)" using reach_sv_inv [OF assms(1)] by (simp add: sv_inv_def)
  have w: "?w < length (plWorkers (svPool sv))" using inv assms(2) by (auto simp: open_request_def intro: inv_worker)
  have lines: "line_notices json_parse [butlast (concat chunks)] = [Notice_crashed (int ?w) None]"
    unfolding assms(3) using notify_parsed [of "int ?w"] notify_one_line(2) [of "int ?w"]
    by (auto simp: line_notices_def List.map_filter_def notice_of_def notifyText_def butlast_append)
  have "fold (on_supervisor_chunk c now json_parse) chunks ([], svPool sv) =
      on_supervisor_chunk c now json_parse (concat chunks) ([], svPool sv)"
    by (rule supervisor_chunks) (simp add: js_lines.simps)
  also have "\<dots> = ([], ?p)"
    using lines assms(3) w notify_one_line(1) [of "int ?w"]
    by (simp add: on_supervisor_chunk_def handleSupervisorMessage_def known_worker_def)
  finally have "fold (on_supervisor_chunk c now json_parse) chunks ([], svPool sv) = ([], ?p)" .
  moreover have "open_request (svPool sv) k \<Longrightarrow> worker_of (svPool sv) k = ?w \<Longrightarrow> k = q" for k
    using inv assms(2) by (auto simp: pool_inv_def serving_ok_def)
  ultimately show ?thesis
    using markWorkerCrashed_inv [OF inv w, of None c] assms(2) by (intro exI [of _ ?p]) (auto split: if_splits)
qed

theorem crash_report_reaches_the_client_witness:
  "\<exists>p'. fold (on_supervisor_chunk demo_pool_config 3000 json_parse)
      [take 9 (notifyText ''worker_crashed'' 0), drop 9 (notifyText ''worker_crashed'' 0)] ([], svPool demo_server) = ([], p') \<and>
    rqOutcome (plRequests p' ! 0) = Some (Failed Worker_crashed)"
proof -
  let ?chunks = "[take 9 (notifyText ''worker_crashed'' 0), drop 9 (notifyText ''worker_crashed'' 0)]"
  from crash_report_reaches_the_client [OF demo_server_reach, of 0 ?chunks 3000] demo_server_parts
  show ?thesis by auto
qed

end
